(* ===== verification/Prelude.thy ===== *)
theory Prelude
  imports Main "HOL-Library.Word" "HOL-Library.Multiset"
begin

text \<open>
  The shared vocabulary of the development.

  \<^item> Rust's integer types: \<open>u8\<close>, \<open>u64\<close>, \<open>u128\<close> and \<open>u256\<close> are words, so \<open>+\<close> wraps as it
    does in the release builds of the workspace (no profile of its manifest turns overflow
    checks on); \<open>i64\<close> is an \<open>int\<close> kept in range by \<open>i64_wrap\<close>; \<open>usize\<close> counts are \<open>nat\<close>.
  \<^item> Rust's \<open>Result\<close> as a sum with the error on the left, and its \<open>?\<close> operator as \<open>try_res\<close>.
  \<^item> Big-endian integers as byte lists, \<open>be_nat\<close> and \<open>be_word\<close>, with both round trips.
  \<^item> \<open>sort_by\<close>, the stable sort of the standard library driven by a "not greater than"
    test, and the locale \<open>weak_order\<close> that says when it sorts.
  \<^item> The two middle elements of a sorted sample and the majority lemmas about them, on
    which every median of the program rests.
\<close>

named_theorems rust_simps "equations of the Rust library operations"

type_synonym u8 = "8 word"
type_synonym u64 = "64 word"
type_synonym u128 = "128 word"
type_synonym u256 = "256 word"
type_synonym byte = "8 word"
type_synonym bytes = "byte list"

section \<open>Results\<close>

type_synonym ('e, 'a) res = "'e + 'a"

fun try_res :: "('e, 'a) res \<Rightarrow> ('a \<Rightarrow> ('e, 'b) res) \<Rightarrow> ('e, 'b) res" where
  "try_res (Inl e) f = Inl e"
| "try_res (Inr a) f = f a"

fun map_err :: "('e \<Rightarrow> 'f) \<Rightarrow> ('e, 'a) res \<Rightarrow> ('f, 'a) res" where
  "map_err h (Inl e) = Inl (h e)"
| "map_err h (Inr a) = Inr a"

fun ok_or :: "'e \<Rightarrow> 'a option \<Rightarrow> ('e, 'a) res" where
  "ok_or e None = Inl e"
| "ok_or e (Some a) = Inr a"

fun res_ok :: "('e, 'a) res \<Rightarrow> 'a option" where
  "res_ok (Inl e) = None"
| "res_ok (Inr a) = Some a"

lemma try_res_Inr: "try_res r f = Inr b \<longleftrightarrow> (\<exists>a. r = Inr a \<and> f a = Inr b)"
  by (cases r) auto

lemma try_res_Inl: "try_res r f = Inl e \<longleftrightarrow> r = Inl e \<or> (\<exists>a. r = Inr a \<and> f a = Inl e)"
  by (cases r) auto

lemma ok_or_Inr [simp]: "ok_or e x = Inr a \<longleftrightarrow> x = Some a"
  by (cases x) auto

lemma ok_or_Inl: "ok_or e x = Inl d \<longleftrightarrow> x = None \<and> d = e"
  by (cases x) auto

lemma map_err_Inr [simp]: "map_err h r = Inr a \<longleftrightarrow> r = Inr a"
  by (cases r) auto

lemma res_ok_Some [simp]: "res_ok r = Some a \<longleftrightarrow> r = Inr a"
  by (cases r) auto

section \<open>Integers\<close>

definition i64_wrap :: "int \<Rightarrow> int" where
  "i64_wrap x = (x + 2 ^ 63) mod 2 ^ 64 - 2 ^ 63"

definition is_i64 :: "int \<Rightarrow> bool" where
  "is_i64 x \<longleftrightarrow> - (2 ^ 63) \<le> x \<and> x < 2 ^ 63"

lemma i64_wrap_id: "is_i64 x \<Longrightarrow> i64_wrap x = x"
  by (simp add: is_i64_def i64_wrap_def)

lemma is_i64_wrap: "is_i64 (i64_wrap x)"
proof -
  have "0 \<le> (x + 2 ^ 63) mod 2 ^ 64" "(x + 2 ^ 63) mod 2 ^ 64 < 2 ^ 64"
    by simp_all
  then show ?thesis unfolding is_i64_def i64_wrap_def by simp
qed

definition i64_div :: "int \<Rightarrow> int \<Rightarrow> int" where
  "i64_div a b = sgn a * sgn b * (\<bar>a\<bar> div \<bar>b\<bar>)"

lemma i64_div_pos: "0 \<le> a \<Longrightarrow> 0 < b \<Longrightarrow> i64_div a b = a div b"
  by (cases "a = 0") (auto simp: i64_div_def)

definition sat_sub :: "'a::len word \<Rightarrow> 'a word \<Rightarrow> 'a word" where
  "sat_sub a b = (if a < b then 0 else a - b)"

definition checked_sub :: "'a::len word \<Rightarrow> 'a word \<Rightarrow> 'a word option" where
  "checked_sub a b = (if a < b then None else Some (a - b))"

definition abs_diff :: "'a::len word \<Rightarrow> 'a word \<Rightarrow> 'a word" where
  "abs_diff a b = (if a < b then b - a else a - b)"

lemma unat_sat_sub: "unat (sat_sub a b) = unat a - unat b"
  by (auto simp: sat_sub_def unat_sub word_less_nat_alt word_le_nat_alt)

lemma checked_sub_Some: "checked_sub a b = Some c \<longleftrightarrow> b \<le> a \<and> c = a - b"
  by (auto simp: checked_sub_def not_less)

lemma unat_abs_diff: "int (unat (abs_diff a b)) = \<bar>int (unat a) - int (unat b)\<bar>"
proof (cases "a < b")
  case True
  then have "unat a < unat b" "unat (b - a) = unat b - unat a"
    by (simp_all add: word_less_nat_alt unat_sub word_le_nat_alt)
  with True show ?thesis unfolding abs_diff_def if_P[OF True] by linarith
next
  case False
  then have "unat b \<le> unat a" "unat (a - b) = unat a - unat b"
    by (simp_all add: word_le_nat_alt unat_sub not_less)
  with False show ?thesis unfolding abs_diff_def if_not_P[OF False] by linarith
qed

lemma unat_abs_diff_nat: "unat (abs_diff a b) = (unat a - unat b) + (unat b - unat a)"
  using unat_abs_diff[of a b] by linarith

section \<open>Big-endian bytes\<close>

definition be_nat :: "bytes \<Rightarrow> nat" where
  "be_nat bs = foldl (\<lambda>acc b. acc * 256 + unat b) 0 bs"

fun be_word :: "nat \<Rightarrow> nat \<Rightarrow> bytes" where
  "be_word 0 n = []"
| "be_word (Suc k) n = be_word k (n div 256) @ [of_nat (n mod 256)]"

lemma length_be_word [simp]: "length (be_word k n) = k"
  by (induction k n rule: be_word.induct) auto

lemma be_nat_snoc [simp]: "be_nat (bs @ [b]) = be_nat bs * 256 + unat b" "be_nat [] = 0"
  by (simp_all add: be_nat_def)

lemma byte_lt: "unat (b :: byte) < 256"
  using unsigned_less[of b, where 'a = nat] by simp

lemma be_word_be_nat: "be_word (length bs) (be_nat bs) = bs"
  using byte_lt by (induction bs rule: rev_induct) auto

lemma be_nat_lt: "be_nat bs < 256 ^ length bs"
proof (induction bs rule: rev_induct)
  case (snoc b bs)
  have "be_nat bs * 256 + unat b < (be_nat bs + 1) * 256" using byte_lt[of b] by simp
  also have "\<dots> \<le> 256 ^ length bs * 256" using snoc by (intro mult_right_mono) simp_all
  finally show ?case by (simp add: mult.commute)
qed simp

lemma be_nat_be_word: "n < 256 ^ k \<Longrightarrow> be_nat (be_word k n) = n"
proof (induction k n rule: be_word.induct)
  case (2 k n)
  then have "n div 256 < 256 ^ k" by (simp add: less_mult_imp_div_less mult.commute)
  with 2 show ?case by (simp add: unat_of_nat)
qed simp

section \<open>Lists\<close>

definition first :: "'a list \<Rightarrow> 'a option" where
  "first xs = (case xs of [] \<Rightarrow> None | x # _ \<Rightarrow> Some x)"

lemma first_simps [simp]: "first [] = None" "first (x # xs) = Some x"
  by (simp_all add: first_def)

lemma first_Some: "first xs = Some x \<Longrightarrow> x \<in> set xs"
  by (cases xs) auto

lemma first_None [simp]: "first xs = None \<longleftrightarrow> xs = []"
  by (cases xs) auto

fun filter_map :: "('a \<Rightarrow> 'b option) \<Rightarrow> 'a list \<Rightarrow> 'b list" where
  "filter_map f [] = []"
| "filter_map f (x # xs) = (case f x of None \<Rightarrow> filter_map f xs | Some y \<Rightarrow> y # filter_map f xs)"

lemma set_filter_map: "set (filter_map f xs) = {y. \<exists>x \<in> set xs. f x = Some y}"
  by (induction xs) (auto split: option.splits)

text \<open>Pushing each element that is not there yet: the de-duplicating loops of the source.\<close>

fun push_new :: "'a list \<Rightarrow> 'a list \<Rightarrow> 'a list" where
  "push_new acc [] = acc"
| "push_new acc (x # xs) = push_new (if x \<in> set acc then acc else acc @ [x]) xs"

lemma set_push_new [simp]: "set (push_new acc xs) = set acc \<union> set xs"
  by (induction xs arbitrary: acc) auto

lemma distinct_push_new: "distinct acc \<Longrightarrow> distinct (push_new acc xs)"
  by (induction xs arbitrary: acc) auto

lemma length_push_new: "distinct acc \<Longrightarrow> length (push_new acc xs) = card (set acc \<union> set xs)"
  by (metis distinct_card distinct_push_new set_push_new)

section \<open>The stable sort\<close>

fun insert_by :: "('a \<Rightarrow> 'a \<Rightarrow> bool) \<Rightarrow> 'a \<Rightarrow> 'a list \<Rightarrow> 'a list" where
  "insert_by le x [] = [x]"
| "insert_by le x (y # ys) = (if le x y then x # y # ys else y # insert_by le x ys)"

fun sort_by :: "('a \<Rightarrow> 'a \<Rightarrow> bool) \<Rightarrow> 'a list \<Rightarrow> 'a list" where
  "sort_by le [] = []"
| "sort_by le (x # xs) = insert_by le x (sort_by le xs)"

lemma mset_insert_by [simp]: "mset (insert_by le x ys) = add_mset x (mset ys)"
  by (induction ys) auto

lemma mset_sort_by [simp]: "mset (sort_by le xs) = mset xs"
  by (induction xs) auto

lemma set_insert_by [simp]: "set (insert_by le x ys) = insert x (set ys)"
  by (metis mset_insert_by set_mset_add_mset_insert set_mset_mset)

lemma set_sort_by [simp]: "set (sort_by le xs) = set xs"
  by (metis mset_sort_by set_mset_mset)

lemma length_sort_by [simp]: "length (sort_by le xs) = length xs"
  by (metis mset_sort_by size_mset)

lemma sort_by_eq_Nil [simp]: "sort_by le xs = [] \<longleftrightarrow> xs = []"
  by (metis length_0_conv length_sort_by)

text \<open>
  The contract of a comparison: on the values \<open>ok\<close> it is total and transitive. Equality of
  the order need not be identity (the two zeros of a float compare equal).
\<close>

locale weak_order =
  fixes le :: "'a \<Rightarrow> 'a \<Rightarrow> bool"
    and ok :: "'a \<Rightarrow> bool"
  assumes total: "ok x \<Longrightarrow> ok y \<Longrightarrow> le x y \<or> le y x"
    and trans: "ok x \<Longrightarrow> ok y \<Longrightarrow> ok z \<Longrightarrow> le x y \<Longrightarrow> le y z \<Longrightarrow> le x z"
begin

lemma refl: "ok x \<Longrightarrow> le x x"
  using total by blast

lemma sorted_insert_by:
  assumes "ok x" "\<forall>y \<in> set ys. ok y" "sorted_wrt le ys"
  shows "sorted_wrt le (insert_by le x ys)"
  using assms
proof (induction ys)
  case (Cons y ys)
  show ?case
  proof (cases "le x y")
    case True
    have "le x z" if "z \<in> set ys" for z
      using trans[of x y z] True Cons.prems that by auto
    with True Cons.prems show ?thesis by simp
  next
    case False
    with total Cons.prems have "le y x" by auto
    with False Cons show ?thesis by auto
  qed
qed simp

lemma sorted_sort_by: "\<forall>x \<in> set xs. ok x \<Longrightarrow> sorted_wrt le (sort_by le xs)"
  by (induction xs) (auto intro: sorted_insert_by)

end

lemma length_filter_mono:
  "(\<And>x. P x \<Longrightarrow> Q x) \<Longrightarrow> length (filter P xs) \<le> length (filter Q xs)"
  by (induction xs) auto

lemma count_filter_prefix:
  assumes "\<And>j. j < k \<Longrightarrow> P (ys ! j)" "k \<le> length ys"
  shows "k \<le> length (filter P ys)"
proof -
  have "filter P (take k ys) = take k ys"
    using assms by (auto simp: filter_id_conv in_set_conv_nth)
  then have "filter P ys = take k ys @ filter P (drop k ys)"
    by (metis append_take_drop_id filter_append)
  then show ?thesis using assms(2) by simp
qed

lemma count_filter_index:
  assumes "sorted_wrt le ys" "i < length ys" "\<not> P (ys ! i)"
    and up: "\<And>x y. x \<in> set ys \<Longrightarrow> y \<in> set ys \<Longrightarrow> le x y \<Longrightarrow> \<not> P x \<Longrightarrow> \<not> P y"
  shows "length (filter P ys) \<le> i"
proof -
  have "\<not> P (ys ! j)" if "i \<le> j" "j < length ys" for j
  proof (cases "i = j")
    case False
    then have "le (ys ! i) (ys ! j)"
      using assms(1) that by (simp add: sorted_wrt_nth_less)
    then show ?thesis using up assms(2,3) that nth_mem by blast
  qed (use assms in simp)
  then have "filter P (drop i ys) = []"
    by (auto simp: filter_empty_conv in_set_conv_nth)
  then have "filter P ys = filter P (take i ys)"
    by (metis append_Nil2 append_take_drop_id filter_append)
  also have "length \<dots> \<le> i"
    by (metis length_filter_le length_take min.absorb_iff1 min.cobounded2 order.trans)
  finally show ?thesis .
qed

lemma count_filter_index_ge:
  assumes "sorted_wrt le ys" "i < length ys" "\<not> P (ys ! i)"
    and down: "\<And>x y. x \<in> set ys \<Longrightarrow> y \<in> set ys \<Longrightarrow> le x y \<Longrightarrow> \<not> P y \<Longrightarrow> \<not> P x"
  shows "length (filter P ys) \<le> length ys - Suc i"
proof -
  have "\<not> P (ys ! j)" if "j \<le> i" for j
  proof (cases "i = j")
    case False
    then have "le (ys ! j) (ys ! i)"
      using assms(1,2) that by (simp add: sorted_wrt_nth_less)
    then show ?thesis using down assms(2,3) that nth_mem by (metis le_less_trans)
  qed (use assms in simp)
  then have "filter P (take (Suc i) ys) = []"
    using assms(2) by (auto simp: filter_empty_conv in_set_conv_nth)
  then have "filter P ys = filter P (drop (Suc i) ys)"
    by (metis append_Nil append_take_drop_id filter_append)
  also have "length \<dots> \<le> length ys - Suc i"
    by (metis length_drop length_filter_le)
  finally show ?thesis .
qed

context weak_order
begin

text \<open>
  The majority lemma: when more than half of a sample lies between \<open>lo\<close> and \<open>hi\<close>, every
  index that is a middle of the sorted sample (the upper one, and for an even sample the
  lower one) holds a value between \<open>lo\<close> and \<open>hi\<close>.
\<close>

lemma majority_middle:
  assumes ok: "\<forall>x \<in> set xs. ok x" "ok lo" "ok hi"
    and maj: "length xs < 2 * length (filter (\<lambda>x. le lo x \<and> le x hi) xs)"
    and i: "i = length xs div 2 \<or> even (length xs) \<and> Suc i = length xs div 2"
  shows "le lo (sort_by le xs ! i) \<and> le (sort_by le xs ! i) hi"
proof -
  let ?ys = "sort_by le xs"
  let ?in = "\<lambda>x. le lo x \<and> le x hi"
  have ne: "xs \<noteq> []" using maj by auto
  have n: "length ?ys = length xs" by simp
  have il: "i < length ?ys" using i ne by (auto simp: length_greater_0_conv[symmetric] simp del: length_greater_0_conv) 
  have s: "sorted_wrt le ?ys" using ok(1) by (rule sorted_sort_by)
  have oky: "\<forall>x \<in> set ?ys. ok x" using ok(1) by simp
  have maj': "length xs < 2 * length (filter ?in ?ys)"
    using maj by (metis mset_filter mset_sort_by size_mset)
  have yi: "?ys ! i \<in> set ?ys" using il by (rule nth_mem)
  have sub: "length (filter ?in ?ys) \<le> length (filter (le lo) ?ys)"
    "length (filter ?in ?ys) \<le> length (filter (\<lambda>x. le x hi) ?ys)"
    by (rule length_filter_mono; simp)+
  have "le lo (?ys ! i)"
  proof (rule ccontr)
    assume c: "\<not> le lo (?ys ! i)"
    have "length (filter (le lo) ?ys) \<le> length ?ys - Suc i"
      using s il c by (rule count_filter_index_ge) (use trans ok(2) oky in blast)
    then show False using sub(1) maj' i n by auto
  qed
  moreover have "le (?ys ! i) hi"
  proof (rule ccontr)
    assume c: "\<not> le (?ys ! i) hi"
    have "length (filter (\<lambda>x. le x hi) ?ys) \<le> i"
      using s il c by (rule count_filter_index) (use trans ok(3) oky in blast)
    then show False using sub(2) maj' i by auto
  qed
  ultimately show ?thesis ..
qed

end

section \<open>UTF-8\<close>

text \<open>The code points of a UTF-8 string, or \<open>None\<close> when it is malformed.\<close>

definition is_cont :: "byte \<Rightarrow> bool" where
  "is_cont b \<longleftrightarrow> 0x80 \<le> b \<and> b \<le> 0xBF"

definition cont_bits :: "byte \<Rightarrow> nat" where
  "cont_bits b = unat b - 128"

fun utf8_decode :: "bytes \<Rightarrow> nat list option" where
  "utf8_decode [] = Some []"
| "utf8_decode (a # bs) =
     (if a < 0x80 then map_option ((#) (unat a)) (utf8_decode bs)
      else case bs of
        [] \<Rightarrow> None
      | b # cs \<Rightarrow>
          if 0xC2 \<le> a \<and> a \<le> 0xDF \<and> is_cont b
          then map_option ((#) ((unat a - 192) * 64 + cont_bits b)) (utf8_decode cs)
          else case cs of
            [] \<Rightarrow> None
          | c # ds \<Rightarrow>
              if 0xE0 \<le> a \<and> a \<le> 0xEF \<and> is_cont b \<and> is_cont c
                 \<and> (a = 0xE0 \<longrightarrow> 0xA0 \<le> b) \<and> (a = 0xED \<longrightarrow> b \<le> 0x9F)
              then map_option ((#) ((unat a - 224) * 4096 + cont_bits b * 64 + cont_bits c)) (utf8_decode ds)
              else case ds of
                [] \<Rightarrow> None
              | d # es \<Rightarrow>
                  if 0xF0 \<le> a \<and> a \<le> 0xF4 \<and> is_cont b \<and> is_cont c \<and> is_cont d
                     \<and> (a = 0xF0 \<longrightarrow> 0x90 \<le> b) \<and> (a = 0xF4 \<longrightarrow> b \<le> 0x8F)
                  then map_option ((#) ((unat a - 240) * 262144 + cont_bits b * 4096 + cont_bits c * 64 + cont_bits d))
                         (utf8_decode es)
                  else None)"

end
