(* ===== verification/Chain.thy ===== *)
theory Chain
  imports Prelude
begin

text \<open>
  \<open>crates/keyex/src/chain.rs\<close>: the chain reads behind the boot rules and the claims.

  A transport is a function from a method, its parameters and a state to an answer and the next
  state. The state is arbitrary, so nothing relates the answers to different calls, not even to
  the same question: an untrusted host is one such transport. The hexadecimal codec and the printing of an address belong
  to \<open>alloy\<close> and are the fields of the record \<open>codec\<close>.
\<close>

section \<open>JSON values, the host and the codec\<close>

text \<open>
  A JSON number is an integer in the range of \<open>u64\<close> and \<open>i64\<close> or a finite double, which is kept as its
  sign, its significand and the exponent of two.
\<close>

datatype Value =
    JNull
  | JBool bool
  | JNum int
  | JFloat bool nat int
  | JStr string
  | JArr "Value list"
  | JObj "(string \<times> Value) list"

fun json_get :: "Value \<Rightarrow> string \<Rightarrow> Value option" where
  "json_get (JObj fields) k = map_of fields k"
| "json_get _ k = None"

fun as_str :: "Value \<Rightarrow> string option" where
  "as_str (JStr s) = Some s"
| "as_str _ = None"

type_synonym 's transport = "string \<Rightarrow> Value \<Rightarrow> 's \<Rightarrow> Value option \<times> 's"

record codec =
  hex_decode :: "string \<Rightarrow> bytes option"
  hex_encode_prefixed :: "bytes \<Rightarrow> string"
  address_to_string :: "bytes \<Rightarrow> string"

datatype ChainError = ReadMismatch | DecreasingBurned | Rpc

type_synonym ('s, 'a) read = "'s \<Rightarrow> (ChainError, 'a) res \<times> 's"

definition read_ok :: "'a \<Rightarrow> ('s, 'a) read" where
  "read_ok a = (\<lambda>n. (Inr a, n))"

definition read_err :: "ChainError \<Rightarrow> ('s, 'a) read" where
  "read_err e = (\<lambda>n. (Inl e, n))"

definition read_bind :: "('s, 'a) read \<Rightarrow> ('a \<Rightarrow> ('s, 'b) read) \<Rightarrow> ('s, 'b) read" where
  "read_bind m f = (\<lambda>n. case m n of (Inl e, k) \<Rightarrow> (Inl e, k) | (Inr a, k) \<Rightarrow> f a k)"

text \<open>\<open>ok_or(ChainError::Rpc)?\<close>\<close>

definition read_opt :: "'a option \<Rightarrow> ('s, 'a) read" where
  "read_opt v = (case v of None \<Rightarrow> read_err Rpc | Some a \<Rightarrow> read_ok a)"

definition rpc :: "'s transport \<Rightarrow> string \<Rightarrow> Value \<Rightarrow> ('s, Value) read" where
  "rpc t method params = (\<lambda>n. case t method params n of (v, k) \<Rightarrow>
     (case v of None \<Rightarrow> Inl Rpc | Some a \<Rightarrow> Inr a, k))"

section \<open>Quantities and words\<close>

definition hex_digit :: "nat \<Rightarrow> char" where
  "hex_digit d = (if d < 10 then char_of (48 + d) else char_of (87 + d))"

fun hex_of_nat :: "nat \<Rightarrow> string" where
  "hex_of_nat n = (if n < 16 then [hex_digit n] else hex_of_nat (n div 16) @ [hex_digit (n mod 16)])"

definition hex_value :: "char \<Rightarrow> nat option" where
  "hex_value c = (let n = of_char c :: nat in
     if 48 \<le> n \<and> n \<le> 57 then Some (n - 48)
     else if 97 \<le> n \<and> n \<le> 102 then Some (n - 87)
     else if 65 \<le> n \<and> n \<le> 70 then Some (n - 55)
     else None)"

definition is_ascii_hexdigit :: "char \<Rightarrow> bool" where
  "is_ascii_hexdigit c \<longleftrightarrow> hex_value c \<noteq> None"

definition hex_to_nat :: "string \<Rightarrow> nat" where
  "hex_to_nat s = foldl (\<lambda>acc c. acc * 16 + the (hex_value c)) 0 s"

definition strip_prefix :: "string \<Rightarrow> string \<Rightarrow> string option" where
  "strip_prefix pre s = (if take (length pre) s = pre then Some (drop (length pre) s) else None)"

definition quantity :: "u64 \<Rightarrow> string" where
  "quantity n = ''0x'' @ hex_of_nat (unat n)"

definition parse_quantity :: "Value \<Rightarrow> u64 option" where
  "parse_quantity v =
     (case as_str v of None \<Rightarrow> None
      | Some s0 \<Rightarrow> (case strip_prefix ''0x'' s0 of None \<Rightarrow> None
      | Some s \<Rightarrow>
          if s = [] \<or> 1 < length s \<and> hd s = CHR ''0'' \<or> \<not> list_all is_ascii_hexdigit s then None
          else if hex_to_nat s < 2 ^ 64 then Some (of_nat (hex_to_nat s)) else None))"

definition decode_hex :: "codec \<Rightarrow> string \<Rightarrow> bytes option" where
  "decode_hex C s = hex_decode C (case strip_prefix ''0x'' s of Some r \<Rightarrow> r | None \<Rightarrow> s)"

definition parse_b256 :: "codec \<Rightarrow> Value \<Rightarrow> bytes option" where
  "parse_b256 C v =
     (case as_str v of None \<Rightarrow> None
      | Some s \<Rightarrow> (case decode_hex C s of None \<Rightarrow> None
      | Some b \<Rightarrow> if length b = 32 then Some b else None))"

definition u256_be :: "bytes \<Rightarrow> u256" where
  "u256_be bs = foldl (\<lambda>acc b. acc * 256 + ucast b) 0 bs"

section \<open>Registries and finality\<close>

datatype Registry = OracleRegistry | BridgeRegistry

datatype Finality = Tag | HeadMinus u64 | FinalizedWithDepth u64

record BlockRef =
  blk_number :: u64
  blk_hash :: bytes
  blk_timestamp :: u64

definition SEL_BURNED :: bytes where "SEL_BURNED = [0xa7, 0x50, 0x9b, 0x83]"
definition SEL_IS_VALID_SIGNER :: bytes where "SEL_IS_VALID_SIGNER = [0xd5, 0xf5, 0x05, 0x82]"
definition SEL_VALID_SIGNER :: bytes where "SEL_VALID_SIGNER = [0xba, 0x6f, 0x8b, 0x0e]"
definition SEL_SIGNER_COUNT :: bytes where "SEL_SIGNER_COUNT = [0x7c, 0xa5, 0x48, 0xc6]"
definition SEL_GET_OWNERS :: bytes where "SEL_GET_OWNERS = [0xa0, 0xe6, 0x7e, 0x2b]"
definition SEL_GET_THRESHOLD :: bytes where "SEL_GET_THRESHOLD = [0xe7, 0x52, 0x35, 0xb8]"
definition MAX_SAFE_OWNERS :: nat where "MAX_SAFE_OWNERS = 64"

definition valid_signer_selector :: "Registry \<Rightarrow> bytes" where
  "valid_signer_selector k =
     (case k of OracleRegistry \<Rightarrow> SEL_IS_VALID_SIGNER | BridgeRegistry \<Rightarrow> SEL_VALID_SIGNER)"

definition eth_block_number :: "'s transport \<Rightarrow> ('s, u64) read" where
  "eth_block_number t =
     read_bind (rpc t ''eth_blockNumber'' (JArr [])) (\<lambda>resp. read_opt (parse_quantity resp))"

definition read_block :: "codec \<Rightarrow> 's transport \<Rightarrow> u64 option \<Rightarrow> ('s, BlockRef) read" where
  "read_block C t requested_number =
     (let tag = (case requested_number of Some n \<Rightarrow> quantity n | None \<Rightarrow> ''finalized'')
      in read_bind (rpc t ''eth_getBlockByNumber'' (JArr [JStr tag, JBool False])) (\<lambda>resp.
         read_bind (read_opt (json_get resp ''number'')) (\<lambda>vn.
         read_bind (read_opt (parse_quantity vn)) (\<lambda>number.
         if (case requested_number of Some expected \<Rightarrow> expected \<noteq> number | None \<Rightarrow> False)
         then read_err ReadMismatch
         else
         read_bind (read_opt (json_get resp ''hash'')) (\<lambda>vh.
         read_bind (read_opt (parse_b256 C vh)) (\<lambda>hash.
         read_bind (read_opt (json_get resp ''timestamp'')) (\<lambda>vt.
         read_bind (read_opt (parse_quantity vt)) (\<lambda>timestamp.
         read_ok \<lparr>blk_number = number, blk_hash = hash, blk_timestamp = timestamp\<rparr>))))))))"

definition finalized_block :: "codec \<Rightarrow> 's transport \<Rightarrow> Finality \<Rightarrow> ('s, BlockRef) read" where
  "finalized_block C t finality =
     (case finality of
        Tag \<Rightarrow> read_block C t None
      | HeadMinus depth \<Rightarrow>
          read_bind (eth_block_number t) (\<lambda>head. read_block C t (Some (sat_sub head depth)))
      | FinalizedWithDepth depth \<Rightarrow>
          read_bind (read_block C t None) (\<lambda>finalized.
          read_bind (eth_block_number t) (\<lambda>head.
          read_bind (read_opt (checked_sub head depth)) (\<lambda>ceiling.
          if blk_number finalized \<le> ceiling then read_ok finalized
          else read_block C t (Some ceiling)))))"

definition read_block_hash :: "codec \<Rightarrow> 's transport \<Rightarrow> u64 \<Rightarrow> ('s, bytes) read" where
  "read_block_hash C t number =
     read_bind (rpc t ''eth_getBlockByNumber'' (JArr [JStr (quantity number), JBool False])) (\<lambda>resp.
     read_bind (read_opt (json_get resp ''number'')) (\<lambda>vn.
     read_bind (read_opt (parse_quantity vn)) (\<lambda>observed.
     if observed \<noteq> number then read_err ReadMismatch
     else
     read_bind (read_opt (json_get resp ''hash'')) (\<lambda>vh. read_opt (parse_b256 C vh)))))"

section \<open>Calls\<close>

datatype CallBlock = Number u64 | CanonicalHash bytes

definition encode_call :: "bytes \<Rightarrow> bytes \<Rightarrow> bytes" where
  "encode_call selector arg = selector @ replicate 12 0 @ arg"

definition eth_call_bytes :: "codec \<Rightarrow> 's transport \<Rightarrow> bytes \<Rightarrow> bytes \<Rightarrow> CallBlock \<Rightarrow> ('s, bytes) read" where
  "eth_call_bytes C t to data block =
     (let block_id = (case block of
            Number number \<Rightarrow> JStr (quantity number)
          | CanonicalHash hash \<Rightarrow> JObj [(''blockHash'', JStr (hex_encode_prefixed C hash)),
                                        (''requireCanonical'', JBool True)]);
          params = JArr [JObj [(''to'', JStr (address_to_string C to)),
                               (''data'', JStr (hex_encode_prefixed C data))], block_id]
      in read_bind (rpc t ''eth_call'' params) (\<lambda>resp.
         read_bind (read_opt (as_str resp)) (\<lambda>s. read_opt (decode_hex C s))))"

definition eth_call_word :: "codec \<Rightarrow> 's transport \<Rightarrow> bytes \<Rightarrow> bytes \<Rightarrow> CallBlock \<Rightarrow> ('s, bytes) read" where
  "eth_call_word C t to data block =
     read_bind (eth_call_bytes C t to data block) (\<lambda>b.
     if length b < 32 then read_err Rpc else read_ok (take 32 b))"

definition burned_finalized :: "codec \<Rightarrow> 's transport \<Rightarrow> bytes \<Rightarrow> bytes \<Rightarrow> Finality \<Rightarrow> ('s, u256 \<times> u64) read" where
  "burned_finalized C t exit recipient finality =
     read_bind (finalized_block C t finality) (\<lambda>block.
     let data = encode_call SEL_BURNED recipient in
     read_bind (eth_call_word C t exit data (CanonicalHash (blk_hash block))) (\<lambda>v1.
     read_bind (read_block_hash C t (blk_number block)) (\<lambda>hash2.
     read_bind (eth_call_word C t exit data (CanonicalHash (blk_hash block))) (\<lambda>v2.
     if blk_hash block \<noteq> hash2 \<or> v1 \<noteq> v2 then read_err ReadMismatch
     else read_ok (u256_be v1, blk_number block)))))"

definition ensure_not_decreasing :: "u256 \<Rightarrow> u256 \<Rightarrow> (ChainError, unit) res" where
  "ensure_not_decreasing fresh last_signed =
     (if fresh < last_signed then Inl DecreasingBurned else Inr ())"

definition is_valid_signer :: "codec \<Rightarrow> 's transport \<Rightarrow> bytes \<Rightarrow> Registry \<Rightarrow> bytes \<Rightarrow> Finality \<Rightarrow> ('s, bool) read" where
  "is_valid_signer C t registry kind who finality =
     read_bind (finalized_block C t finality) (\<lambda>block.
     read_bind (eth_call_word C t registry (encode_call (valid_signer_selector kind) who)
                  (Number (blk_number block))) (\<lambda>w.
     read_ok (w \<noteq> replicate 32 0)))"

definition signer_count :: "codec \<Rightarrow> 's transport \<Rightarrow> bytes \<Rightarrow> Finality \<Rightarrow> ('s, u256) read" where
  "signer_count C t registry finality =
     read_bind (finalized_block C t finality) (\<lambda>block.
     read_bind (eth_call_word C t registry SEL_SIGNER_COUNT (Number (blk_number block))) (\<lambda>w.
     read_ok (u256_be w)))"

fun decode_addresses :: "bytes \<Rightarrow> nat \<Rightarrow> bytes list option" where
  "decode_addresses raw 0 = Some []"
| "decode_addresses raw (Suc n) =
     (let w = take 32 raw in
      if take 12 w \<noteq> replicate 12 0 then None
      else map_option (\<lambda>rest. drop 12 w # rest) (decode_addresses (drop 32 raw) n))"

definition decode_address_array :: "bytes \<Rightarrow> bytes list option" where
  "decode_address_array raw =
     (if length raw < 64 then None
      else if u256_be (take 32 raw) \<noteq> 32 then None
      else let len_word = u256_be (take 32 (drop 32 raw)) in
           if 2 ^ 64 \<le> unat len_word then None
           else let len = unat len_word in
                if MAX_SAFE_OWNERS < len \<or> length raw < 64 + len * 32 then None
                else decode_addresses (drop 64 raw) len)"

definition safe_quorum :: "codec \<Rightarrow> 's transport \<Rightarrow> bytes \<Rightarrow> Finality \<Rightarrow> ('s, bytes list \<times> u256) read" where
  "safe_quorum C t safe finality =
     read_bind (finalized_block C t finality) (\<lambda>block.
     read_bind (eth_call_bytes C t safe SEL_GET_OWNERS (Number (blk_number block))) (\<lambda>raw.
     read_bind (read_opt (decode_address_array raw)) (\<lambda>owners.
     read_bind (eth_call_word C t safe SEL_GET_THRESHOLD (Number (blk_number block))) (\<lambda>w.
     read_ok (owners, u256_be w)))))"

declare hex_of_nat.simps [simp del]

section \<open>Sequencing reads\<close>

lemma read_bind_Inr [simp]:
  "read_bind m f n = (Inr b, k) \<longleftrightarrow> (\<exists>a j. m n = (Inr a, j) \<and> f a j = (Inr b, k))"
  by (auto simp: read_bind_def split: prod.splits sum.splits)

lemma read_ok_Inr [simp]: "read_ok a n = (Inr b, k) \<longleftrightarrow> a = b \<and> n = k"
  by (auto simp: read_ok_def)

lemma read_err_Inr [simp]: "read_err e n \<noteq> (Inr b, k)"
  by (auto simp: read_err_def)

lemma read_opt_Inr [simp]: "read_opt v n = (Inr b, k) \<longleftrightarrow> v = Some b \<and> n = k"
  by (auto simp: read_opt_def split: option.splits)

lemma rpc_Inr [simp]: "rpc t m p n = (Inr v, k) \<longleftrightarrow> t m p n = (Some v, k)"
  by (auto simp: rpc_def split: option.splits prod.splits)

section \<open>Quantities\<close>

lemma hex_value_digit: "d < 16 \<Longrightarrow> hex_value (hex_digit d) = Some d"
  by (auto simp: hex_value_def hex_digit_def Let_def)

lemma hex_of_nat_digits: "list_all is_ascii_hexdigit (hex_of_nat n)"
  by (induction n rule: hex_of_nat.induct)
    (subst hex_of_nat.simps, auto simp: list_all_iff is_ascii_hexdigit_def hex_value_digit)

lemma hex_to_nat_of_nat: "hex_to_nat (hex_of_nat n) = n"
  by (induction n rule: hex_of_nat.induct)
    (subst hex_of_nat.simps, auto simp: hex_to_nat_def hex_value_digit)

lemma hex_of_nat_ne: "hex_of_nat n \<noteq> []"
  by (subst hex_of_nat.simps) auto

lemma hex_digit_0: "d < 16 \<Longrightarrow> hex_digit d = CHR ''0'' \<longleftrightarrow> d = 0"
proof -
  assume d: "d < 16"
  have z: "hex_digit 0 = CHR ''0''" by code_simp
  show ?thesis using hex_value_digit[OF d] hex_value_digit[of 0] z by (metis option.inject zero_less_numeral)
qed

lemma hex_of_nat_no_leading_zero: "0 < n \<Longrightarrow> hd (hex_of_nat n) \<noteq> CHR ''0''"
proof (induction n rule: hex_of_nat.induct)
  case (1 n)
  then show ?case
    by (subst hex_of_nat.simps) (auto simp: hex_digit_0 hex_of_nat_ne)
qed

lemma parse_quantity_format: "parse_quantity (JStr (quantity n)) = Some n"
proof -
  have "\<not> (1 < length (hex_of_nat (unat n)) \<and> hd (hex_of_nat (unat n)) = CHR ''0'')"
  proof (cases "unat n = 0")
    case True
    then show ?thesis by (subst hex_of_nat.simps) simp
  qed (use hex_of_nat_no_leading_zero in auto)
  then show ?thesis
    using hex_of_nat_digits hex_of_nat_ne unsigned_less[of n, where 'a = nat]
    by (auto simp: parse_quantity_def quantity_def strip_prefix_def hex_to_nat_of_nat)
qed

section \<open>Blocks\<close>

lemma read_block_number: "read_block C t (Some c) n = (Inr b, k) \<Longrightarrow> blk_number b = c"
  by (auto simp: read_block_def Let_def split: if_splits)

lemma finalized_with_depth_number:
  assumes "finalized_block C t (FinalizedWithDepth d) n = (Inr b, k)"
  shows "\<exists>fin i head j. read_block C t None n = (Inr fin, i) \<and> eth_block_number t i = (Inr head, j)
    \<and> d \<le> head \<and> blk_number b = min (blk_number fin) (head - d)"
proof -
  obtain fin i head j where r: "read_block C t None n = (Inr fin, i)"
    "eth_block_number t i = (Inr head, j)" "checked_sub head d = Some (head - d)" "d \<le> head"
    "(if blk_number fin \<le> head - d then read_ok fin else read_block C t (Some (head - d))) j = (Inr b, k)"
    using assms by (auto simp: finalized_block_def checked_sub_Some)
  then have "blk_number b = min (blk_number fin) (head - d)"
    using read_block_number[of C t "head - d" j b k] by (auto simp: min_def split: if_splits)
  with r show ?thesis by blast
qed

lemma burned_finalized_reads:
  assumes "burned_finalized C t exit who fin n = (Inr (amount, height), k)"
  obtains b i w i1 i2 where "finalized_block C t fin n = (Inr b, i)" "height = blk_number b" "amount = u256_be w"
    "eth_call_word C t exit (encode_call SEL_BURNED who) (CanonicalHash (blk_hash b)) i = (Inr w, i1)"
    "read_block_hash C t (blk_number b) i1 = (Inr (blk_hash b), i2)"
    "eth_call_word C t exit (encode_call SEL_BURNED who) (CanonicalHash (blk_hash b)) i2 = (Inr w, k)"
  using assms unfolding burned_finalized_def Let_def by (auto split: if_splits)

text \<open>
  C24. A burned total is returned only for a block that is both reported finalized and at
  least the configured depth below the reported head, only when two independent calls pinned
  to that block's hash returned the same word, and only when the header read again between
  them still has that hash. A head lower than the depth is an error.
\<close>

theorem burned_finalized_deep_and_stable:
  assumes "burned_finalized C t exit who (FinalizedWithDepth d) n = (Inr (amount, height), k)"
  shows "\<exists>fin i head j b i' w i1 i2.
    read_block C t None n = (Inr fin, i) \<and> eth_block_number t i = (Inr head, j)
    \<and> finalized_block C t (FinalizedWithDepth d) n = (Inr b, i')
    \<and> height = blk_number b \<and> height \<le> blk_number fin \<and> unat height + unat d \<le> unat head
    \<and> eth_call_word C t exit (encode_call SEL_BURNED who) (CanonicalHash (blk_hash b)) i' = (Inr w, i1)
    \<and> read_block_hash C t height i1 = (Inr (blk_hash b), i2)
    \<and> eth_call_word C t exit (encode_call SEL_BURNED who) (CanonicalHash (blk_hash b)) i2 = (Inr w, k)
    \<and> amount = u256_be w"
proof -
  obtain b i' w i1 i2 where r: "finalized_block C t (FinalizedWithDepth d) n = (Inr b, i')"
    "height = blk_number b" "amount = u256_be w"
    "eth_call_word C t exit (encode_call SEL_BURNED who) (CanonicalHash (blk_hash b)) i' = (Inr w, i1)"
    "read_block_hash C t (blk_number b) i1 = (Inr (blk_hash b), i2)"
    "eth_call_word C t exit (encode_call SEL_BURNED who) (CanonicalHash (blk_hash b)) i2 = (Inr w, k)"
    by (rule burned_finalized_reads[OF assms])
  obtain fin i head j where f: "read_block C t None n = (Inr fin, i)" "eth_block_number t i = (Inr head, j)"
    "d \<le> head" "blk_number b = min (blk_number fin) (head - d)"
    using finalized_with_depth_number[OF r(1)] by blast
  have "unat height + unat d \<le> unat head"
    using f(3,4) r(2) by (auto simp: min_def word_le_nat_alt unat_sub split: if_splits)
  with f r show ?thesis by (auto simp: min_def)
qed

text \<open>
  A consistent chain for the witnesses: its head is block 900, block 100 is finalized, and every
  word and hash decodes to the same bytes. A transport is steady when it always answers so.
\<close>

definition demo_codec :: codec where
  "demo_codec = \<lparr>hex_decode = (\<lambda>s. Some (replicate 32 5)), hex_encode_prefixed = (\<lambda>b. []),
     address_to_string = (\<lambda>b. [])\<rparr>"

definition demo_answer :: "string \<Rightarrow> Value \<Rightarrow> Value" where
  "demo_answer method params =
     (if method = ''eth_blockNumber'' then JStr (quantity 900)
      else if method = ''eth_getBlockByNumber''
      then JObj [(''number'', case params of JArr (JStr t # _) \<Rightarrow> if t = ''finalized'' then JStr (quantity 100) else JStr t
                             | _ \<Rightarrow> JNull),
                 (''hash'', JStr ''0x''), (''timestamp'', JStr (quantity 7))]
      else JStr ''0x'')"

definition steady :: "'s transport \<Rightarrow> bool" where
  "steady t \<longleftrightarrow> (\<forall>m p s. fst (t m p s) = Some (demo_answer m p))"

definition demo_host :: "nat transport" where
  "demo_host method params n = (Some (demo_answer method params), Suc n)"

lemma steady_host: "steady demo_host"
  by (simp add: steady_def demo_host_def)

lemma steady_rpc: "steady t \<Longrightarrow> \<exists>s'. t m p s = (Some (demo_answer m p), s')"
  by (metis steady_def prod.collapse)

lemma demo_decode: "decode_hex demo_codec s = Some (replicate 32 5)"
  by (simp add: decode_hex_def demo_codec_def)

lemma demo_b256: "parse_b256 demo_codec (JStr s) = Some (replicate 32 5)"
  by (simp add: parse_b256_def demo_decode)

lemma quantity_not_tag: "quantity n \<noteq> ''finalized''"
  by (simp add: quantity_def)

definition demo_block :: "u64 \<Rightarrow> BlockRef" where
  "demo_block n = \<lparr>blk_number = n, blk_hash = replicate 32 5, blk_timestamp = 7\<rparr>"

lemma steady_read_block:
  assumes "steady t"
  shows "\<exists>s'. read_block demo_codec t r s = (Inr (demo_block (case r of Some n \<Rightarrow> n | None \<Rightarrow> 100)), s')"
proof -
  let ?p = "JArr [JStr (case r of Some n \<Rightarrow> quantity n | None \<Rightarrow> ''finalized''), JBool False]"
  obtain s' where "t ''eth_getBlockByNumber'' ?p s = (Some (demo_answer ''eth_getBlockByNumber'' ?p), s')"
    using steady_rpc[OF assms] by blast
  then show ?thesis
    by (intro exI[of _ s']; cases r)
      (simp_all add: read_block_def Let_def demo_answer_def parse_quantity_format demo_b256 demo_block_def
        quantity_not_tag)
qed

lemma steady_block_number: "steady t \<Longrightarrow> \<exists>s'. eth_block_number t s = (Inr 900, s')"
  using steady_rpc[of t "''eth_blockNumber''" "JArr []" s]
  by (auto simp: eth_block_number_def demo_answer_def parse_quantity_format)

lemma steady_block_hash: "steady t \<Longrightarrow> \<exists>s'. read_block_hash demo_codec t n s = (Inr (replicate 32 5), s')"
  using steady_rpc[of t "''eth_getBlockByNumber''" "JArr [JStr (quantity n), JBool False]" s]
  by (auto simp: read_block_hash_def demo_answer_def parse_quantity_format demo_b256 quantity_not_tag)

lemma steady_call:
  assumes "steady t"
  shows "\<exists>s'. eth_call_word demo_codec t to data blk s = (Inr (replicate 32 5), s')"
proof -
  obtain p where p: "eth_call_bytes demo_codec t to data blk =
      read_bind (rpc t ''eth_call'' p) (\<lambda>resp. read_bind (read_opt (as_str resp)) (\<lambda>s. read_opt (decode_hex demo_codec s)))"
    by (auto simp: eth_call_bytes_def Let_def)
  obtain s' where "t ''eth_call'' p s = (Some (demo_answer ''eth_call'' p), s')"
    using steady_rpc[OF assms] by blast
  then show ?thesis
    by (intro exI[of _ s']) (simp add: eth_call_word_def p demo_answer_def demo_decode)
qed

lemma steady_finalized:
  assumes "steady t"
  shows "\<exists>s'. finalized_block demo_codec t (FinalizedWithDepth 800) s = (Inr (demo_block 100), s')"
    and "\<exists>s'. finalized_block demo_codec t (HeadMinus 0) s = (Inr (demo_block 900), s')"
proof -
  obtain s1 where "read_block demo_codec t None s = (Inr (demo_block 100), s1)"
    using steady_read_block[OF assms, of None s] by auto
  moreover obtain s2 where "eth_block_number t s1 = (Inr 900, s2)" using steady_block_number[OF assms] by blast
  ultimately show "\<exists>s'. finalized_block demo_codec t (FinalizedWithDepth 800) s = (Inr (demo_block 100), s')"
    by (intro exI[of _ s2]) (simp add: finalized_block_def checked_sub_def demo_block_def)
  obtain s1 where "eth_block_number t s = (Inr 900, s1)" using steady_block_number[OF assms] by blast
  moreover obtain s2 where "read_block demo_codec t (Some 900) s1 = (Inr (demo_block 900), s2)"
    using steady_read_block[OF assms, of "Some 900" s1] by auto
  ultimately show "\<exists>s'. finalized_block demo_codec t (HeadMinus 0) s = (Inr (demo_block 900), s')"
    by (intro exI[of _ s2]) (simp add: finalized_block_def sat_sub_def)
qed

lemma steady_burned:
  assumes "steady t"
  shows "\<exists>s'. burned_finalized demo_codec t exit who (FinalizedWithDepth 800) s = (Inr (u256_be (replicate 32 5), 100), s')"
proof -
  let ?call = "eth_call_word demo_codec t exit (encode_call SEL_BURNED who) (CanonicalHash (replicate 32 5))"
  obtain s1 where "finalized_block demo_codec t (FinalizedWithDepth 800) s = (Inr (demo_block 100), s1)"
    using steady_finalized(1)[OF assms] by blast
  moreover obtain s2 where "?call s1 = (Inr (replicate 32 5), s2)" using steady_call[OF assms] by blast
  moreover obtain s3 where "read_block_hash demo_codec t 100 s2 = (Inr (replicate 32 5), s3)"
    using steady_block_hash[OF assms] by blast
  moreover obtain s4 where "?call s3 = (Inr (replicate 32 5), s4)" using steady_call[OF assms] by blast
  ultimately show ?thesis
    by (intro exI[of _ s4]) (simp add: burned_finalized_def Let_def demo_block_def)
qed

theorem burned_finalized_deep_and_stable_witness:
  "\<exists>head j i. eth_block_number demo_host i = (Inr head, j) \<and> unat (100 :: u64) + unat (800 :: u64) \<le> unat head"
proof -
  obtain s' where "burned_finalized demo_codec demo_host [] [] (FinalizedWithDepth 800) 0
      = (Inr (u256_be (replicate 32 5), 100), s')"
    using steady_burned[OF steady_host] by blast
  from burned_finalized_deep_and_stable[OF this] show ?thesis by blast
qed

section \<open>The owner array\<close>

lemma u256_be_nat: "u256_be bs = of_nat (be_nat bs)"
  by (induction bs rule: rev_induct) (simp_all add: u256_be_def unsigned_ucast_eq of_nat_unat)

lemma unat_u256_be: "length bs \<le> 32 \<Longrightarrow> unat (u256_be bs) = be_nat bs"
proof -
  assume l: "length bs \<le> 32"
  have "be_nat bs < 256 ^ 32"
    using be_nat_lt[of bs] power_increasing[OF l, of "256 :: nat"] by simp
  then show ?thesis by (simp add: u256_be_nat unat_of_nat)
qed

text \<open>The ABI encoding of an \<open>address[]\<close>.\<close>

definition abi_address_array :: "bytes list \<Rightarrow> bytes" where
  "abi_address_array as =
     be_word 32 32 @ be_word 32 (length as) @ concat (map (\<lambda>a. replicate 12 0 @ a) as)"

lemma decode_addresses_encode:
  "\<forall>a \<in> set as. length a = 20 \<Longrightarrow>
   decode_addresses (concat (map (\<lambda>a. replicate 12 0 @ a) as) @ junk) (length as) = Some as"
  by (induction as) (auto simp: Let_def take_append)

lemma decode_addresses_sound:
  "decode_addresses raw n = Some out \<Longrightarrow> n * 32 \<le> length raw \<Longrightarrow>
   length out = n \<and> (\<forall>a \<in> set out. length a = 20)
   \<and> raw = concat (map (\<lambda>a. replicate 12 0 @ a) out) @ drop (n * 32) raw"
proof (induction raw n arbitrary: out rule: decode_addresses.induct)
  case (2 raw n)
  obtain rest where r: "decode_addresses (drop 32 raw) n = Some rest"
    "out = drop 12 (take 32 raw) # rest" "take 12 (take 32 raw) = replicate 12 0"
    using 2(2) by (auto simp: Let_def split: if_splits)
  have c: "\<not> take 12 (take 32 raw) \<noteq> replicate 12 0" and le: "n * 32 \<le> length (drop 32 raw)"
    using r(3) 2(3) by simp_all
  have ih: "length rest = n \<and> (\<forall>a \<in> set rest. length a = 20)
      \<and> drop 32 raw = concat (map (\<lambda>a. replicate 12 0 @ a) rest) @ drop (n * 32) (drop 32 raw)"
    by (rule 2(1)[OF refl c r(1) le])
  have "concat (map (\<lambda>a. replicate 12 0 @ a) out) @ drop (Suc n * 32) raw
      = take 12 (take 32 raw) @ drop 12 (take 32 raw) @ drop 32 raw"
    unfolding r(2,3) using ih by (simp add: add.commute)
  also have "\<dots> = raw"
    using append_take_drop_id[of 12 "take 32 raw"] append_take_drop_id[of 32 raw]
    by (simp only: append.assoc[symmetric])
  finally have e: "raw = concat (map (\<lambda>a. replicate 12 0 @ a) out) @ drop (Suc n * 32) raw" ..
  have "length out = Suc n" using ih r(2) by simp
  moreover have "\<forall>a \<in> set out. length a = 20" using ih 2(3) unfolding r(2) by auto
  ultimately show ?case using e by blast
qed simp

text \<open>
  The owner list of the Safe is decoded strictly: a return buffer decodes to a list of
  owners if and only if it begins with the canonical ABI encoding of that list, the list has
  at most 64 entries and every entry is a 20-byte address.
\<close>

theorem decode_address_array_exact:
  "decode_address_array raw = Some out \<longleftrightarrow>
   length out \<le> 64 \<and> list_all (\<lambda>a. length a = 20) out \<and> (\<exists>junk. raw = abi_address_array out @ junk)"
proof
  assume d: "decode_address_array raw = Some out"
  define n where "n = unat (u256_be (take 32 (drop 32 raw)))"
  have g: "64 \<le> length raw" "u256_be (take 32 raw) = 32" "n \<le> 64" "64 + n * 32 \<le> length raw"
    "decode_addresses (drop 64 raw) n = Some out"
    using d by (auto simp: decode_address_array_def Let_def n_def MAX_SAFE_OWNERS_def split: if_splits)
  have s: "length out = n \<and> (\<forall>a \<in> set out. length a = 20)
      \<and> drop 64 raw = concat (map (\<lambda>a. replicate 12 0 @ a) out) @ drop (n * 32) (drop 64 raw)"
    by (rule decode_addresses_sound[OF g(5)]) (use g(4) in simp)
  have "be_nat (take 32 raw) = 32" "be_nat (take 32 (drop 32 raw)) = n"
    using unat_u256_be[of "take 32 raw"] unat_u256_be[of "take 32 (drop 32 raw)"] g(2)
    by (auto simp: n_def)
  then have h: "take 32 raw = be_word 32 32" "take 32 (drop 32 raw) = be_word 32 n"
    using be_word_be_nat[of "take 32 raw"] be_word_be_nat[of "take 32 (drop 32 raw)"] g(1) by auto
  have "abi_address_array out @ drop (n * 32) (drop 64 raw)
      = take 32 raw @ take 32 (drop 32 raw) @ drop 64 raw"
    by (simp only: abi_address_array_def append.assoc h conjunct1[OF s] conjunct2[OF conjunct2[OF s], symmetric])
  also have "\<dots> = raw"
    using append_take_drop_id[of 32 raw] append_take_drop_id[of 32 "drop 32 raw"] by simp
  finally have "\<exists>junk. raw = abi_address_array out @ junk" by metis
  moreover have "length out \<le> 64" "list_all (\<lambda>a. length a = 20) out"
    using conjunct1[OF s] conjunct1[OF conjunct2[OF s]] g(3) by (simp_all add: list_all_iff)
  ultimately show "length out \<le> 64 \<and> list_all (\<lambda>a. length a = 20) out
      \<and> (\<exists>junk. raw = abi_address_array out @ junk)"
    by blast
next
  assume a: "length out \<le> 64 \<and> list_all (\<lambda>a. length a = 20) out \<and> (\<exists>junk. raw = abi_address_array out @ junk)"
  then obtain junk where raw: "raw = be_word 32 32 @ be_word 32 (length out)
      @ concat (map (\<lambda>a. replicate 12 0 @ a) out) @ junk"
    by (auto simp: abi_address_array_def)
  have l: "\<forall>a \<in> set out. length a = 20" "length out \<le> 64" using a by (auto simp: list_all_iff)
  have c: "length (concat (map (\<lambda>a. replicate 12 (0::byte) @ a) out)) = length out * 32"
    using l(1) by (induction out) auto
  have "unat (u256_be (be_word 32 k)) = k" if "k \<le> 64" for k
    using that by (simp add: unat_u256_be be_nat_be_word)
  then have u: "u256_be (be_word 32 32) = 32" "unat (u256_be (be_word 32 (length out))) = length out"
    using l(2) by (auto simp: word_unat_eq_iff)
  show "decode_address_array raw = Some out"
    using l c u decode_addresses_encode[OF l(1), of junk]
    by (simp add: decode_address_array_def raw MAX_SAFE_OWNERS_def Let_def)
qed

end
