(* ===== verification/Transport.thy ===== *)
theory Transport
  imports Chain
begin

text \<open>
  \<open>crates/pontifex-bridge/src/transport.rs\<close>: the JSON-RPC envelope over one endpoint, and the
  sticky failover over several.

  The HTTP client is a parameter: from a URL, a body and the state of the network it gives no
  answer, or whether the status was a success together with the parsed body if there is one.
  An endpoint keeps its request counter in its own slot of a list, so several endpoints share
  one network state.
\<close>

type_synonym 'w http = "string \<Rightarrow> Value \<Rightarrow> 'w \<Rightarrow> (bool \<times> Value option) option \<times> 'w"

type_synonym 'w net = "u64 list \<times> 'w"

definition build_rpc_body :: "u64 \<Rightarrow> string \<Rightarrow> Value \<Rightarrow> Value" where
  "build_rpc_body rid method params =
     JObj [(''jsonrpc'', JStr ''2.0''), (''id'', JNum (uint rid)), (''method'', JStr method),
           (''params'', params)]"

definition parse_rpc_result :: "Value \<Rightarrow> Value option" where
  "parse_rpc_result resp =
     (case json_get resp ''error'' of
        Some err \<Rightarrow> if err \<noteq> JNull then None else json_get resp ''result''
      | None \<Rightarrow> json_get resp ''result'')"

definition proxy_rpc :: "'w http \<Rightarrow> string \<Rightarrow> nat \<Rightarrow> 'w net transport" where
  "proxy_rpc http url slot method params st =
     (let (ids, w) = st;
          body = build_rpc_body (ids ! slot) method params;
          ids' = ids[slot := ids ! slot + 1]
      in case http url body w of
           (None, w') \<Rightarrow> (None, (ids', w'))
         | (Some (ok, reply), w') \<Rightarrow>
             (if \<not> ok then None else (case reply of None \<Rightarrow> None | Some v \<Rightarrow> parse_rpc_result v), (ids', w')))"

section \<open>Failover\<close>

fun failover_try ::
    "'s transport list \<Rightarrow> string \<Rightarrow> Value \<Rightarrow> nat \<Rightarrow> nat \<Rightarrow> nat list \<Rightarrow> 's \<Rightarrow> Value option \<times> nat \<times> 's" where
  "failover_try endpoints method params start sticky [] s = (None, sticky, s)"
| "failover_try endpoints method params start sticky (off # offs) s =
     (let idx = (start + off) mod length endpoints
      in case (endpoints ! idx) method params s of
           (Some v, s') \<Rightarrow> (Some v, if off \<noteq> 0 then idx else sticky, s')
         | (None, s') \<Rightarrow> failover_try endpoints method params start sticky offs s')"

definition failover_rpc :: "'s transport list \<Rightarrow> (nat \<times> 's) transport" where
  "failover_rpc endpoints method params st =
     (let (sticky, s) = st; n = length endpoints;
          (v, sticky', s') = failover_try endpoints method params (sticky mod n) sticky [0..<n] s
      in (v, (sticky', s')))"

definition from_endpoints :: "'s transport list \<Rightarrow> 's transport list option" where
  "from_endpoints endpoints = (if endpoints = [] then None else Some endpoints)"

definition failover_new :: "'w http \<Rightarrow> string list \<Rightarrow> 'w net transport list option" where
  "failover_new http urls =
     from_endpoints (map (\<lambda>i. proxy_rpc http (urls ! i) i) [0..<length urls])"

section \<open>Theorems\<close>

text \<open>Whatever its state, an endpoint of this kind answers the question.\<close>

definition always_answers :: "'s transport \<Rightarrow> string \<Rightarrow> Value \<Rightarrow> bool" where
  "always_answers t method params \<longleftrightarrow> (\<forall>s. fst (t method params s) \<noteq> None)"

lemma failover_try_answers:
  "off \<in> set offs \<Longrightarrow> always_answers (eps ! ((start + off) mod length eps)) m p \<Longrightarrow>
   fst (failover_try eps m p start sticky offs s) \<noteq> None"
proof (induction eps m p start sticky offs s rule: failover_try.induct)
  case (2 eps m p start sticky o' offs s)
  show ?case
  proof (cases "(eps ! ((start + o') mod length eps)) m p s")
    case (Pair v s')
    show ?thesis
    proof (cases v)
      case None
      have "fst ((eps ! ((start + off) mod length eps)) m p s) \<noteq> None"
        using 2(3) by (simp add: always_answers_def)
      then have "off \<noteq> o'" using Pair None by auto
      then have "off \<in> set offs" using 2(2) by simp
      then show ?thesis using 2(1)[OF refl _ None] 2(3) Pair None by (simp add: Let_def)
    qed (simp add: Pair Let_def)
  qed
qed simp

lemma offset_exists: "i < n \<Longrightarrow> \<exists>off < n. (start + off) mod n = (i :: nat)"
proof -
  assume i: "i < n"
  let ?off = "(i + (n - start mod n)) mod n"
  have "(start + ?off) mod n = (start mod n + (i + (n - start mod n))) mod n"
    by (simp add: mod_add_left_eq mod_add_right_eq)
  also have "start mod n + (i + (n - start mod n)) = i + n"
    using i mod_less_divisor[of n start] by linarith
  also have "(i + n) mod n = i" using i by simp
  finally show ?thesis using i by (intro exI[of _ ?off]) simp
qed

text \<open>
  Failover is live: if any configured endpoint answers a question whatever its state, the
  failover answers it, wherever it is currently sticking.
\<close>

theorem failover_live:
  assumes "i < length eps" "always_answers (eps ! i) method params"
  shows "\<exists>v st'. failover_rpc eps method params st = (Some v, st')"
proof -
  obtain sticky s where st: "st = (sticky, s)" by (cases st)
  let ?n = "length eps"
  obtain off where "off < ?n" "(sticky mod ?n + off) mod ?n = i"
    using offset_exists[OF assms(1)] by blast
  then have "fst (failover_try eps method params (sticky mod ?n) sticky [0..<?n] s) \<noteq> None"
    using failover_try_answers[of off "[0..<?n]" eps "sticky mod ?n"] assms(2) by auto
  then obtain v a b where "failover_try eps method params (sticky mod ?n) sticky [0..<?n] s = (Some v, a, b)"
    by (metis option.exhaust prod.collapse)
  then show ?thesis by (simp add: failover_rpc_def st)
qed

theorem failover_live_witness:
  "\<exists>v st'. failover_rpc [\<lambda>m p s. (None, Suc s), demo_host] ''eth_call'' JNull (0, 0) = (Some v, st')"
  using failover_live[of 1 "[\<lambda>m p s. (None, Suc s), demo_host]" "''eth_call''" JNull "(0, 0)"]
  by (simp add: always_answers_def demo_host_def)

lemma failover_try_sticky:
  "failover_try eps m p start sticky offs s = (Some v, sticky', s') \<Longrightarrow>
   \<exists>off \<in> set offs. \<exists>s0. (eps ! ((start + off) mod length eps)) m p s0 = (Some v, s')
     \<and> sticky' = (if off \<noteq> 0 then (start + off) mod length eps else sticky)"
proof (induction eps m p start sticky offs s rule: failover_try.induct)
  case (2 eps m p start sticky off offs s)
  show ?case
  proof (cases "(eps ! ((start + off) mod length eps)) m p s")
    case (Pair r s1)
    show ?thesis
    proof (cases r)
      case None
      have "failover_try eps m p start sticky offs s1 = (Some v, sticky', s')"
        using 2(2) Pair None by (simp add: Let_def)
      from 2(1)[OF refl Pair[symmetric] None this] show ?thesis by auto
    next
      case (Some a)
      then show ?thesis using 2(2) Pair by (intro bexI[of _ off]) (auto simp: Let_def)
    qed
  qed
qed simp

text \<open>
  Failover is honest and sticky: an answer is the answer of one of the configured
  endpoints, and the next question starts at that endpoint.
\<close>

theorem failover_sticky:
  assumes "failover_rpc eps method params (sticky, s) = (Some v, (sticky', s'))" "eps \<noteq> []"
  shows "sticky' mod length eps < length eps
    \<and> (\<exists>s0. (eps ! (sticky' mod length eps)) method params s0 = (Some v, s'))"
proof -
  let ?n = "length eps"
  have "failover_try eps method params (sticky mod ?n) sticky [0..<?n] s = (Some v, sticky', s')"
    using assms(1) by (simp add: failover_rpc_def Let_def split: prod.splits)
  from failover_try_sticky[OF this] obtain off s0 where
    "(eps ! ((sticky mod ?n + off) mod ?n)) method params s0 = (Some v, s')"
    "sticky' = (if off \<noteq> 0 then (sticky mod ?n + off) mod ?n else sticky)" by blast
  then show ?thesis using assms(2) by (auto split: if_splits)
qed

theorem failover_sticky_witness:
  "\<exists>s0. ([\<lambda>m p s. (None, Suc s), demo_host] ! 1) ''eth_call'' JNull s0 = (Some (JStr ''0x''), 2)"
proof -
  have "failover_rpc [\<lambda>m p s. (None, Suc s), demo_host] ''eth_call'' JNull (0, 0) = (Some (JStr ''0x''), (1, 2))"
    by (simp add: failover_rpc_def demo_host_def demo_answer_def upt_rec)
  from failover_sticky[OF this] show ?thesis by simp
qed

end
