(* ===== verification/Signatures.thy ===== *)
theory Signatures
  imports Prelude
begin

text \<open>
  \<open>crates/keyex/src/sig.rs\<close>: recovery of a signer and recoverable signing.

  The curve arithmetic belongs to the \<open>k256\<close> package and the hash to \<open>sha3\<close>; both are the
  fields of the record \<open>ecdsa\<close>, an argument of every definition here. What the module adds on
  top, the low-s rule, the canonical recovery byte and the self-check, is modelled.
\<close>

type_synonym address = bytes

record ('g, 'v, 'k) ecdsa =
  sig_from_slice :: "bytes \<Rightarrow> 'g option"
  sig_high_s :: "'g \<Rightarrow> bool"
  sig_to_bytes :: "'g \<Rightarrow> bytes"
  recover_from_prehash :: "bytes \<Rightarrow> 'g \<Rightarrow> u8 \<Rightarrow> 'v option"
  sign_prehash_recoverable :: "'k \<Rightarrow> bytes \<Rightarrow> ('g \<times> u8) option"
  verifying_key :: "'k \<Rightarrow> 'v"
  encoded_point :: "'v \<Rightarrow> bytes"
  keccak :: "bytes \<Rightarrow> bytes"

datatype SigError =
    BadSignatureBytes
  | HighS
  | NonCanonicalV u8
  | RecoveryFailed
  | SigningFailed
  | EmittedHighS
  | SelfCheckRecover SigError
  | SelfCheckMismatch address address

definition address_from_key :: "('g, 'v, 'k) ecdsa \<Rightarrow> 'v \<Rightarrow> address" where
  "address_from_key E vk = drop 12 (keccak E (drop 1 (encoded_point E vk)))"

definition recovery_id :: "u8 \<Rightarrow> u8 option" where
  "recovery_id v = (if v = 27 then Some 0 else if v = 28 then Some 1 else None)"

definition recover :: "('g, 'v, 'k) ecdsa \<Rightarrow> bytes \<Rightarrow> bytes \<Rightarrow> (SigError, address) res" where
  "recover E digest sig =
     (case sig_from_slice E (take 64 sig) of
        None \<Rightarrow> Inl BadSignatureBytes
      | Some signature \<Rightarrow>
          if sig_high_s E signature then Inl HighS
          else (case recovery_id (sig ! 64) of
                  None \<Rightarrow> Inl (NonCanonicalV (sig ! 64))
                | Some rec \<Rightarrow>
                    (case recover_from_prehash E digest signature rec of
                       None \<Rightarrow> Inl RecoveryFailed
                     | Some vk \<Rightarrow> Inr (address_from_key E vk))))"

definition sign_recoverable :: "('g, 'v, 'k) ecdsa \<Rightarrow> 'k \<Rightarrow> bytes \<Rightarrow> (SigError, bytes) res" where
  "sign_recoverable E sk digest =
     (case sign_prehash_recoverable E sk digest of
        None \<Rightarrow> Inl SigningFailed
      | Some (sig, rec) \<Rightarrow>
          if sig_high_s E sig then Inl EmittedHighS
          else let out = sig_to_bytes E sig @ [27 + rec];
                   expect = address_from_key E (verifying_key E sk)
               in case recover E digest out of
                    Inl e \<Rightarrow> Inl (SelfCheckRecover e)
                  | Inr got \<Rightarrow> if got \<noteq> expect then Inl (SelfCheckMismatch got expect) else Inr out)"

lemma recover_Inr:
  "recover E digest sig = Inr a \<longleftrightarrow>
   (\<exists>g rec vk. sig_from_slice E (take 64 sig) = Some g \<and> \<not> sig_high_s E g
      \<and> recovery_id (sig ! 64) = Some rec \<and> recover_from_prehash E digest g rec = Some vk
      \<and> a = address_from_key E vk)"
  by (auto simp: recover_def split: option.splits)

lemma recovery_id_Some: "recovery_id v = Some r \<longleftrightarrow> v = 27 \<and> r = 0 \<or> v = 28 \<and> r = 1"
  by (auto simp: recovery_id_def)

text \<open>
  C22. A signature that leaves the signer always recovers, under the rules the contract
  applies, to the signer's own address, and its recovery byte is 27 or 28: whatever the curve
  library returns, a high-s, misattributed or non-canonical signature is an error instead.
\<close>

theorem sign_recoverable_self_checked:
  assumes "sign_recoverable E sk digest = Inr out"
  shows "recover E digest out = Inr (address_from_key E (verifying_key E sk))
    \<and> out ! 64 \<in> {27, 28}"
proof -
  have r: "recover E digest out = Inr (address_from_key E (verifying_key E sk))"
    using assms by (auto simp: sign_recoverable_def Let_def split: option.splits if_splits sum.splits)
  then have "recovery_id (out ! 64) \<noteq> None" by (auto simp: recover_Inr)
  with r show ?thesis by (auto simp: recovery_id_def split: if_splits)
qed

text \<open>A curve in which a signature names its signer, for the witnesses below.\<close>

definition toy_curve :: "(bytes, bytes, bytes) ecdsa" where
  "toy_curve = \<lparr>
     sig_from_slice = (\<lambda>b. if length b = 64 then Some b else None),
     sig_high_s = (\<lambda>g. False),
     sig_to_bytes = id,
     recover_from_prehash = (\<lambda>d g r. Some (take 20 g)),
     sign_prehash_recoverable = (\<lambda>k d. Some (k @ replicate 44 0, 0)),
     verifying_key = id,
     encoded_point = (\<lambda>v. 4 # v),
     keccak = (\<lambda>b. replicate 12 0 @ b)\<rparr>"

definition toy_key :: "u8 \<Rightarrow> bytes" where
  "toy_key n = replicate 20 n"

definition toy_sig :: "u8 \<Rightarrow> bytes" where
  "toy_sig n = replicate 20 n @ replicate 44 0 @ [27]"

lemma toy_sign: "sign_recoverable toy_curve (toy_key 7) [1] = Inr (toy_sig 7)"
  by code_simp

lemma toy_recover: "recover toy_curve d (toy_sig n) = Inr (toy_key n)"
  by (simp add: recover_def toy_curve_def toy_sig_def toy_key_def recovery_id_def
      address_from_key_def nth_append)

theorem sign_recoverable_self_checked_witness:
  "recover toy_curve [1] (toy_sig 7) = Inr (address_from_key toy_curve (verifying_key toy_curve (toy_key 7)))
   \<and> toy_sig 7 ! 64 \<in> {27, 28}"
  using sign_recoverable_self_checked[OF toy_sign] .

end
