(* ===== verification/Runs.thy ===== *)
theory Runs
  imports Prelude
begin

text \<open>
  Runs of a labelled step relation, and the contract of an invariant: the components that are
  state machines interpret it once per invariant and take from it that the invariant holds
  along every run.
\<close>

inductive runs :: "('s \<Rightarrow> 'e \<Rightarrow> 's \<Rightarrow> bool) \<Rightarrow> 's \<Rightarrow> 'e list \<Rightarrow> 's \<Rightarrow> bool"
  for step where
  runs_Nil: "runs step s [] s"
| runs_Cons: "step s e s1 \<Longrightarrow> runs step s1 es s' \<Longrightarrow> runs step s (e # es) s'"

inductive_simps runs_Nil_iff [simp]: "runs step s [] s'"
inductive_simps runs_Cons_iff: "runs step s (e # es) s'"

lemma runs_append:
  "runs step s (es @ fs) s' \<longleftrightarrow> (\<exists>s1. runs step s es s1 \<and> runs step s1 fs s')"
  by (induction es arbitrary: s) (auto simp: runs_Cons_iff)

lemma runs_snoc: "runs step s (es @ [e]) s' \<longleftrightarrow> (\<exists>s1. runs step s es s1 \<and> step s1 e s')"
  by (simp add: runs_append runs_Cons_iff)

locale state_machine =
  fixes step :: "'s \<Rightarrow> 'e \<Rightarrow> 's \<Rightarrow> bool"
    and inv :: "'s \<Rightarrow> bool"
  assumes inv_step: "inv s \<Longrightarrow> step s e s' \<Longrightarrow> inv s'"
begin

lemma inv_runs: "runs step s es s' \<Longrightarrow> inv s \<Longrightarrow> inv s'"
  by (induction rule: runs.induct) (auto intro: inv_step)

text \<open>Every event of a run happens in a state that satisfies the invariant.\<close>

lemma inv_at_event:
  assumes "runs step s es s'" "inv s" "e \<in> set es"
  shows "\<exists>s1 s2. inv s1 \<and> step s1 e s2 \<and> inv s2"
  using assms
proof (induction rule: runs.induct)
  case (runs_Cons s e' s1 es s')
  have "inv s1" using runs_Cons inv_step by blast
  with runs_Cons show ?case by (cases "e = e'") auto
qed simp

end

text \<open>
  A state that collects items: a step adds only items its event justifies. Then every item in the
  state at the end of a run was there at the start or is justified by an event of the run.
\<close>

locale collector =
  fixes step :: "'s \<Rightarrow> 'e \<Rightarrow> 's \<Rightarrow> bool"
    and items :: "'s \<Rightarrow> 'a set"
    and justifies :: "'e \<Rightarrow> 'a \<Rightarrow> bool"
  assumes step_items: "step s e s' \<Longrightarrow> a \<in> items s' \<Longrightarrow> a \<in> items s \<or> justifies e a"
begin

lemma item_origin:
  assumes "runs step s es s'" "a \<in> items s'"
  shows "a \<in> items s \<or> (\<exists>e \<in> set es. justifies e a)"
  using assms
proof (induction rule: runs.induct)
  case (runs_Cons s e s1 es s')
  then show ?case using step_items[OF runs_Cons(1)] by auto
qed simp

end

end
