(* ===== verification/Bridge.thy ===== *)
theory Bridge
  imports Transport Signatures Runs
begin

text \<open>
  The bridge image: \<open>crates/keyex/src/claim.rs\<close> (the claim and its preconditions),
  \<open>crates/pontifex-bridge/src/claimflow.rs\<close> (the money path), \<open>state.rs\<close> (the running state),
  \<open>config.rs\<close> (what is baked and what the host supplies) and \<open>handler.rs\<close> (dispatch).

  Parameters: the curve \<open>E\<close>, the EIP-712 hash of a claim, the codec of wire strings, the HTTP
  client and the attestation device. Replies are values; their JSON form is not modelled.
\<close>

section \<open>Claims\<close>

record ClaimRequest =
  clm_recipient :: address
  clm_cumulative_burned :: u256
  clm_deadline :: u256
  clm_chain_id :: u64
  clm_entry :: address

datatype ClaimError =
    NotReady
  | RecipientForbidden
  | NothingBurned
  | ClaimReadMismatch
  | ClaimDecreasingBurned
  | RpcError
  | ClockSkew

definition claim_error_of :: "ChainError \<Rightarrow> ClaimError" where
  "claim_error_of e =
     (case e of ReadMismatch \<Rightarrow> ClaimReadMismatch | DecreasingBurned \<Rightarrow> ClaimDecreasingBurned
      | Rpc \<Rightarrow> RpcError)"

definition CLAIM_TTL_SECS :: u64 where "CLAIM_TTL_SECS = 3600"
definition MAX_CLOCK_SKEW_SECS :: u64 where "MAX_CLOCK_SKEW_SECS = 600"

text \<open>The domain: name, version, chain and verifying contract; and the struct that is hashed.\<close>

type_synonym claim_hash = "string \<times> string \<times> u256 \<times> address \<Rightarrow> address \<times> u256 \<times> u256 \<Rightarrow> bytes"

definition claim_domain :: "u64 \<Rightarrow> address \<Rightarrow> string \<times> string \<times> u256 \<times> address" where
  "claim_domain chain_id entry = (''Pontifex'', ''1'', ucast chain_id, entry)"

definition claim_digest :: "claim_hash \<Rightarrow> ClaimRequest \<Rightarrow> bytes" where
  "claim_digest H req =
     H (claim_domain (clm_chain_id req) (clm_entry req))
       (clm_recipient req, clm_cumulative_burned req, clm_deadline req)"

definition sign_claim_request ::
    "('g, 'v, 'k) ecdsa \<Rightarrow> claim_hash \<Rightarrow> 'k \<Rightarrow> ClaimRequest \<Rightarrow> (SigError, bytes) res" where
  "sign_claim_request E H key req = sign_recoverable E key (claim_digest H req)"

definition zero_address :: address where
  "zero_address = replicate 20 0"

definition check_claimable :: "address \<Rightarrow> u256 \<Rightarrow> address list \<Rightarrow> (ClaimError, unit) res" where
  "check_claimable recipient cumulative_burned forbidden =
     (if recipient = zero_address \<or> recipient \<in> set forbidden then Inl RecipientForbidden
      else if cumulative_burned = 0 then Inl NothingBurned
      else Inr ())"

definition compute_deadline :: "u64 \<Rightarrow> u64 \<Rightarrow> (ClaimError, u64) res" where
  "compute_deadline enclave_now rh_block_ts =
     (if MAX_CLOCK_SKEW_SECS < abs_diff enclave_now rh_block_ts then Inl ClockSkew
      else Inr (min enclave_now rh_block_ts + CLAIM_TTL_SECS))"

section \<open>Wire forms\<close>

record wire =
  wire_hex :: codec
  u256_to_string :: "u256 \<Rightarrow> string"
  u256_parse :: "string \<Rightarrow> u256 option"
  parse_address :: "string \<Rightarrow> address option"

record ClaimGrant =
  grant_signature :: string
  grant_cumulative_burned :: string
  grant_deadline :: u64
  grant_signer :: string
  grant_igra_block :: u64

datatype SignClaimResponse = GrantOk ClaimGrant | GrantErr ClaimError

definition ClaimGrant_new :: "wire \<Rightarrow> bytes \<Rightarrow> u256 \<Rightarrow> u64 \<Rightarrow> address \<Rightarrow> u64 \<Rightarrow> ClaimGrant" where
  "ClaimGrant_new A signature cumulative_burned deadline signer igra_block =
     \<lparr>grant_signature = hex_encode_prefixed (wire_hex A) signature,
      grant_cumulative_burned = u256_to_string A cumulative_burned,
      grant_deadline = deadline,
      grant_signer = address_to_string (wire_hex A) signer,
      grant_igra_block = igra_block\<rparr>"

section \<open>The money path\<close>

record ClaimInputs =
  inp_recipient :: address
  inp_high_water :: u256
  inp_enclave_now :: u64
  inp_forbidden :: "address list"
  inp_exit :: address
  inp_entry :: address
  inp_chain_id :: u64
  inp_igra_finality :: Finality

definition build_grant ::
    "('g, 'v, 'k) ecdsa \<Rightarrow> claim_hash \<Rightarrow> wire \<Rightarrow> 'k \<Rightarrow> 's transport \<Rightarrow> 's transport \<Rightarrow> ClaimInputs
     \<Rightarrow> 's \<Rightarrow> SignClaimResponse \<times> 's" where
  "build_grant E H A key igra rh inp s =
     (case burned_finalized (wire_hex A) igra (inp_exit inp) (inp_recipient inp) (inp_igra_finality inp) s of
        (Inl e, s1) \<Rightarrow> (GrantErr (claim_error_of e), s1)
      | (Inr (burned, igra_block), s1) \<Rightarrow>
     (case ensure_not_decreasing burned (inp_high_water inp) of
        Inl e \<Rightarrow> (GrantErr (claim_error_of e), s1)
      | Inr _ \<Rightarrow>
     (case check_claimable (inp_recipient inp) burned (inp_forbidden inp) of
        Inl e \<Rightarrow> (GrantErr e, s1)
      | Inr _ \<Rightarrow>
     (case finalized_block (wire_hex A) rh (HeadMinus 0) s1 of
        (Inl e, s2) \<Rightarrow> (GrantErr (claim_error_of e), s2)
      | (Inr rh_block, s2) \<Rightarrow>
     (case compute_deadline (inp_enclave_now inp) (blk_timestamp rh_block) of
        Inl e \<Rightarrow> (GrantErr e, s2)
      | Inr deadline \<Rightarrow>
     (let req = \<lparr>clm_recipient = inp_recipient inp, clm_cumulative_burned = burned,
                 clm_deadline = ucast deadline, clm_chain_id = inp_chain_id inp,
                 clm_entry = inp_entry inp\<rparr>
      in case sign_claim_request E H key req of
           Inl _ \<Rightarrow> (GrantErr NotReady, s2)
         | Inr signature \<Rightarrow>
             (GrantOk (ClaimGrant_new A signature burned deadline
                (address_from_key E (verifying_key E key)) igra_block), s2)))))))"

section \<open>Configuration\<close>

definition IGRA_FINALITY :: Finality where
  "IGRA_FINALITY = FinalizedWithDepth 800"

record BakedIdentity =
  baked_exit :: address
  baked_kskd :: address
  baked_entry :: address
  baked_chain_id :: u64

record BridgeConfig =
  cfg_exit :: address
  cfg_kskd :: address
  cfg_entry :: address
  cfg_chain_id :: u64
  cfg_rh_rpcs :: "string list"
  cfg_oracle_peers :: "string list"

definition from_parts :: "BakedIdentity \<Rightarrow> string list \<Rightarrow> string list \<Rightarrow> BridgeConfig" where
  "from_parts baked rh_rpcs oracle_peers =
     \<lparr>cfg_exit = baked_exit baked, cfg_kskd = baked_kskd baked, cfg_entry = baked_entry baked,
      cfg_chain_id = baked_chain_id baked, cfg_rh_rpcs = rh_rpcs, cfg_oracle_peers = oracle_peers\<rparr>"

definition forbidden :: "BridgeConfig \<Rightarrow> address list" where
  "forbidden cfg = [cfg_exit cfg, cfg_kskd cfg]"

section \<open>The running state\<close>

datatype BootState = Ready | Fetching | WaitingRegistration

record 'k BridgeState =
  bs_boot :: BootState
  bs_key :: "'k option"
  bs_signer :: "address option"
  bs_pcr0 :: bytes
  bs_version :: u64
  bs_config :: "BridgeConfig option"
  bs_last_signed :: "address \<rightharpoonup> u256"

definition BridgeState_new :: "bytes \<Rightarrow> u64 \<Rightarrow> 'k BridgeState" where
  "BridgeState_new pcr0 ver =
     \<lparr>bs_boot = Fetching, bs_key = None, bs_signer = None, bs_pcr0 = pcr0, bs_version = ver,
      bs_config = None, bs_last_signed = Map.empty\<rparr>"

definition install_key :: "'k BridgeState \<Rightarrow> 'k \<Rightarrow> address \<Rightarrow> 'k BridgeState" where
  "install_key st key signer =
     (if bs_key st \<noteq> None then st
      else st\<lparr>bs_key := Some key, bs_signer := Some signer, bs_boot := Ready\<rparr>)"

definition set_config :: "'k BridgeState \<Rightarrow> BridgeConfig \<Rightarrow> 'k BridgeState" where
  "set_config st config = st\<lparr>bs_config := Some config\<rparr>"

definition signer_pubkey :: "('g, 'v, 'k) ecdsa \<Rightarrow> 'k BridgeState \<Rightarrow> bytes option" where
  "signer_pubkey E st = map_option (\<lambda>k. encoded_point E (verifying_key E k)) (bs_key st)"

definition high_water :: "'k BridgeState \<Rightarrow> address \<Rightarrow> u256" where
  "high_water st recipient = (case bs_last_signed st recipient of Some v \<Rightarrow> v | None \<Rightarrow> 0)"

definition record_signed :: "'k BridgeState \<Rightarrow> address \<Rightarrow> u256 \<Rightarrow> 'k BridgeState" where
  "record_signed st recipient cumulative_burned =
     (let e = high_water st recipient
      in st\<lparr>bs_last_signed := (bs_last_signed st)
            (recipient \<mapsto> if e < cumulative_burned then cumulative_burned else e)\<rparr>)"

section \<open>Dispatch\<close>

datatype BridgeRequest =
    Configure string "string list" "string list"
  | SignClaim string
  | GetAttestation "string option"
  | Health
  | Readiness

record BridgeHealth =
  health_state :: BootState
  health_signer :: string
  health_version :: u64
  health_pcr0 :: string
  health_registered :: bool
  health_igra_finalized :: u64
  health_rh_finalized :: u64

datatype BridgeReply =
    Ack bool
  | ClaimReply SignClaimResponse
  | AttestationReply string string string
  | WireError string
  | HealthReply BridgeHealth
  | ReadinessReply bool

record HandlerCtx =
  ctx_igra_url :: string
  ctx_baked :: BakedIdentity
  ctx_enclave_now :: u64

text \<open>
  One request has its own transports: a proxy to the burn chain with one request counter, and
  the failover over the configured endpoints. Both send through the same network.
\<close>

type_synonym 'w req_state = "u64 list \<times> (nat \<times> u64 list) \<times> 'w"

definition igra_side :: "'w net transport \<Rightarrow> 'w req_state transport" where
  "igra_side t method params s =
     (let (a, b, w) = s; (v, (a', w')) = t method params (a, w) in (v, (a', b, w')))"

definition rh_side :: "(nat \<times> 'w net) transport \<Rightarrow> 'w req_state transport" where
  "rh_side t method params s =
     (let (a, (sticky, ids), w) = s; (v, (sticky', (ids', w'))) = t method params (sticky, (ids, w))
      in (v, (a, (sticky', ids'), w')))"

definition req_start :: "string list \<Rightarrow> 'w \<Rightarrow> 'w req_state" where
  "req_start urls w = ([1], (0, replicate (length urls) 1), w)"

definition world_of :: "'w req_state \<Rightarrow> 'w" where
  "world_of s = snd (snd s)"

definition configure ::
    "wire \<Rightarrow> 'k BridgeState \<Rightarrow> BakedIdentity \<Rightarrow> string \<Rightarrow> string list \<Rightarrow> string list \<Rightarrow> bool \<times> 'k BridgeState" where
  "configure A st baked entry rh_rpcs oracle_peers =
     (if bs_key st \<noteq> None then (False, st)
      else if parse_address A entry \<noteq> Some (baked_entry baked) then (False, st)
      else if rh_rpcs = [] \<or> list_ex (\<lambda>u. strip_prefix ''https://'' u = None) rh_rpcs then (False, st)
      else (True, set_config st (from_parts baked rh_rpcs oracle_peers)))"

definition sign_claim ::
    "('g, 'v, 'k) ecdsa \<Rightarrow> claim_hash \<Rightarrow> wire \<Rightarrow> 'w http \<Rightarrow> HandlerCtx \<Rightarrow> string
     \<Rightarrow> 'k BridgeState \<Rightarrow> 'w \<Rightarrow> SignClaimResponse \<times> 'k BridgeState \<times> 'w" where
  "sign_claim E H A http ctx recipient_str st w =
     (case parse_address A recipient_str of
        None \<Rightarrow> (GrantErr RecipientForbidden, st, w)
      | Some recipient \<Rightarrow>
     (case bs_key st of
        None \<Rightarrow> (GrantErr NotReady, st, w)
      | Some key \<Rightarrow>
     (case bs_config st of
        None \<Rightarrow> (GrantErr NotReady, st, w)
      | Some cfg \<Rightarrow>
     (case failover_new http (cfg_rh_rpcs cfg) of
        None \<Rightarrow> (GrantErr NotReady, st, w)
      | Some endpoints \<Rightarrow>
     (let inputs = \<lparr>inp_recipient = recipient, inp_high_water = high_water st recipient,
            inp_enclave_now = ctx_enclave_now ctx, inp_forbidden = forbidden cfg,
            inp_exit = cfg_exit cfg, inp_entry = cfg_entry cfg, inp_chain_id = cfg_chain_id cfg,
            inp_igra_finality = IGRA_FINALITY\<rparr>;
          (resp, s) = build_grant E H A key (igra_side (proxy_rpc http (ctx_igra_url ctx) 0))
                        (rh_side (failover_rpc endpoints)) inputs (req_start (cfg_rh_rpcs cfg) w);
          st' = (case resp of
                   GrantOk grant \<Rightarrow>
                     (case u256_parse A (grant_cumulative_burned grant) of
                        Some b \<Rightarrow> record_signed st recipient b | None \<Rightarrow> st)
                 | GrantErr _ \<Rightarrow> st)
      in (resp, st', world_of s))))))"

definition get_attestation ::
    "('g, 'v, 'k) ecdsa \<Rightarrow> wire \<Rightarrow> (bytes option \<Rightarrow> bytes \<Rightarrow> bytes option) \<Rightarrow> 'k BridgeState
     \<Rightarrow> string option \<Rightarrow> BridgeReply" where
  "get_attestation E A attest st nonce =
     (case (bs_signer st, signer_pubkey E st) of
        (Some signer, Some pubkey) \<Rightarrow>
          (case (case nonce of None \<Rightarrow> Some None
                 | Some h \<Rightarrow> map_option Some (decode_hex (wire_hex A) h)) of
             None \<Rightarrow> WireError ''bad_nonce''
           | Some nonce_bytes \<Rightarrow>
               (case attest nonce_bytes pubkey of
                  Some doc \<Rightarrow> AttestationReply (hex_encode_prefixed (wire_hex A) doc)
                                (address_to_string (wire_hex A) signer)
                                (hex_encode_prefixed (wire_hex A) (bs_pcr0 st))
                | None \<Rightarrow> WireError ''attestation_unavailable''))
      | _ \<Rightarrow> WireError ''not_ready'')"

definition health ::
    "wire \<Rightarrow> 'w http \<Rightarrow> HandlerCtx \<Rightarrow> 'k BridgeState \<Rightarrow> 'w \<Rightarrow> BridgeHealth \<times> 'w" where
  "health A http ctx st w =
     (let C = wire_hex A;
          (registered, igra_finalized, rh_finalized, w') =
            (case (bs_signer st, bs_config st) of
               (Some signer, Some cfg) \<Rightarrow>
                 (case finalized_block C (igra_side (proxy_rpc http (ctx_igra_url ctx) 0)) IGRA_FINALITY
                         (req_start (cfg_rh_rpcs cfg) w) of
                    (r1, s1) \<Rightarrow>
                      (let igra = (case r1 of Inr b \<Rightarrow> blk_number b | Inl _ \<Rightarrow> 0)
                       in case failover_new http (cfg_rh_rpcs cfg) of
                            None \<Rightarrow> (False, igra, 0, world_of s1)
                          | Some endpoints \<Rightarrow>
                              (case finalized_block C (rh_side (failover_rpc endpoints)) Tag s1 of
                                 (r2, s2) \<Rightarrow>
                                   (case is_valid_signer C (rh_side (failover_rpc endpoints)) (cfg_entry cfg)
                                           BridgeRegistry signer Tag s2 of
                                      (r3, s3) \<Rightarrow>
                                        (case r3 of Inr r \<Rightarrow> r | Inl _ \<Rightarrow> False, igra,
                                         case r2 of Inr b \<Rightarrow> blk_number b | Inl _ \<Rightarrow> 0, world_of s3)))))
             | _ \<Rightarrow> (False, 0, 0, w))
      in (\<lparr>health_state = bs_boot st,
           health_signer = (case bs_signer st of Some s \<Rightarrow> address_to_string C s | None \<Rightarrow> []),
           health_version = bs_version st,
           health_pcr0 = hex_encode_prefixed C (bs_pcr0 st),
           health_registered = registered,
           health_igra_finalized = igra_finalized,
           health_rh_finalized = rh_finalized\<rparr>, w'))"

definition handle ::
    "('g, 'v, 'k) ecdsa \<Rightarrow> claim_hash \<Rightarrow> wire \<Rightarrow> 'w http \<Rightarrow> (bytes option \<Rightarrow> bytes \<Rightarrow> bytes option)
     \<Rightarrow> HandlerCtx \<Rightarrow> BridgeRequest \<Rightarrow> 'k BridgeState \<Rightarrow> 'w \<Rightarrow> BridgeReply \<times> 'k BridgeState \<times> 'w" where
  "handle E H A http attest ctx req st w =
     (case req of
        Configure entry rh_rpcs oracle_peers \<Rightarrow>
          (let (ok, st') = configure A st (ctx_baked ctx) entry rh_rpcs oracle_peers
           in (Ack ok, st', w))
      | SignClaim recipient \<Rightarrow>
          (let (resp, st', w') = sign_claim E H A http ctx recipient st w
           in (ClaimReply resp, st', w'))
      | GetAttestation nonce \<Rightarrow> (get_attestation E A attest st nonce, st, w)
      | Health \<Rightarrow> (let (h, w') = health A http ctx st w in (HealthReply h, st, w'))
      | Readiness \<Rightarrow> (ReadinessReply (bs_key st \<noteq> None), st, w))"

section \<open>Deadlines\<close>

text \<open>
  A claim's deadline is at most an hour after either clock and at least fifty minutes
  after the later one; clocks more than ten minutes apart are refused. The bounds are on the
  integers, so they include that the 64-bit addition does not wrap for any time before
  \<open>2^63\<close>.
\<close>

theorem compute_deadline_window:
  assumes "now < 2 ^ 63" "ts < 2 ^ 63"
  shows "((\<exists>d. compute_deadline now ts = Inr d) \<longleftrightarrow>
            unat now \<le> unat ts + 600 \<and> unat ts \<le> unat now + 600)
    \<and> (\<forall>d. compute_deadline now ts = Inr d \<longrightarrow>
          unat d \<le> min (unat now) (unat ts) + 3600 \<and> max (unat now) (unat ts) + 3000 \<le> unat d)"
proof -
  have skew: "\<not> 600 < abs_diff now ts \<longleftrightarrow> unat now \<le> unat ts + 600 \<and> unat ts \<le> unat now + 600"
    by (auto simp: word_less_nat_alt unat_abs_diff_nat)
  have m: "unat (min now ts) = min (unat now) (unat ts)"
    by (simp add: min_def word_le_nat_alt)
  have "unat now < 2 ^ 63" using assms(1) by (simp add: word_less_nat_alt)
  then have "unat (min now ts + 3600) = min (unat now) (unat ts) + 3600"
    unfolding m[symmetric] by (subst unat_add_lem[THEN iffD1]) (auto simp: m)
  then have "unat (min now ts + 3600) \<le> min (unat now) (unat ts) + 3600
      \<and> max (unat now) (unat ts) + 3000 \<le> unat (min now ts + 3600)" if "\<not> 600 < abs_diff now ts"
    using that unfolding skew by linarith
  then show ?thesis
    using skew by (auto simp: compute_deadline_def MAX_CLOCK_SKEW_SECS_def CLAIM_TTL_SECS_def)
qed

theorem compute_deadline_window_witness:
  "unat (1004600 :: u64) \<le> min (unat (1001000 :: u64)) (unat (1001400 :: u64)) + 3600"
proof -
  have "compute_deadline 1001000 1001400 = Inr 1004600" by code_simp
  with compute_deadline_window[of 1001000 1001400] show ?thesis by simp
qed

section \<open>What a grant means\<close>

lemma build_grant_Ok:
  assumes "build_grant E H A key igra rh inp s = (GrantOk g, s')"
  obtains burned blk s1 rb deadline sig where
    "burned_finalized (wire_hex A) igra (inp_exit inp) (inp_recipient inp) (inp_igra_finality inp) s
       = (Inr (burned, blk), s1)"
    "inp_high_water inp \<le> burned" "burned \<noteq> 0"
    "inp_recipient inp \<noteq> zero_address" "inp_recipient inp \<notin> set (inp_forbidden inp)"
    "finalized_block (wire_hex A) rh (HeadMinus 0) s1 = (Inr rb, s')"
    "compute_deadline (inp_enclave_now inp) (blk_timestamp rb) = Inr deadline"
    "sign_recoverable E key (claim_digest H \<lparr>clm_recipient = inp_recipient inp,
       clm_cumulative_burned = burned, clm_deadline = ucast deadline, clm_chain_id = inp_chain_id inp,
       clm_entry = inp_entry inp\<rparr>) = Inr sig"
    "g = ClaimGrant_new A sig burned deadline (address_from_key E (verifying_key E key)) blk"
  using assms
  by (auto simp: build_grant_def ensure_not_decreasing_def check_claimable_def sign_claim_request_def
      Let_def not_less split: prod.splits sum.splits if_splits)

lemma sign_claim_GrantOk:
  assumes "sign_claim E H A http ctx r st w = (GrantOk g, st', w')"
  obtains recipient key cfg endpoints s where
    "parse_address A r = Some recipient" "bs_key st = Some key" "bs_config st = Some cfg"
    "failover_new http (cfg_rh_rpcs cfg) = Some endpoints"
    "build_grant E H A key (igra_side (proxy_rpc http (ctx_igra_url ctx) 0)) (rh_side (failover_rpc endpoints))
       \<lparr>inp_recipient = recipient, inp_high_water = high_water st recipient,
        inp_enclave_now = ctx_enclave_now ctx, inp_forbidden = forbidden cfg,
        inp_exit = cfg_exit cfg, inp_entry = cfg_entry cfg, inp_chain_id = cfg_chain_id cfg,
        inp_igra_finality = IGRA_FINALITY\<rparr> (req_start (cfg_rh_rpcs cfg) w) = (GrantOk g, s)"
    "st' = (case u256_parse A (grant_cumulative_burned g) of
              Some b \<Rightarrow> record_signed st recipient b | None \<Rightarrow> st)"
  using assms by (auto simp: sign_claim_def Let_def split: option.splits prod.splits)

lemma sign_claim_GrantErr: "sign_claim E H A http ctx r st w = (GrantErr e, st', w') \<Longrightarrow> st' = st"
  by (auto simp: sign_claim_def Let_def split: option.splits prod.splits)


section \<open>A run for the witnesses\<close>

definition demo_http :: "nat http" where
  "demo_http url body w =
     (Some (True, Some (JObj [(''result'', case (json_get body ''method'', json_get body ''params'') of
        (Some (JStr m), Some p) \<Rightarrow> demo_answer m p | _ \<Rightarrow> JNull)])), Suc w)"

definition demo_wire :: wire where
  "demo_wire = \<lparr>wire_hex = demo_codec, u256_to_string = (\<lambda>x. replicate (unat x) CHR ''1''),
     u256_parse = (\<lambda>s. Some (of_nat (length s))), parse_address = (\<lambda>s. Some (replicate 20 7))\<rparr>"

definition demo_baked :: BakedIdentity where
  "demo_baked = \<lparr>baked_exit = replicate 20 1, baked_kskd = replicate 20 2, baked_entry = replicate 20 7,
     baked_chain_id = 4663\<rparr>"

definition demo_ctx :: HandlerCtx where
  "demo_ctx = \<lparr>ctx_igra_url = ''https://igra'', ctx_baked = demo_baked, ctx_enclave_now = 9\<rparr>"

definition demo_state :: "bytes BridgeState" where
  "demo_state = install_key (set_config (BridgeState_new [] 1) (from_parts demo_baked [''https://rh''] []))
     (toy_key 7) (address_from_key toy_curve (verifying_key toy_curve (toy_key 7)))"

lemma demo_roundtrip: "u256_parse demo_wire (u256_to_string demo_wire x) = Some x"
  by (simp add: demo_wire_def)

lemma steady_igra: "steady (igra_side (proxy_rpc demo_http url 0))"
  by (auto simp: steady_def igra_side_def proxy_rpc_def demo_http_def build_rpc_body_def parse_rpc_result_def
      split: prod.splits)

lemma steady_rh: "steady (rh_side (failover_rpc [proxy_rpc demo_http url 0]))"
  by (auto simp: steady_def rh_side_def failover_rpc_def proxy_rpc_def demo_http_def build_rpc_body_def
      parse_rpc_result_def split: prod.splits)

lemma demo_sign_claim: "\<exists>g st' w'. sign_claim toy_curve (\<lambda>_ _. [1]) demo_wire demo_http demo_ctx [] demo_state 0 = (GrantOk g, st', w')"
proof -
  let ?igra = "igra_side (proxy_rpc demo_http ''https://igra'' 0)"
  let ?rh = "rh_side (failover_rpc [proxy_rpc demo_http ''https://rh'' 0])"
  let ?cfg = "from_parts demo_baked [''https://rh''] []"
  obtain s1 where b: "burned_finalized demo_codec ?igra (replicate 20 1) (replicate 20 7) (FinalizedWithDepth 800)
      (req_start [''https://rh''] 0) = (Inr (u256_be (replicate 32 5), 100), s1)"
    using steady_burned[OF steady_igra] by blast
  obtain s2 where f: "finalized_block demo_codec ?rh (HeadMinus 0) s1 = (Inr (demo_block 900), s2)"
    using steady_finalized(2)[OF steady_rh] by blast
  have "be_nat (replicate 32 5) = be_nat (replicate 31 5 @ [5])"
    by (simp add: replicate_append_same[symmetric] numeral_eq_Suc)
  then have z: "u256_be (replicate 32 5) \<noteq> 0"
    using unat_u256_be[of "replicate 32 5"] by auto
  have d: "compute_deadline 9 7 = Inr 3607" by code_simp
  let ?inp = "\<lparr>inp_recipient = replicate 20 7, inp_high_water = 0, inp_enclave_now = 9, inp_forbidden = forbidden ?cfg,
        inp_exit = replicate 20 1, inp_entry = replicate 20 7, inp_chain_id = 4663,
        inp_igra_finality = FinalizedWithDepth 800\<rparr>"
  have c: "check_claimable (replicate 20 7) (u256_be (replicate 32 5)) (forbidden ?cfg) = Inr ()"
    using z by (simp add: check_claimable_def zero_address_def forbidden_def from_parts_def demo_baked_def)
  have "\<exists>g. build_grant toy_curve (\<lambda>_ _. [1]) demo_wire (toy_key 7) ?igra ?rh ?inp (req_start [''https://rh''] 0) = (GrantOk g, s2)"
    using b f d c toy_sign
    by (simp add: build_grant_def demo_wire_def ensure_not_decreasing_def demo_block_def sign_claim_request_def claim_digest_def)
  then obtain g where g: "build_grant toy_curve (\<lambda>_ _. [1]) demo_wire (toy_key 7) ?igra ?rh ?inp (req_start [''https://rh''] 0) = (GrantOk g, s2)"
    by blast
  have st: "bs_key demo_state = Some (toy_key 7)" "bs_config demo_state = Some ?cfg"
    "high_water demo_state r = 0" "parse_address demo_wire [] = Some (replicate 20 7)"
    "failover_new demo_http [''https://rh''] = Some [proxy_rpc demo_http ''https://rh'' 0]"
    "cfg_exit ?cfg = replicate 20 1" "cfg_entry ?cfg = replicate 20 7" "cfg_chain_id ?cfg = 4663"
    "cfg_rh_rpcs ?cfg = [''https://rh'']" for r
    by (simp_all add: demo_state_def install_key_def set_config_def BridgeState_new_def high_water_def
        demo_wire_def failover_new_def from_endpoints_def from_parts_def demo_baked_def)
  show ?thesis
    using g by (simp add: sign_claim_def st demo_ctx_def IGRA_FINALITY_def Let_def)
qed


section \<open>Runs of the bridge\<close>

text \<open>
  The events of a running bridge: a request is served, at any time and against any state of
  the network, or the boot task installs the key it resolved.
\<close>

datatype 'k bridge_event = Served BridgeRequest BridgeReply | KeyInstalled 'k

inductive bridge_step ::
    "('g, 'v, 'k) ecdsa \<Rightarrow> claim_hash \<Rightarrow> wire \<Rightarrow> 'w http \<Rightarrow> (bytes option \<Rightarrow> bytes \<Rightarrow> bytes option)
     \<Rightarrow> string \<Rightarrow> BakedIdentity \<Rightarrow> 'k BridgeState \<Rightarrow> 'k bridge_event \<Rightarrow> 'k BridgeState \<Rightarrow> bool"
  for E H A http attest url baked where
  serve: "handle E H A http attest \<lparr>ctx_igra_url = url, ctx_baked = baked, ctx_enclave_now = now\<rparr> req st w
            = (reply, st', w') \<Longrightarrow>
          bridge_step E H A http attest url baked st (Served req reply) st'"
| install: "bridge_step E H A http attest url baked st (KeyInstalled k)
              (install_key st k (address_from_key E (verifying_key E k)))"

inductive_cases bridge_stepE: "bridge_step E H A http attest url baked st e st'"

text \<open>The totals signed for one recipient, in order, read off the replies.\<close>

fun signed_reply :: "wire \<Rightarrow> address \<Rightarrow> BridgeRequest \<Rightarrow> BridgeReply \<Rightarrow> u256 option" where
  "signed_reply A r (SignClaim s) (ClaimReply (GrantOk g)) =
     (if parse_address A s = Some r then u256_parse A (grant_cumulative_burned g) else None)"
| "signed_reply A r _ _ = None"

fun signed_total :: "wire \<Rightarrow> address \<Rightarrow> 'k bridge_event \<Rightarrow> u256 option" where
  "signed_total A r (Served req reply) = signed_reply A r req reply"
| "signed_total A r (KeyInstalled k) = None"

definition signed_totals :: "wire \<Rightarrow> address \<Rightarrow> 'k bridge_event list \<Rightarrow> u256 list" where
  "signed_totals A r es = filter_map (signed_total A r) es"

lemma high_water_record:
  "high_water (record_signed st r' b) r = (if r = r' then max b (high_water st r) else high_water st r)"
  by (auto simp: high_water_def record_signed_def Let_def max_def)

lemma high_water_simps [simp]:
  "high_water (install_key st k a) r = high_water st r"
  "high_water (set_config st c) r = high_water st r"
  by (simp_all add: high_water_def install_key_def set_config_def)

lemma configure_state:
  "configure A st baked e us ps = (ok, st') \<Longrightarrow>
   st' = st \<or> ok \<and> bs_key st = None \<and> us \<noteq> [] \<and> list_all (\<lambda>u. strip_prefix ''https://'' u \<noteq> None) us
     \<and> st' = set_config st (from_parts baked us ps)"
  by (auto simp: configure_def list_ex_iff list_all_iff split: if_splits)

text \<open>One served request: the state is unchanged, configured, or ratcheted by a signed claim.\<close>

lemma handle_cases:
  assumes "handle E H A http attest ctx req st w = (reply, st', w')"
  obtains (same) "st' = st" "\<And>r. signed_reply A r req reply = None"
  | (configured) us ps where "bs_key st = None" "us \<noteq> []" "list_all (\<lambda>u. strip_prefix ''https://'' u \<noteq> None) us"
      "st' = set_config st (from_parts (ctx_baked ctx) us ps)" "\<And>r. signed_reply A r req reply = None"
  | (signed) s g w1 where "req = SignClaim s" "reply = ClaimReply (GrantOk g)"
      "sign_claim E H A http ctx s st w = (GrantOk g, st', w1)"
proof (cases req)
  case (Configure e us ps)
  then obtain ok where "configure A st (ctx_baked ctx) e us ps = (ok, st')" "reply = Ack ok"
    using assms by (auto simp: handle_def split: prod.splits)
  moreover from this(2) Configure have n: "signed_reply A r req reply = None" for r by simp
  ultimately show thesis
    using configure_state[of A st "ctx_baked ctx" e us ps ok st'] same[OF _ n] configured[OF _ _ _ _ n] by blast
next
  case (SignClaim s)
  then obtain resp where r: "sign_claim E H A http ctx s st w = (resp, st', w')" "reply = ClaimReply resp"
    using assms by (auto simp: handle_def split: prod.splits)
  show thesis
  proof (cases resp)
    case (GrantOk g)
    with r SignClaim signed show thesis by blast
  next
    case (GrantErr e)
    have "st' = st" by (rule sign_claim_GrantErr[OF r(1)[unfolded GrantErr]])
    moreover have "signed_reply A rr req reply = None" for rr using r(2) GrantErr by (cases req) auto
    ultimately show thesis by (rule same)
  qed
next
  case (GetAttestation n)
  then have "st' = st" "signed_reply A r req reply = None" for r
    using assms by (auto simp: handle_def)
  then show thesis by (rule same)
next
  case Health
  then have "st' = st" "signed_reply A r req reply = None" for r
    using assms by (auto simp: handle_def split: prod.splits)
  then show thesis by (rule same)
next
  case Readiness
  then have "st' = st" "signed_reply A r req reply = None" for r
    using assms by (auto simp: handle_def)
  then show thesis by (rule same)
qed

lemma signed_step:
  assumes rt: "\<And>x. u256_parse A (u256_to_string A x) = Some x"
    and s: "sign_claim E H A http ctx s st w = (GrantOk g, st', w')"
  obtains recipient b where "parse_address A s = Some recipient" "u256_parse A (grant_cumulative_burned g) = Some b"
    "high_water st recipient \<le> b" "st' = record_signed st recipient b"
proof -
  obtain recipient key cfg endpoints t where h:
    "parse_address A s = Some recipient"
    "build_grant E H A key (igra_side (proxy_rpc http (ctx_igra_url ctx) 0)) (rh_side (failover_rpc endpoints))
       \<lparr>inp_recipient = recipient, inp_high_water = high_water st recipient,
        inp_enclave_now = ctx_enclave_now ctx, inp_forbidden = forbidden cfg,
        inp_exit = cfg_exit cfg, inp_entry = cfg_entry cfg, inp_chain_id = cfg_chain_id cfg,
        inp_igra_finality = IGRA_FINALITY\<rparr> (req_start (cfg_rh_rpcs cfg) w) = (GrantOk g, t)"
    "st' = (case u256_parse A (grant_cumulative_burned g) of
              Some b \<Rightarrow> record_signed st recipient b | None \<Rightarrow> st)"
    by (rule sign_claim_GrantOk[OF s])
  obtain burned blk deadline sig where b: "high_water st recipient \<le> burned"
    "g = ClaimGrant_new A sig burned deadline (address_from_key E (verifying_key E key)) blk"
    by (rule build_grant_Ok[OF h(2)]) auto
  then have "u256_parse A (grant_cumulative_burned g) = Some burned"
    by (simp add: ClaimGrant_new_def rt)
  with that[OF h(1)] b(1) h(3) show thesis by simp
qed

lemma step_ratchet:
  assumes rt: "\<And>x. u256_parse A (u256_to_string A x) = Some x"
    and st: "bridge_step E H A http attest url baked st e st'"
  shows "high_water st r \<le> high_water st' r
    \<and> (\<forall>b. signed_total A r e = Some b \<longrightarrow> high_water st r \<le> b \<and> high_water st' r = b)"
  using st
proof (cases rule: bridge_step.cases)
  case (serve now req w reply w')
  from serve(2) show ?thesis
  proof (cases rule: handle_cases)
    case (signed s g w1)
    obtain recipient b where "parse_address A s = Some recipient"
      "u256_parse A (grant_cumulative_burned g) = Some b"
      "high_water st recipient \<le> b" "st' = record_signed st recipient b"
      by (rule signed_step[OF rt signed(3)])
    then show ?thesis using serve(1) signed(1,2) by (auto simp: high_water_record max_def)
  qed (use serve(1) in auto)
qed auto

lemma run_ratchet:
  assumes rt: "\<And>x. u256_parse A (u256_to_string A x) = Some x"
    and run: "runs (bridge_step E H A http attest url baked) st es st'"
  shows "sorted (signed_totals A r es) \<and> (\<forall>b \<in> set (signed_totals A r es). high_water st r \<le> b \<and> b \<le> high_water st' r)
    \<and> high_water st r \<le> high_water st' r"
  using run
proof (induction rule: runs.induct)
  case (runs_Cons st e st1 es st')
  note step = step_ratchet[OF rt runs_Cons(1), of r]
  show ?case
  proof (cases "signed_total A r e")
    case None
    then have "signed_totals A r (e # es) = signed_totals A r es" by (simp add: signed_totals_def)
    then show ?thesis using runs_Cons(3) step order_trans by metis
  next
    case (Some b)
    then have "signed_totals A r (e # es) = b # signed_totals A r es" by (simp add: signed_totals_def)
    then show ?thesis using runs_Cons(3) step Some by (auto intro: order_trans)
  qed
qed (simp add: signed_totals_def)

text \<open>
  C2. The ratchet: over any run of the bridge, whatever the chains report, the totals signed
  for one recipient never decrease, and none exceeds the recorded high-water mark at the end.
  The one assumption is that the printed form of a 256-bit number parses back to it.
\<close>

theorem signed_totals_never_decrease:
  assumes "\<And>x. u256_parse A (u256_to_string A x) = Some x"
    and "runs (bridge_step E H A http attest url baked) (BridgeState_new pcr0 ver) es st'"
  shows "sorted (signed_totals A r es) \<and> (\<forall>b \<in> set (signed_totals A r es). b \<le> high_water st' r)"
  using run_ratchet[OF assms, of r] by blast

theorem signed_totals_never_decrease_witness:
  "sorted (signed_totals demo_wire (replicate 20 7) [Served (SignClaim []) (ClaimReply (GrantErr NotReady)) :: bytes bridge_event])"
proof -
  have "runs (bridge_step toy_curve (\<lambda>_ _. [1]) demo_wire demo_http (\<lambda>_ _. None) ''https://igra'' demo_baked)
      (BridgeState_new [] 1) [Served (SignClaim []) (ClaimReply (GrantErr NotReady))] (BridgeState_new [] 1)"
  proof (rule runs_Cons, rule bridge_step.serve)
    show "handle toy_curve (\<lambda>_ _. [1]) demo_wire demo_http (\<lambda>_ _. None)
        \<lparr>ctx_igra_url = ''https://igra'', ctx_baked = demo_baked, ctx_enclave_now = 0\<rparr> (SignClaim [])
        (BridgeState_new [] 1) 0 = (ClaimReply (GrantErr NotReady), BridgeState_new [] 1, 0)"
      by (simp add: handle_def sign_claim_def BridgeState_new_def demo_wire_def)
  qed simp
  from signed_totals_never_decrease[OF demo_roundtrip this] show ?thesis by blast
qed

definition bridge_inv :: "('g, 'v, 'k) ecdsa \<Rightarrow> BakedIdentity \<Rightarrow> 'k BridgeState \<Rightarrow> bool" where
  "bridge_inv E baked st \<longleftrightarrow>
     (\<forall>cfg. bs_config st = Some cfg \<longrightarrow>
        cfg_entry cfg = baked_entry baked \<and> cfg_exit cfg = baked_exit baked
        \<and> cfg_kskd cfg = baked_kskd baked \<and> cfg_chain_id cfg = baked_chain_id baked
        \<and> cfg_rh_rpcs cfg \<noteq> [] \<and> list_all (\<lambda>u. strip_prefix ''https://'' u \<noteq> None) (cfg_rh_rpcs cfg))
     \<and> bs_signer st = map_option (\<lambda>k. address_from_key E (verifying_key E k)) (bs_key st)
     \<and> (bs_boot st = Ready \<longleftrightarrow> bs_key st \<noteq> None)"

lemma record_signed_frame:
  "bs_config (record_signed st r b) = bs_config st" "bs_key (record_signed st r b) = bs_key st"
  "bs_signer (record_signed st r b) = bs_signer st" "bs_boot (record_signed st r b) = bs_boot st"
  by (simp_all add: record_signed_def Let_def)

lemma sign_claim_frame:
  assumes "sign_claim E H A http ctx s st w = (resp, st', w')"
  shows "bs_config st' = bs_config st \<and> bs_key st' = bs_key st \<and> bs_signer st' = bs_signer st \<and> bs_boot st' = bs_boot st"
  using assms by (auto simp: sign_claim_def Let_def record_signed_frame
      split: option.splits prod.splits SignClaimResponse.splits)

lemma step_inv:
  assumes "bridge_step E H A http attest url baked st e st'" "bridge_inv E baked st"
  shows "bridge_inv E baked st'"
  using assms(1)
proof (cases rule: bridge_step.cases)
  case (serve now req w reply w')
  from serve(2) show ?thesis
  proof (cases rule: handle_cases)
    case (configured us ps)
    then show ?thesis using assms(2) by (auto simp: bridge_inv_def set_config_def from_parts_def)
  next
    case (signed s g w1)
    from sign_claim_frame[OF signed(3)] assms(2) show ?thesis by (simp add: bridge_inv_def)
  qed (use assms(2) in simp)
next
  case (install k)
  then show ?thesis using assms(2) by (auto simp: bridge_inv_def install_key_def)
qed

lemma step_frozen:
  assumes "bridge_step E H A http attest url baked st e st'" "bs_key st = Some k"
  shows "bs_key st' = Some k \<and> bs_config st' = bs_config st"
  using assms(1)
proof (cases rule: bridge_step.cases)
  case (serve now req w reply w')
  from serve(2) show ?thesis
  proof (cases rule: handle_cases)
    case (signed s g w1)
    from sign_claim_frame[OF signed(3)] assms(2) show ?thesis by simp
  qed (use assms(2) in auto)
qed (use assms(2) in \<open>simp add: install_key_def\<close>)

interpretation bridge: state_machine "bridge_step E H A http attest url baked" "bridge_inv E baked"
  for E H A http attest url baked
  by unfold_locales (rule step_inv)

interpretation live_bridge: state_machine "bridge_step E H A http attest url baked"
    "\<lambda>st. bs_key st = Some k \<and> bs_config st = c"
  for E H A http attest url baked k c
proof unfold_locales
  fix s e s'
  assume "bs_key s = Some k \<and> bs_config s = c" "bridge_step E H A http attest url baked s e s'"
  then show "bs_key s' = Some k \<and> bs_config s' = c" using step_frozen[of E H A http attest url baked s e s' k] by simp
qed

lemma new_inv: "bridge_inv E baked (BridgeState_new pcr0 ver)"
  by (simp add: bridge_inv_def BridgeState_new_def)

text \<open>
  C25. The host cannot redirect a live bridge. In every reachable state the claim domain is the
  baked contract and chain and every configured endpoint is https; the reported signer is the
  address of the installed key; and from the moment a key is installed neither the key nor the
  configuration ever changes.
\<close>

theorem live_bridge_frozen:
  assumes "runs (bridge_step E H A http attest url baked) (BridgeState_new pcr0 ver) es st"
  shows "bridge_inv E baked st
    \<and> (\<forall>fs st' k. runs (bridge_step E H A http attest url baked) st fs st' \<longrightarrow> bs_key st = Some k \<longrightarrow>
         bs_key st' = Some k \<and> bs_config st' = bs_config st)"
proof (intro conjI allI impI)
  show "bridge_inv E baked st" by (rule bridge.inv_runs[OF assms new_inv])
next
  fix fs st' k
  assume r: "runs (bridge_step E H A http attest url baked) st fs st'" "bs_key st = Some k"
  show "bs_key st' = Some k" "bs_config st' = bs_config st" using live_bridge.inv_runs[OF r(1)] r(2) by auto
qed

theorem live_bridge_frozen_witness:
  "bridge_inv toy_curve demo_baked (install_key (BridgeState_new [] 1) (toy_key 7)
     (address_from_key toy_curve (verifying_key toy_curve (toy_key 7))))"
proof -
  have "runs (bridge_step toy_curve (\<lambda>_ _. [1]) demo_wire demo_http (\<lambda>_ _. None) ''https://igra'' demo_baked)
      (BridgeState_new [] 1) [KeyInstalled (toy_key 7)]
      (install_key (BridgeState_new [] 1) (toy_key 7) (address_from_key toy_curve (verifying_key toy_curve (toy_key 7))))"
    by (rule runs_Cons, rule bridge_step.install) simp
  from live_bridge_frozen[OF this] show ?thesis by blast
qed

end
