(* ===== verification/Approval.thy ===== *)
theory Approval
  imports Signatures
begin

text \<open>
  \<open>crates/keyex/src/approval.rs\<close>: what an owner quorum signs, which owners and threshold
  count, and when a set of signatures is a quorum. The EIP-712 hash belongs to \<open>alloy\<close> and is a
  parameter, a function of the domain and of the struct that is hashed.
\<close>

section \<open>Data\<close>

datatype ApprovalMode = Carry | Fresh | Child

datatype EnclaveRole = Oracle | Bridge

definition mode_u8 :: "ApprovalMode \<Rightarrow> u8" where
  "mode_u8 m = (case m of Carry \<Rightarrow> 1 | Fresh \<Rightarrow> 2 | Child \<Rightarrow> 3)"

definition mode_of_u8 :: "u8 \<Rightarrow> ApprovalMode option" where
  "mode_of_u8 v = (if v = 1 then Some Carry else if v = 2 then Some Fresh
                   else if v = 3 then Some Child else None)"

definition role_u8 :: "EnclaveRole \<Rightarrow> u8" where
  "role_u8 r = (case r of Oracle \<Rightarrow> 1 | Bridge \<Rightarrow> 2)"

definition role_of_u8 :: "u8 \<Rightarrow> EnclaveRole option" where
  "role_of_u8 v = (if v = 1 then Some Oracle else if v = 2 then Some Bridge else None)"

record ApprovalRequest =
  req_pcr0 :: bytes
  req_version :: u64
  req_mode :: ApprovalMode
  req_label :: bytes
  req_role :: EnclaveRole
  req_expiry :: u64
  req_nonce :: bytes
  req_chain_id :: u64

text \<open>The Solidity struct of the \<open>sol!\<close> block, and the domain.\<close>

record SolApproval =
  sol_pcr0 :: bytes
  sol_version :: u64
  sol_mode :: u8
  sol_label :: bytes
  sol_role :: u8
  sol_expiry :: u64
  sol_nonce :: bytes

record Eip712Domain =
  dom_name :: string
  dom_version :: string
  dom_chain_id :: u256

definition domain :: "u64 \<Rightarrow> Eip712Domain" where
  "domain chain_id = \<lparr>dom_name = ''Kaskad Keyex'', dom_version = ''1'', dom_chain_id = ucast chain_id\<rparr>"

type_synonym eip712 = "Eip712Domain \<Rightarrow> SolApproval \<Rightarrow> bytes"

definition sol_approval :: "ApprovalRequest \<Rightarrow> SolApproval" where
  "sol_approval req =
     \<lparr>sol_pcr0 = req_pcr0 req, sol_version = req_version req, sol_mode = mode_u8 (req_mode req),
      sol_label = req_label req, sol_role = role_u8 (req_role req), sol_expiry = req_expiry req,
      sol_nonce = req_nonce req\<rparr>"

definition approval_digest :: "eip712 \<Rightarrow> ApprovalRequest \<Rightarrow> bytes" where
  "approval_digest hash req = hash (domain (req_chain_id req)) (sol_approval req)"

section \<open>The quorum in force\<close>

datatype QuorumError =
    BakedThresholdZero
  | LiveThresholdZero
  | NoSurvivingOwner
  | Unsatisfiable nat nat

definition effective_quorum ::
    "address list \<Rightarrow> nat \<Rightarrow> address list \<Rightarrow> nat \<Rightarrow> (QuorumError, address list \<times> nat) res" where
  "effective_quorum baked_owners baked_threshold live_owners live_threshold =
     (if baked_threshold = 0 then Inl BakedThresholdZero
      else if live_threshold = 0 then Inl LiveThresholdZero
      else let owners = push_new [] (filter (\<lambda>a. a \<in> set live_owners) baked_owners)
           in if owners = [] then Inl NoSurvivingOwner
              else let threshold = max baked_threshold live_threshold
                   in if length owners < threshold then Inl (Unsatisfiable (length owners) threshold)
                      else Inr (owners, threshold))"

section \<open>Counting signatures\<close>

datatype ApprovalError =
    NoExpiry
  | Expired u64 u64
  | ZeroThreshold
  | ThresholdAboveOwners nat nat
  | Insufficient nat nat

fun count_signers ::
    "('g, 'v, 'k) ecdsa \<Rightarrow> bytes \<Rightarrow> address list \<Rightarrow> address list \<Rightarrow> bytes list \<Rightarrow> address list" where
  "count_signers E digest owners distinct_owners [] = distinct_owners"
| "count_signers E digest owners distinct_owners (sig # sigs) =
     (case recover E digest sig of
        Inl _ \<Rightarrow> count_signers E digest owners distinct_owners sigs
      | Inr addr \<Rightarrow>
          if addr \<in> set owners \<and> addr \<notin> set distinct_owners
          then count_signers E digest owners (distinct_owners @ [addr]) sigs
          else count_signers E digest owners distinct_owners sigs)"

definition verify_approvals ::
    "('g, 'v, 'k) ecdsa \<Rightarrow> eip712 \<Rightarrow> ApprovalRequest \<Rightarrow> bytes list \<Rightarrow> address list \<Rightarrow> nat \<Rightarrow> u64
     \<Rightarrow> (ApprovalError, unit) res" where
  "verify_approvals E hash req sigs owners threshold now_unix_secs =
     (if req_expiry req = 0 then Inl NoExpiry
      else if req_expiry req \<le> now_unix_secs then Inl (Expired now_unix_secs (req_expiry req))
      else if threshold = 0 then Inl ZeroThreshold
      else if length owners < threshold then Inl (ThresholdAboveOwners threshold (length owners))
      else let distinct_owners = count_signers E (approval_digest hash req) owners [] sigs
           in if length distinct_owners < threshold
              then Inl (Insufficient (length distinct_owners) threshold)
              else Inr ())"

section \<open>Theorems\<close>

lemma mode_roundtrip: "mode_of_u8 v = Some m \<longleftrightarrow> v = mode_u8 m"
  by (cases m) (auto simp: mode_of_u8_def mode_u8_def)

lemma role_roundtrip: "role_of_u8 v = Some r \<longleftrightarrow> v = role_u8 r"
  by (cases r) (auto simp: role_of_u8_def role_u8_def)

lemma mode_u8_inj: "mode_u8 m = mode_u8 m' \<longleftrightarrow> m = m'"
  using mode_roundtrip by (metis option.inject)

lemma role_u8_inj: "role_u8 r = role_u8 r' \<longleftrightarrow> r = r'"
  using role_roundtrip by (metis option.inject)

lemma domain_inj: "domain c = domain c' \<longleftrightarrow> c = c'"
proof
  assume "domain c = domain c'"
  then have "uint (ucast c :: u256) = uint (ucast c' :: u256)" by (simp add: domain_def)
  moreover have "uint x < 2 ^ 256" for x :: u64 using uint_bounded[of x] by simp
  ultimately show "c = c'"
    by (simp add: unsigned_ucast_eq take_bit_int_eq_self word_uint_eq_iff)
qed simp

text \<open>
  C23. The signed payload binds every field of the request: if the hash separates two
  domain/struct pairs, two requests with the same digest agree on the measurement, version,
  mode, label, role, expiry, nonce and chain.
\<close>

theorem approval_digest_binds:
  assumes separates: "\<And>d a d' a'. hash d a = hash d' a' \<Longrightarrow> d = d' \<and> a = a'"
    and same: "approval_digest hash r = approval_digest hash r'"
  shows "r = r'"
proof -
  have "domain (req_chain_id r) = domain (req_chain_id r')" "sol_approval r = sol_approval r'"
    using same separates unfolding approval_digest_def by blast+
  then show ?thesis
    by (intro ApprovalRequest.equality) (auto simp: sol_approval_def domain_inj mode_u8_inj role_u8_inj)
qed

lemma set_count_signers:
  "set (count_signers E d owners acc sigs) =
   set acc \<union> {a \<in> set owners. \<exists>s \<in> set sigs. recover E d s = Inr a}"
  by (induction E d owners acc sigs rule: count_signers.induct) (auto split: sum.splits)

lemma distinct_count_signers: "distinct acc \<Longrightarrow> distinct (count_signers E d owners acc sigs)"
  by (induction E d owners acc sigs rule: count_signers.induct) (auto split: sum.splits)

text \<open>The owners whose signature on a request is among those presented.\<close>

definition signers :: "('g, 'v, 'k) ecdsa \<Rightarrow> eip712 \<Rightarrow> ApprovalRequest \<Rightarrow> bytes list \<Rightarrow> address set" where
  "signers E hash req sigs = {a. \<exists>s \<in> set sigs. recover E (approval_digest hash req) s = Inr a}"

lemma length_count_signers:
  "length (count_signers E (approval_digest hash req) owners [] sigs)
   = card (set owners \<inter> signers E hash req sigs)"
proof -
  have "set (count_signers E (approval_digest hash req) owners [] sigs)
      = set owners \<inter> signers E hash req sigs"
    by (auto simp: set_count_signers signers_def)
  moreover have "distinct (count_signers E (approval_digest hash req) owners [] sigs)"
    by (rule distinct_count_signers) simp
  ultimately show ?thesis using distinct_card by fastforce
qed

lemma verify_approvals_iff:
  "verify_approvals E hash req sigs owners threshold now = Inr () \<longleftrightarrow>
   req_expiry req \<noteq> 0 \<and> now < req_expiry req \<and> 1 \<le> threshold \<and> threshold \<le> length owners
   \<and> threshold \<le> card (set owners \<inter> signers E hash req sigs)"
  by (auto simp: verify_approvals_def Let_def length_count_signers not_less not_le)

text \<open>
  C9. An approval is accepted if and only if it is unexpired, the threshold is between one and
  the number of owners, and at least that many distinct owners signed this very request;
  repeated, malformed and foreign signatures neither help nor hurt.
\<close>

theorem verify_approvals_exact:
  "verify_approvals E hash req sigs owners threshold now = Inr () \<longleftrightarrow>
   req_expiry req \<noteq> 0 \<and> now < req_expiry req \<and> 1 \<le> threshold \<and> threshold \<le> length owners
   \<and> threshold \<le> card {a \<in> set owners. \<exists>s \<in> set sigs. recover E (approval_digest hash req) s = Inr a}"
proof -
  have eq: "{a \<in> set owners. \<exists>s \<in> set sigs. recover E (approval_digest hash req) s = Inr a}
      = set owners \<inter> signers E hash req sigs"
    by (auto simp: signers_def)
  show ?thesis unfolding eq by (rule verify_approvals_iff)
qed

lemma effective_quorum_Inr:
  "effective_quorum b bt l lt = Inr (owners, t) \<longleftrightarrow>
   bt \<noteq> 0 \<and> lt \<noteq> 0 \<and> owners = push_new [] (filter (\<lambda>a. a \<in> set l) b) \<and> t = max bt lt \<and> t \<le> length owners"
  by (auto simp: effective_quorum_def Let_def)

lemma effective_owners:
  "effective_quorum b bt l lt = Inr (owners, t) \<Longrightarrow> distinct owners \<and> set owners = set b \<inter> set l"
  by (auto simp: effective_quorum_Inr distinct_push_new set_push_new)

text \<open>
  Whatever owner set and threshold the host's RPC reports, an approval accepted under the
  resulting quorum carries signatures of enough distinct owners that are both baked into the
  image and live: at least the baked threshold and at least the live one. A lying RPC can
  neither add an owner nor lower the bar, and a degenerate answer is an error.
\<close>

theorem live_quorum_only_tightens:
  assumes "effective_quorum baked bt live lt = Inr (owners, t)"
    and "verify_approvals E hash req sigs owners t now = Inr ()"
  shows "1 \<le> bt \<and> 1 \<le> lt \<and> max bt lt \<le> card (set baked \<inter> set live \<inter> signers E hash req sigs)"
  using assms effective_owners[OF assms(1)]
  by (auto simp: effective_quorum_Inr verify_approvals_iff)

text \<open>A request and a hash for the witnesses.\<close>

definition toy_hash :: eip712 where
  "toy_hash d a = [ucast (dom_chain_id d)]"

definition toy_request :: "ApprovalMode \<Rightarrow> EnclaveRole \<Rightarrow> u64 \<Rightarrow> ApprovalRequest" where
  "toy_request m r v = \<lparr>req_pcr0 = replicate 48 9, req_version = v, req_mode = m,
     req_label = replicate 32 1, req_role = r, req_expiry = 100, req_nonce = replicate 32 2,
     req_chain_id = 38833\<rparr>"

lemma toy_signers: "signers toy_curve toy_hash (toy_request m r v) [toy_sig 1, toy_sig 2] = {toy_key 1, toy_key 2}"
  by (auto simp: signers_def toy_recover)

lemma toy_key_eq [simp]: "toy_key a = toy_key b \<longleftrightarrow> a = b"
  by (auto simp: toy_key_def dest: arg_cong[of _ _ hd])

theorem live_quorum_only_tightens_witness:
  "max 2 2 \<le> card (set [toy_key 1, toy_key 2, toy_key 3] \<inter> set [toy_key 1, toy_key 2, toy_key 4]
     \<inter> signers toy_curve toy_hash (toy_request Carry Oracle 5) [toy_sig 1, toy_sig 2])"
proof -
  have "effective_quorum [toy_key 1, toy_key 2, toy_key 3] 2 [toy_key 1, toy_key 2, toy_key 4] 2
      = Inr ([toy_key 1, toy_key 2], 2)"
    by (simp add: effective_quorum_Inr)
  moreover have "verify_approvals toy_curve toy_hash (toy_request Carry Oracle 5) [toy_sig 1, toy_sig 2]
      [toy_key 1, toy_key 2] 2 50 = Inr ()"
    by (simp add: verify_approvals_iff toy_signers) (simp add: toy_request_def)
  ultimately show ?thesis using live_quorum_only_tightens by blast
qed

text \<open>A self-delimiting encoding: a hash that separates its inputs.\<close>

definition enc_nat :: "nat \<Rightarrow> bytes" where
  "enc_nat n = replicate n 1 @ [0]"

definition enc_bytes :: "bytes \<Rightarrow> bytes" where
  "enc_bytes b = enc_nat (length b) @ b"

definition enc_string :: "string \<Rightarrow> bytes" where
  "enc_string s = enc_nat (length s) @ concat (map (\<lambda>c. enc_nat (of_char c)) s)"

lemma enc_nat_cancel [simp]: "enc_nat n @ r = enc_nat m @ r' \<longleftrightarrow> n = m \<and> r = r'"
proof (induction n arbitrary: m)
  case 0
  then show ?case by (cases m) (auto simp: enc_nat_def)
next
  case (Suc n)
  then show ?case by (cases m) (auto simp: enc_nat_def)
qed

lemma enc_bytes_cancel [simp]: "enc_bytes b @ r = enc_bytes c @ r' \<longleftrightarrow> b = c \<and> r = r'"
  by (auto simp: enc_bytes_def)

lemma enc_bytes_inj [simp]: "enc_bytes b = enc_bytes c \<longleftrightarrow> b = c"
  using enc_bytes_cancel[of b "[]" c "[]"] by simp

lemma enc_chars_cancel:
  "length s = length t \<Longrightarrow>
   concat (map (\<lambda>c. enc_nat (of_char c)) s) @ r = concat (map (\<lambda>c. enc_nat (of_char c)) t) @ r'
   \<longleftrightarrow> s = t \<and> r = r'"
  by (induction s t rule: list_induct2) auto

lemma enc_string_cancel [simp]: "enc_string s @ r = enc_string t @ r' \<longleftrightarrow> s = t \<and> r = r'"
  by (auto simp: enc_string_def enc_chars_cancel)

definition enc_hash :: eip712 where
  "enc_hash d a = enc_string (dom_name d) @ enc_string (dom_version d) @ enc_nat (unat (dom_chain_id d))
     @ enc_bytes (sol_pcr0 a) @ enc_nat (unat (sol_version a)) @ enc_nat (unat (sol_mode a))
     @ enc_bytes (sol_label a) @ enc_nat (unat (sol_role a)) @ enc_nat (unat (sol_expiry a))
     @ enc_bytes (sol_nonce a) @ []"

theorem approval_digest_binds_witness:
  "approval_digest enc_hash (toy_request Carry Oracle 5) \<noteq> approval_digest enc_hash (toy_request Carry Bridge 5)"
proof
  assume same: "approval_digest enc_hash (toy_request Carry Oracle 5)
    = approval_digest enc_hash (toy_request Carry Bridge 5)"
  have "d = d' \<and> a = a'" if "enc_hash d a = enc_hash d' a'" for d a d' a'
    using that unfolding enc_hash_def
    by (auto simp: word_unat_eq_iff intro!: SolApproval.equality Eip712Domain.equality)
  from approval_digest_binds[OF this same] show False by (simp add: toy_request_def)
qed

end
