(* ===== verification/Policy.thy ===== *)
theory Policy
  imports Approval
begin

text \<open>
  \<open>crates/keyex/src/policy.rs\<close>: to whom an attested enclave hands its key, and whose
  attestation a fetching enclave accepts. The loop over the approvals is a recursion that
  carries the three flags of the source; the theorems compare it with a declarative matrix.
\<close>

section \<open>Data\<close>

datatype HandoffRefusal =
    PcrMismatchNoApproval
  | FreshNeverHandsOff
  | ChildRequestedByBridge
  | VersionNotNewer
  | CandidateKeyNoHandoff
  | RoleMismatch

datatype KeyDecision = OwnKey | ChildKey bytes | Refuse HandoffRefusal

record ImageIdentity =
  img_pcr0 :: bytes
  img_version :: u64

record VerifiedApproval =
  va_pcr0 :: bytes
  va_version :: u64
  va_mode :: ApprovalMode
  va_label :: bytes
  va_role :: EnclaveRole
  va_expiry :: u64
  va_nonce :: bytes

definition from_request :: "ApprovalRequest \<Rightarrow> VerifiedApproval" where
  "from_request req =
     \<lparr>va_pcr0 = req_pcr0 req, va_version = req_version req, va_mode = req_mode req,
      va_label = req_label req, va_role = req_role req, va_expiry = req_expiry req,
      va_nonce = req_nonce req\<rparr>"

section \<open>The incumbent's decision\<close>

fun handover_loop ::
    "ImageIdentity \<Rightarrow> EnclaveRole \<Rightarrow> bytes \<Rightarrow> bool \<Rightarrow> bool \<Rightarrow> bool \<Rightarrow> VerifiedApproval list \<Rightarrow> KeyDecision" where
  "handover_loop own role peer_pcr0 saw_carry_not_newer saw_fresh saw_role_mismatch [] =
     (if saw_carry_not_newer then Refuse VersionNotNewer
      else if saw_role_mismatch then Refuse RoleMismatch
      else if saw_fresh then Refuse FreshNeverHandsOff
      else Refuse PcrMismatchNoApproval)"
| "handover_loop own role peer_pcr0 saw_carry_not_newer saw_fresh saw_role_mismatch (a # approvals) =
     (if va_pcr0 a \<noteq> peer_pcr0
      then handover_loop own role peer_pcr0 saw_carry_not_newer saw_fresh saw_role_mismatch approvals
      else if va_role a \<noteq> role
      then handover_loop own role peer_pcr0 saw_carry_not_newer saw_fresh True approvals
      else case va_mode a of
        Carry \<Rightarrow>
          if img_version own < va_version a then OwnKey
          else handover_loop own role peer_pcr0 True saw_fresh saw_role_mismatch approvals
      | Child \<Rightarrow>
          (case role of Oracle \<Rightarrow> ChildKey (va_label a) | Bridge \<Rightarrow> Refuse ChildRequestedByBridge)
      | Fresh \<Rightarrow>
          handover_loop own role peer_pcr0 saw_carry_not_newer True saw_role_mismatch approvals)"

definition decide_handover ::
    "ImageIdentity \<Rightarrow> EnclaveRole \<Rightarrow> bytes \<Rightarrow> bool \<Rightarrow> VerifiedApproval list \<Rightarrow> KeyDecision" where
  "decide_handover own role peer_pcr0 own_key_is_candidate approvals =
     (if own_key_is_candidate then Refuse CandidateKeyNoHandoff
      else if peer_pcr0 = img_pcr0 own then OwnKey
      else handover_loop own role peer_pcr0 False False False approvals)"

definition approval_version_matches_new_image :: "u64 \<Rightarrow> u64 \<Rightarrow> bool" where
  "approval_version_matches_new_image approval_version own_version \<longleftrightarrow> approval_version = own_version"

section \<open>The client's decision\<close>

datatype FetchKind = RootFromRoot | BridgeFromBridge | BridgeFromParent

datatype ClientRefusal = ServerPcrNotSelfOrAncestor | ServerPcrNotSelf | ServerPcrNotParentOracle

datatype ClientDecision = Accept | Reject ClientRefusal

definition client_accepts_server :: "FetchKind \<Rightarrow> bytes \<Rightarrow> bytes \<Rightarrow> bytes list \<Rightarrow> ClientDecision" where
  "client_accepts_server kind own_pcr0 server_pcr0 baked_ancestors =
     (case kind of
        RootFromRoot \<Rightarrow>
          if server_pcr0 = own_pcr0 \<or> list_ex (\<lambda>a. a = server_pcr0) baked_ancestors then Accept
          else Reject ServerPcrNotSelfOrAncestor
      | BridgeFromBridge \<Rightarrow>
          if server_pcr0 = own_pcr0 then Accept else Reject ServerPcrNotSelf
      | BridgeFromParent \<Rightarrow>
          if list_ex (\<lambda>a. a = server_pcr0) baked_ancestors then Accept
          else Reject ServerPcrNotParentOracle)"

section \<open>The matrix, declaratively\<close>

text \<open>
  An approval is decisive when it names the peer, is scoped to the enclave's own role, and is
  either a CHILD approval or a CARRY approval to a strictly newer version. The first decisive
  approval settles the matter; without one the key stays, for the most specific reason.
\<close>

definition names :: "bytes \<Rightarrow> VerifiedApproval \<Rightarrow> bool" where
  "names peer a \<longleftrightarrow> va_pcr0 a = peer"

definition decisive :: "ImageIdentity \<Rightarrow> EnclaveRole \<Rightarrow> bytes \<Rightarrow> VerifiedApproval \<Rightarrow> bool" where
  "decisive own role peer a \<longleftrightarrow> names peer a \<and> va_role a = role \<and>
     (va_mode a = Child \<or> va_mode a = Carry \<and> img_version own < va_version a)"

definition handover_matrix ::
    "ImageIdentity \<Rightarrow> EnclaveRole \<Rightarrow> bytes \<Rightarrow> bool \<Rightarrow> VerifiedApproval list \<Rightarrow> KeyDecision" where
  "handover_matrix own role peer candidate approvals =
     (if candidate then Refuse CandidateKeyNoHandoff
      else if peer = img_pcr0 own then OwnKey
      else case find (decisive own role peer) approvals of
        Some a \<Rightarrow> if va_mode a = Carry then OwnKey
                  else if role = Oracle then ChildKey (va_label a) else Refuse ChildRequestedByBridge
      | None \<Rightarrow>
          let mine = filter (\<lambda>a. names peer a \<and> va_role a = role) approvals
          in if list_ex (\<lambda>a. va_mode a = Carry) mine then Refuse VersionNotNewer
             else if list_ex (\<lambda>a. names peer a \<and> va_role a \<noteq> role) approvals then Refuse RoleMismatch
             else if mine \<noteq> [] then Refuse FreshNeverHandsOff
             else Refuse PcrMismatchNoApproval)"

lemma handover_loop_find:
  "handover_loop own role peer c f r as =
   (case find (decisive own role peer) as of
      Some a \<Rightarrow> if va_mode a = Carry then OwnKey
                else if role = Oracle then ChildKey (va_label a) else Refuse ChildRequestedByBridge
    | None \<Rightarrow>
        handover_loop own role peer
          (c \<or> list_ex (\<lambda>a. names peer a \<and> va_role a = role \<and> va_mode a = Carry) as)
          (f \<or> list_ex (\<lambda>a. names peer a \<and> va_role a = role \<and> va_mode a = Fresh) as)
          (r \<or> list_ex (\<lambda>a. names peer a \<and> va_role a \<noteq> role) as) [])"
proof (induction own role peer c f r as rule: handover_loop.induct)
  case (2 own role peer c f r a as)
  note d = decisive_def[of own role peer a] names_def[of peer a]
  show ?case
  proof (cases "decisive own role peer a")
    case True
    then show ?thesis
      using d by (cases role; cases "va_mode a") (auto simp del: handover_loop.simps(1) split: option.splits)
  next
    case False
    then show ?thesis
      using 2 d by (cases "va_mode a") (auto simp del: handover_loop.simps(1) split: option.splits)
  qed
qed simp

lemma no_decisive_mode:
  "find (decisive own role peer) as = None \<Longrightarrow> a \<in> set as \<Longrightarrow> names peer a \<Longrightarrow> va_role a = role \<Longrightarrow>
   va_mode a \<noteq> Child"
  by (auto simp: find_None_iff decisive_def)

text \<open>
  C8. The handover decision, flags and early returns included, is exactly the matrix of the
  design document.
\<close>

theorem decide_handover_is_matrix:
  "decide_handover own role peer candidate approvals = handover_matrix own role peer candidate approvals"
proof (cases "find (decisive own role peer) approvals")
  case (Some a)
  then show ?thesis
    by (simp add: decide_handover_def handover_matrix_def handover_loop_find[of _ _ _ False])
next
  case None
  have "filter (\<lambda>a. names peer a \<and> va_role a = role) approvals \<noteq> [] \<longleftrightarrow>
      list_ex (\<lambda>a. names peer a \<and> va_role a = role \<and> va_mode a = Carry) approvals
      \<or> list_ex (\<lambda>a. names peer a \<and> va_role a = role \<and> va_mode a = Fresh) approvals"
    using no_decisive_mode[OF None] by (auto simp: filter_empty_conv list_ex_iff) (metis ApprovalMode.exhaust)
  with None show ?thesis
    by (auto simp: decide_handover_def handover_matrix_def handover_loop_find[of _ _ _ False]
        list_ex_iff Let_def)
qed

lemma decide_handover_releases:
  assumes "decide_handover own role peer candidate approvals = d" "\<forall>r. d \<noteq> Refuse r"
  shows "\<not> candidate \<and> (peer = img_pcr0 own \<and> d = OwnKey \<or>
    (\<exists>a \<in> set approvals. va_pcr0 a = peer \<and> va_role a = role \<and>
       (va_mode a = Carry \<and> img_version own < va_version a \<and> d = OwnKey
        \<or> va_mode a = Child \<and> role = Oracle \<and> d = ChildKey (va_label a))))"
proof (cases "candidate \<or> peer = img_pcr0 own")
  case False
  with assms obtain a where a: "find (decisive own role peer) approvals = Some a"
    "d = (if va_mode a = Carry then OwnKey
          else if role = Oracle then ChildKey (va_label a) else Refuse ChildRequestedByBridge)"
    by (auto simp: decide_handover_def handover_loop_find[of _ _ _ False] split: option.splits if_splits)
  then have "a \<in> set approvals" "decisive own role peer a"
    by (auto simp: find_Some_iff)
  with a(2) assms(2) False show ?thesis
    by (auto simp: decisive_def names_def split: if_splits)
qed (use assms in \<open>auto simp: decide_handover_def\<close>)

text \<open>
  Key material leaves an enclave only in three cases, never while its key is an
  unregistered candidate: to its own image; to an image for which the owners approved a CARRY
  to a strictly newer version, scoped to this role; and, from an oracle only, as the child key
  whose label an owner approval for that image and role names.
\<close>

theorem handover_authorised:
  assumes "decide_handover own role peer candidate approvals = d" "\<forall>r. d \<noteq> Refuse r"
  shows "\<not> candidate \<and> (peer = img_pcr0 own \<and> d = OwnKey \<or>
    (\<exists>a \<in> set approvals. va_pcr0 a = peer \<and> va_role a = role \<and>
       (va_mode a = Carry \<and> img_version own < va_version a \<and> d = OwnKey
        \<or> va_mode a = Child \<and> role = Oracle \<and> d = ChildKey (va_label a))))"
  using decide_handover_releases[OF assms] .

definition toy_image :: "u8 \<Rightarrow> u64 \<Rightarrow> ImageIdentity" where
  "toy_image n v = \<lparr>img_pcr0 = replicate 48 n, img_version = v\<rparr>"

theorem handover_authorised_witness:
  "\<exists>a \<in> set [from_request (toy_request Child Oracle 5)].
     va_mode a = Child \<and> ChildKey (replicate 32 1) = ChildKey (va_label a)"
proof -
  have "decide_handover (toy_image 3 4) Oracle (replicate 48 9) False [from_request (toy_request Child Oracle 5)]
      = ChildKey (replicate 32 1)"
    by code_simp
  from handover_authorised[OF this] show ?thesis by (simp add: toy_image_def)
qed

text \<open>
  Which servers a fetching enclave accepts: an oracle only its own measurement or a baked
  ancestor, a bridge peer only its own measurement, and a bridge fetching from its parent only
  a baked parent measurement, so with an empty list no parent at all.
\<close>

theorem client_accepts_server_exact:
  "(client_accepts_server RootFromRoot own server anc = Accept \<longleftrightarrow> server \<in> insert own (set anc))
   \<and> (client_accepts_server BridgeFromBridge own server anc = Accept \<longleftrightarrow> server = own)
   \<and> (client_accepts_server BridgeFromParent own server anc = Accept \<longleftrightarrow> server \<in> set anc)"
  by (auto simp: client_accepts_server_def list_ex_iff)

end
