(* ===== verification/Boot.thy ===== *)
theory Boot
  imports Chain Policy Runs
begin

text \<open>
  \<open>crates/keyex/src/boot.rs\<close> and \<open>driver.rs\<close>: how an enclave comes to hold a key.

  The registry is a record of two reads, the trait \<open>ChainView\<close>; \<open>rpc_view\<close> builds it from a
  transport. Fetching from a peer and drawing a candidate from the hardware are parameters of
  \<open>step\<close>. All of them act on one arbitrary state \<open>'s\<close>, so every call may be answered
  differently. The retry loop has no bound, and is a partial function.
\<close>

section \<open>The registry as boot sees it\<close>

record 's chain_view =
  registered :: "address \<Rightarrow> ('s, bool) read"
  view_signer_count :: "('s, u256) read"

definition rpc_view :: "codec \<Rightarrow> 's transport \<Rightarrow> address \<Rightarrow> Registry \<Rightarrow> Finality \<Rightarrow> 's chain_view" where
  "rpc_view C transport registry kind finality =
     \<lparr>registered = (\<lambda>who. is_valid_signer C transport registry kind who finality),
      view_signer_count = signer_count C transport registry finality\<rparr>"

section \<open>One decision\<close>

datatype Role = RoleOracle | RoleBridge

datatype BootAction = InstallPeerKey address | GenerateCandidate | InstallCandidate | Wait

record Tick =
  tick_role :: Role
  tick_sweep :: "address list"
  tick_fresh_approved :: bool
  tick_candidate :: "address option"

fun first_registered :: "'s chain_view \<Rightarrow> address list \<Rightarrow> ('s, address option) read" where
  "first_registered view [] = read_ok None"
| "first_registered view (addr # sweep) =
     read_bind (registered view addr) (\<lambda>r.
     if r then read_ok (Some addr) else first_registered view sweep)"

definition tick :: "Tick \<Rightarrow> 's chain_view \<Rightarrow> ('s, BootAction) read" where
  "tick t view =
     read_bind (first_registered view (tick_sweep t)) (\<lambda>found.
     case found of
       Some addr \<Rightarrow> read_ok (InstallPeerKey addr)
     | None \<Rightarrow>
         (case tick_role t of
            RoleBridge \<Rightarrow>
              read_ok (case first (tick_sweep t) of Some addr \<Rightarrow> InstallPeerKey addr | None \<Rightarrow> Wait)
          | RoleOracle \<Rightarrow>
              (case tick_candidate t of
                 Some candidate \<Rightarrow>
                   read_bind (registered view candidate) (\<lambda>r.
                   read_ok (if r then InstallCandidate else Wait))
               | None \<Rightarrow>
                   read_bind (if tick_fresh_approved t then read_ok True
                              else read_bind (view_signer_count view) (\<lambda>n. read_ok (n = 0))) (\<lambda>eligible.
                   read_ok (if eligible then GenerateCandidate else Wait)))))"

section \<open>One iteration\<close>

record 'k FetchedKey =
  fk_address :: address
  fk_key :: 'k

record BootDeps =
  deps_role :: Role
  deps_peers :: "(string \<times> FetchKind) list"
  deps_fresh_approved :: bool

text \<open>The state carried across ticks is the candidate: an address and its key.\<close>

type_synonym 'k BootLoopState = "(address \<times> 'k) option"

datatype 'k Installed = InstalledPeer address 'k | InstalledCandidate 'k

datatype 'k StepOutcome = Continue | Done "'k Installed"

datatype StepError = RegistryRead ChainError | AbsentFromSweep | GenesisFailed | NoHeldCandidate

type_synonym ('k, 's) peer_source = "string \<Rightarrow> FetchKind \<Rightarrow> 's \<Rightarrow> (unit + 'k FetchedKey option) \<times> 's"

type_synonym ('k, 's) genesis = "'s \<Rightarrow> 'k option \<times> 's"

fun fetch_all ::
    "('k, 's) peer_source \<Rightarrow> (string \<times> FetchKind) list \<Rightarrow> 's \<Rightarrow> 'k FetchedKey list \<times> 's" where
  "fetch_all fetch [] s = ([], s)"
| "fetch_all fetch ((endpoint, kind) # peers) s =
     (let (r, s1) = fetch endpoint kind s; (fks, s2) = fetch_all fetch peers s1
      in ((case r of Inr (Some fk) \<Rightarrow> fk # fks | Inr None \<Rightarrow> fks | Inl _ \<Rightarrow> fks), s2))"

definition step ::
    "('g, 'v, 'k) ecdsa \<Rightarrow> BootDeps \<Rightarrow> ('k, 's) peer_source \<Rightarrow> 's chain_view \<Rightarrow> ('k, 's) genesis
     \<Rightarrow> 'k BootLoopState \<Rightarrow> 's \<Rightarrow> (StepError, 'k StepOutcome) res \<times> 'k BootLoopState \<times> 's" where
  "step E deps fetch view genesis loop_state s =
     (let (fetched, s1) = fetch_all fetch (deps_peers deps) s;
          t = \<lparr>tick_role = deps_role deps, tick_sweep = map fk_address fetched,
               tick_fresh_approved = deps_fresh_approved deps,
               tick_candidate = map_option fst loop_state\<rparr>
      in case tick t view s1 of
           (Inl e, s2) \<Rightarrow> (Inl (RegistryRead e), loop_state, s2)
         | (Inr (InstallPeerKey addr), s2) \<Rightarrow>
             (case find (\<lambda>f. fk_address f = addr) fetched of
                None \<Rightarrow> (Inl AbsentFromSweep, loop_state, s2)
              | Some fk \<Rightarrow> (Inr (Done (InstalledPeer (fk_address fk) (fk_key fk))), loop_state, s2))
         | (Inr GenerateCandidate, s2) \<Rightarrow>
             (case genesis s2 of
                (None, s3) \<Rightarrow> (Inl GenesisFailed, loop_state, s3)
              | (Some key, s3) \<Rightarrow>
                  (Inr Continue, Some (address_from_key E (verifying_key E key), key), s3))
         | (Inr InstallCandidate, s2) \<Rightarrow>
             (case loop_state of
                None \<Rightarrow> (Inl NoHeldCandidate, None, s2)
              | Some (_, key) \<Rightarrow> (Inr (Done (InstalledCandidate key)), None, s2))
         | (Inr Wait, s2) \<Rightarrow> (Inr Continue, loop_state, s2))"

section \<open>The retry loop\<close>

partial_function (option) run_boot_from ::
    "('g, 'v, 'k) ecdsa \<Rightarrow> BootDeps \<Rightarrow> ('k, 's) peer_source \<Rightarrow> 's chain_view \<Rightarrow> ('k, 's) genesis
     \<Rightarrow> ('s \<Rightarrow> 's) \<Rightarrow> 'k BootLoopState \<Rightarrow> 's \<Rightarrow> ('k Installed \<times> 's) option" where
  "run_boot_from E deps fetch view genesis wait loop_state s =
     (case step E deps fetch view genesis loop_state s of
        (Inr (Done installed), ls, s') \<Rightarrow> Some (installed, s')
      | (Inr Continue, ls, s') \<Rightarrow> run_boot_from E deps fetch view genesis wait ls (wait s')
      | (Inl e, ls, s') \<Rightarrow> run_boot_from E deps fetch view genesis wait ls (wait s'))"

definition run_boot ::
    "('g, 'v, 'k) ecdsa \<Rightarrow> BootDeps \<Rightarrow> ('k, 's) peer_source \<Rightarrow> 's chain_view \<Rightarrow> ('k, 's) genesis
     \<Rightarrow> ('s \<Rightarrow> 's) \<Rightarrow> 's \<Rightarrow> ('k Installed \<times> 's) option" where
  "run_boot E deps fetch view genesis wait s = run_boot_from E deps fetch view genesis wait None s"

section \<open>What a decision means\<close>

text \<open>At some moment the registry answered that it lists this address.\<close>

definition seen_registered :: "'s chain_view \<Rightarrow> address \<Rightarrow> bool" where
  "seen_registered view a \<longleftrightarrow> (\<exists>s s'. registered view a s = (Inr True, s'))"

lemma first_registered_Some:
  "first_registered view sweep s = (Inr (Some a), s') \<Longrightarrow> a \<in> set sweep \<and> seen_registered view a"
  by (induction sweep arbitrary: s) (auto simp: seen_registered_def split: if_splits)

text \<open>Every address of the sweep was asked about, and each was reported unlisted.\<close>

lemma first_registered_None:
  "first_registered view sweep s = (Inr None, s') \<Longrightarrow> a \<in> set sweep \<Longrightarrow>
   \<exists>s1 s2. registered view a s1 = (Inr False, s2)"
proof (induction sweep arbitrary: s)
  case (Cons b sweep)
  then obtain j where "registered view b s = (Inr False, j)" "first_registered view sweep j = (Inr None, s')"
    by (auto split: if_splits)
  with Cons show ?case by (cases "a = b") (blast, simp)
qed simp

lemma tick_cases:
  assumes "tick t view s = (Inr act, s')"
  shows "case act of
      InstallPeerKey a \<Rightarrow> a \<in> set (tick_sweep t) \<and> (tick_role t = RoleOracle \<longrightarrow> seen_registered view a)
    | InstallCandidate \<Rightarrow> tick_role t = RoleOracle \<and> (\<exists>c. tick_candidate t = Some c \<and> seen_registered view c)
    | GenerateCandidate \<Rightarrow> tick_role t = RoleOracle \<and> tick_candidate t = None
        \<and> (\<forall>a \<in> set (tick_sweep t). \<exists>s1 s2. registered view a s1 = (Inr False, s2))
        \<and> (tick_fresh_approved t \<or> (\<exists>s1 s2. view_signer_count view s1 = (Inr 0, s2)))
    | Wait \<Rightarrow> True"
proof -
  obtain found s1 where f: "first_registered view (tick_sweep t) s = (Inr found, s1)"
    using assms by (auto simp: tick_def)
  show ?thesis
  proof (cases found)
    case (Some a)
    with assms f have "act = InstallPeerKey a" by (auto simp: tick_def)
    with first_registered_Some[OF f[unfolded Some]] show ?thesis by simp
  next
    case None
    note n = first_registered_None[OF f[unfolded None]]
    show ?thesis
    proof (cases "tick_role t")
      case RoleBridge
      with assms f None show ?thesis
        by (cases "tick_sweep t") (auto simp: tick_def)
    next
      case RoleOracle
      show ?thesis
      proof (cases "tick_candidate t")
        case (Some c)
        with assms f None RoleOracle obtain r where "registered view c s1 = (Inr r, s')"
          "act = (if r then InstallCandidate else Wait)" by (auto simp: tick_def)
        then have "act = Wait \<or> act = InstallCandidate \<and> seen_registered view c"
          unfolding seen_registered_def by (cases r) auto
        with Some RoleOracle show ?thesis by auto
      next
        case no: None
        with assms f None RoleOracle have "act = Wait \<or> act = GenerateCandidate \<and>
            (tick_fresh_approved t \<or> view_signer_count view s1 = (Inr 0, s'))"
          by (auto simp: tick_def split: if_splits)
        with no n RoleOracle show ?thesis by auto
      qed
    qed
  qed
qed

section \<open>What an iteration does\<close>

definition fetched_from :: "('k, 's) peer_source \<Rightarrow> (string \<times> FetchKind) list \<Rightarrow> 'k FetchedKey \<Rightarrow> bool" where
  "fetched_from fetch peers fk \<longleftrightarrow>
     (\<exists>endpoint kind s s'. (endpoint, kind) \<in> set peers \<and> fetch endpoint kind s = (Inr (Some fk), s'))"

lemma fetch_all_from: "fetch_all fetch peers s = (fks, s') \<Longrightarrow> fk \<in> set fks \<Longrightarrow> fetched_from fetch peers fk"
proof (induction fetch peers s arbitrary: fks s' rule: fetch_all.induct)
  case (2 fetch endpoint kind peers s)
  obtain r s1 where r: "fetch endpoint kind s = (r, s1)" by (cases "fetch endpoint kind s")
  obtain gs s2 where g: "fetch_all fetch peers s1 = (gs, s2)" by (cases "fetch_all fetch peers s1")
  from 2(3) r g 2(2) have "fk \<in> set gs \<or> r = Inr (Some fk)"
    by (auto split: sum.splits option.splits)
  then show ?case
  proof
    assume "fk \<in> set gs"
    from 2(1)[OF r[symmetric] refl g this] show ?thesis unfolding fetched_from_def by auto
  next
    assume "r = Inr (Some fk)"
    then show ?thesis using r unfolding fetched_from_def by auto
  qed
qed simp

definition drawn :: "('k, 's) genesis \<Rightarrow> 'k \<Rightarrow> bool" where
  "drawn genesis k \<longleftrightarrow> (\<exists>s s'. genesis s = (Some k, s'))"

lemma drawnI: "genesis s = (Some k, s') \<Longrightarrow> drawn genesis k"
  unfolding drawn_def by blast

definition candidate_ok :: "('g, 'v, 'k) ecdsa \<Rightarrow> BootDeps \<Rightarrow> ('k, 's) genesis \<Rightarrow> 'k BootLoopState \<Rightarrow> bool" where
  "candidate_ok E deps genesis ls \<longleftrightarrow>
     (\<forall>a k. ls = Some (a, k) \<longrightarrow> deps_role deps = RoleOracle
        \<and> a = address_from_key E (verifying_key E k) \<and> drawn genesis k)"

definition install_ok ::
    "('g, 'v, 'k) ecdsa \<Rightarrow> BootDeps \<Rightarrow> ('k, 's) peer_source \<Rightarrow> 's chain_view \<Rightarrow> ('k, 's) genesis \<Rightarrow> 'k Installed \<Rightarrow> bool" where
  "install_ok E deps fetch view genesis i \<longleftrightarrow>
     (case i of
        InstalledPeer a k \<Rightarrow> fetched_from fetch (deps_peers deps) \<lparr>fk_address = a, fk_key = k\<rparr>
          \<and> (deps_role deps = RoleOracle \<longrightarrow> seen_registered view a)
      | InstalledCandidate k \<Rightarrow> deps_role deps = RoleOracle \<and> drawn genesis k
          \<and> seen_registered view (address_from_key E (verifying_key E k)))"

lemma step_ok:
  assumes ok: "candidate_ok E deps genesis ls"
    and st: "step E deps fetch view genesis ls s = (r, ls', s')"
  shows "candidate_ok E deps genesis ls'"
    and "r = Inr (Done i) \<Longrightarrow> install_ok E deps fetch view genesis i"
    and "r \<noteq> Inl AbsentFromSweep" "r \<noteq> Inl NoHeldCandidate"
proof -
  obtain fks s1 where f: "fetch_all fetch (deps_peers deps) s = (fks, s1)" by (cases "fetch_all fetch (deps_peers deps) s")
  let ?t = "\<lparr>tick_role = deps_role deps, tick_sweep = map fk_address fks,
      tick_fresh_approved = deps_fresh_approved deps, tick_candidate = map_option fst ls\<rparr>"
  obtain a s2 where t: "tick ?t view s1 = (a, s2)" by (cases "tick ?t view s1")
  have "candidate_ok E deps genesis ls' \<and> (\<forall>i. r = Inr (Done i) \<longrightarrow> install_ok E deps fetch view genesis i)
      \<and> r \<noteq> Inl AbsentFromSweep \<and> r \<noteq> Inl NoHeldCandidate"
  proof (cases a)
    case (Inl e)
    with st f t ok show ?thesis by (auto simp: step_def Let_def)
  next
    case (Inr act)
    note c = tick_cases[OF t[unfolded Inr]]
    show ?thesis
    proof (cases act)
      case (InstallPeerKey addr)
      with c have "find (\<lambda>f. fk_address f = addr) fks \<noteq> None" by (auto simp: find_None_iff)
      then obtain fk where fk: "find (\<lambda>f. fk_address f = addr) fks = Some fk" by blast
      then have m: "fk \<in> set fks" "fk_address fk = addr" by (auto simp: find_Some_iff)
      have "fetched_from fetch (deps_peers deps) \<lparr>fk_address = fk_address fk, fk_key = fk_key fk\<rparr>"
        using fetch_all_from[OF f m(1)] by (cases fk) simp
      with st f t Inr InstallPeerKey fk m(2) c ok show ?thesis
        by (auto simp: step_def Let_def install_ok_def)
    next
      case GenerateCandidate
      with st f t Inr c ok show ?thesis
        by (auto simp: step_def Let_def candidate_ok_def intro: drawnI split: prod.splits option.splits)
    next
      case InstallCandidate
      then obtain addr k where "ls = Some (addr, k)" "deps_role deps = RoleOracle" "seen_registered view addr"
        using c by auto
      with st f t Inr InstallCandidate ok show ?thesis
        by (auto simp: step_def Let_def candidate_ok_def install_ok_def)
    next
      case Wait
      with st f t Inr ok show ?thesis by (auto simp: step_def Let_def)
    qed
  qed
  then show "candidate_ok E deps genesis ls'" "r = Inr (Done i) \<Longrightarrow> install_ok E deps fetch view genesis i"
    "r \<noteq> Inl AbsentFromSweep" "r \<noteq> Inl NoHeldCandidate" by blast+
qed

text \<open>
  One boot iteration never fails with either of its two internal errors, starting from the
  empty state or from a candidate it generated: the address the rules pick is always one that
  was fetched, and a candidate is only installed when one is held.
\<close>

theorem step_no_internal_error:
  assumes "candidate_ok E deps genesis ls"
  shows "fst (step E deps fetch view genesis ls s) \<notin> {Inl AbsentFromSweep, Inl NoHeldCandidate}"
proof -
  obtain r ls' s' where st: "step E deps fetch view genesis ls s = (r, ls', s')"
    by (cases "step E deps fetch view genesis ls s")
  show ?thesis using step_ok(3,4)[OF assms st] st by simp
qed

section \<open>What boot installs\<close>

lemma run_boot_from_ok:
  assumes "run_boot_from E deps fetch view genesis wait ls s = Some (i, s')" "candidate_ok E deps genesis ls"
  shows "install_ok E deps fetch view genesis i"
proof -
  have "candidate_ok E deps genesis ls \<longrightarrow> install_ok E deps fetch view genesis (fst y)"
    if "run_boot_from E deps fetch view genesis wait ls s = Some y" for y
    using that
  proof (rule run_boot_from.raw_induct[where P = "\<lambda>E deps fetch view genesis wait ls s y.
      candidate_ok E deps genesis ls \<longrightarrow> install_ok E deps fetch view genesis (fst y)", rotated])
    fix run and E :: "('g, 'v, 'k) ecdsa" and deps and fetch :: "('k, 's) peer_source"
      and view genesis wait ls s y
    assume ih: "\<And>E deps fetch view genesis wait ls s y. run E deps fetch view genesis wait ls s = Some y \<Longrightarrow>
        candidate_ok E deps genesis ls \<longrightarrow> install_ok E deps fetch view genesis (fst y)"
      and eq: "(case step E deps fetch view genesis ls s of
          (Inl e, ls', s') \<Rightarrow> run E deps fetch view genesis wait ls' (wait s')
        | (Inr Continue, ls', s') \<Rightarrow> run E deps fetch view genesis wait ls' (wait s')
        | (Inr (Done installed), ls', s') \<Rightarrow> Some (installed, s')) = Some y"
    obtain r ls' s1 where st: "step E deps fetch view genesis ls s = (r, ls', s1)"
      by (cases "step E deps fetch view genesis ls s")
    show "candidate_ok E deps genesis ls \<longrightarrow> install_ok E deps fetch view genesis (fst y)"
    proof
      assume ok: "candidate_ok E deps genesis ls"
      note so = step_ok(1,2)[OF ok st]
      show "install_ok E deps fetch view genesis (fst y)"
      proof (cases "\<exists>i. r = Inr (Done i)")
        case True
        with eq st so(2) show ?thesis by auto
      next
        case False
        then have "run E deps fetch view genesis wait ls' (wait s1) = Some y"
          using eq st by (auto split: sum.splits StepOutcome.splits)
        with ih so(1) show ?thesis by blast
      qed
    qed
  qed
  from this[OF assms(1)] assms(2) show ?thesis by simp
qed

text \<open>
  C12. What boot can install. An oracle that boots holds either a key fetched from one of its
  configured peers or a candidate drawn from its own hardware, and in both cases the registry
  answered that it lists that key's address. A bridge holds a key fetched from one of its
  configured parents, and never one it drew itself.
\<close>

theorem run_boot_installs:
  assumes "run_boot E deps fetch view genesis wait s = Some (i, s')"
  shows "(case i of
      InstalledPeer a k \<Rightarrow>
        (\<exists>endpoint kind t t'. (endpoint, kind) \<in> set (deps_peers deps)
           \<and> fetch endpoint kind t = (Inr (Some \<lparr>fk_address = a, fk_key = k\<rparr>), t'))
        \<and> (deps_role deps = RoleOracle \<longrightarrow> (\<exists>t t'. registered view a t = (Inr True, t')))
    | InstalledCandidate k \<Rightarrow>
        deps_role deps = RoleOracle \<and> (\<exists>t t'. genesis t = (Some k, t'))
        \<and> (\<exists>t t'. registered view (address_from_key E (verifying_key E k)) t = (Inr True, t')))"
proof -
  have "candidate_ok E deps genesis None" by (simp add: candidate_ok_def)
  with assms have "install_ok E deps fetch view genesis i"
    unfolding run_boot_def by (rule run_boot_from_ok)
  then show ?thesis
    unfolding install_ok_def fetched_from_def seen_registered_def drawn_def .
qed

section \<open>Boot is live\<close>

lemma fetch_all_mem:
  assumes "(endpoint, kind) \<in> set peers" "\<And>t. \<exists>t'. fetch endpoint kind t = (Inr (Some fk), t')"
  shows "fk \<in> set (fst (fetch_all fetch peers s))"
  using assms(1)
proof (induction peers arbitrary: s)
  case (Cons p peers)
  obtain e k where p: "p = (e, k)" by (cases p)
  obtain r s1 where r: "fetch e k s = (r, s1)" by (cases "fetch e k s")
  obtain gs s2 where g: "fetch_all fetch peers s1 = (gs, s2)" by (cases "fetch_all fetch peers s1")
  show ?case
  proof (cases "p = (endpoint, kind)")
    case True
    then have "r = Inr (Some fk)" using assms(2)[of s] r p by auto
    then show ?thesis using p r g by simp
  next
    case False
    then have "fk \<in> set gs" using Cons g by (metis fst_conv set_ConsD)
    then show ?thesis using p r g by (auto split: sum.splits option.splits)
  qed
qed simp

lemma first_registered_live:
  assumes "\<And>a t. \<exists>b t'. registered view a t = (Inr b, t')"
    and "\<And>t. \<exists>t'. registered view good t = (Inr True, t')" "good \<in> set sweep"
  shows "\<exists>a s'. first_registered view sweep s = (Inr (Some a), s')"
  using assms(3)
proof (induction sweep arbitrary: s)
  case (Cons x sweep)
  obtain b s1 where b: "registered view x s = (Inr b, s1)" using assms(1) by blast
  show ?case
  proof (cases b)
    case True
    then show ?thesis using b by auto
  next
    case False
    then have "x \<noteq> good" using assms(2)[of s] b by auto
    then have "good \<in> set sweep" using Cons(2) by simp
    then obtain a s' where "first_registered view sweep s1 = (Inr (Some a), s')" using Cons(1) by blast
    then show ?thesis using b False by auto
  qed
qed simp


text \<open>A mate that is listed, for the witnesses.\<close>

definition demo_deps :: "Role \<Rightarrow> BootDeps" where
  "demo_deps r = \<lparr>deps_role = r, deps_peers = [(''a'', RootFromRoot)], deps_fresh_approved = False\<rparr>"

definition demo_fetch :: "(bytes, nat) peer_source" where
  "demo_fetch e k s = (Inr (Some \<lparr>fk_address = toy_key 7, fk_key = toy_key 7\<rparr>), Suc s)"

definition demo_view :: "nat chain_view" where
  "demo_view = \<lparr>registered = (\<lambda>a s. (Inr True, Suc s)), view_signer_count = (\<lambda>s. (Inr 1, Suc s))\<rparr>"

lemma demo_view_True: "\<exists>t'. registered demo_view a t = (Inr True, t')"
  by (simp add: demo_view_def)


theorem step_no_internal_error_witness:
  "fst (step toy_curve (demo_deps RoleOracle) demo_fetch demo_view (\<lambda>s. (None, s)) None 0)
     \<notin> {Inl AbsentFromSweep, Inl NoHeldCandidate}"
  by (rule step_no_internal_error) (simp add: candidate_ok_def)

theorem run_boot_installs_witness:
  "\<exists>t t'. registered demo_view (toy_key 7) t = (Inr True, t')"
proof -
  have "run_boot toy_curve (demo_deps RoleOracle) demo_fetch demo_view (\<lambda>s. (None, s)) Suc 0
      = Some (InstalledPeer (toy_key 7) (toy_key 7), 2)"
    unfolding run_boot_def
    by (subst run_boot_from.simps) (simp add: step_def demo_deps_def demo_fetch_def tick_def demo_view_def
        read_bind_def read_ok_def Let_def)
  from run_boot_installs[OF this] show ?thesis by (simp add: demo_deps_def)
qed

end
