(* ===== verification/Attestation.thy ===== *)
theory Attestation
  imports Prelude
begin

text \<open>
  \<open>crates/nitro-common/src/attest.rs\<close> and \<open>verify.rs\<close>: decoding a Nitro attestation
  document and verifying it down to the pinned root.

  What the crates behind it do is the record \<open>nitro_crypto\<close>: CBOR decoding and encoding, the
  X.509 parser, P-384 verification and keccak. Everything the two files do themselves is a
  definition here, including the DER reader of certificate signatures, whose position
  argument is returned updated. Errors carry no data the callers read, so fallible functions
  return an option.
\<close>

section \<open>Documents\<close>

text \<open>CBOR values; a map is the list of its entries, whose keys the decoder keeps distinct.\<close>

datatype Cbor =
    CNull | CBool bool | CInteger int | CFloat u64 | CBytes bytes | CText string
  | CArray "Cbor list" | CMap "(Cbor \<times> Cbor) list" | CTag u64 Cbor

record AttestationDoc =
  doc_module_id :: string
  doc_digest :: string
  doc_timestamp :: u64
  doc_pcrs :: "nat \<rightharpoonup> bytes"
  doc_public_key :: "bytes option"
  doc_user_data :: "bytes option"
  doc_nonce :: "bytes option"
  doc_certificate :: bytes
  doc_cabundle :: "bytes list"

text \<open>
  A parsed certificate. An extension is absent, present, or fails to decode (\<open>None\<close>). The
  validity bounds are seconds since the epoch.
\<close>

record cert =
  cert_not_before :: u64
  cert_not_after :: u64
  cert_basic_constraints :: "bool option option"
  cert_key_usage :: "bool option option"
  cert_tbs_der :: "bytes option"
  cert_signature :: bytes
  cert_spki :: bytes

record nitro_crypto =
  cbor_from_slice :: "bytes \<Rightarrow> Cbor option"
  cbor_to_vec :: "Cbor \<Rightarrow> bytes option"
  cert_from_der :: "bytes \<Rightarrow> cert option"
  p384_key :: "bytes \<Rightarrow> bool"
  p384_signature :: "bytes \<Rightarrow> bool"
  p384_verify :: "bytes \<Rightarrow> bytes \<Rightarrow> bytes \<Rightarrow> bool"
  nitro_keccak :: "bytes \<Rightarrow> bytes"

definition field :: "(Cbor \<times> Cbor) list \<Rightarrow> string \<Rightarrow> Cbor option" where
  "field m key = map_of m (CText key)"

definition text_of :: "(Cbor \<times> Cbor) list \<Rightarrow> string \<Rightarrow> string option" where
  "text_of m key = (case field m key of Some (CText s) \<Rightarrow> Some s | _ \<Rightarrow> None)"

definition u64_of :: "(Cbor \<times> Cbor) list \<Rightarrow> string \<Rightarrow> u64 option" where
  "u64_of m key =
     (case field m key of
        Some (CInteger i) \<Rightarrow> if 0 \<le> i \<and> i \<le> 2 ^ 64 - 1 then Some (of_int i) else None
      | _ \<Rightarrow> None)"

definition optional_bytes :: "(Cbor \<times> Cbor) list \<Rightarrow> string \<Rightarrow> bytes option" where
  "optional_bytes m key = (case field m key of Some (CBytes b) \<Rightarrow> Some b | _ \<Rightarrow> None)"

fun parse_pcrs :: "(Cbor \<times> Cbor) list \<Rightarrow> (nat \<rightharpoonup> bytes) \<Rightarrow> (nat \<rightharpoonup> bytes) option" where
  "parse_pcrs [] pcrs = Some pcrs"
| "parse_pcrs ((CInteger i, CBytes b) # m) pcrs =
     (if 0 \<le> i \<and> i \<le> 65535 then parse_pcrs m (pcrs(nat i \<mapsto> b)) else None)"
| "parse_pcrs (_ # m) pcrs = None"

fun bytes_list :: "Cbor list \<Rightarrow> bytes list option" where
  "bytes_list [] = Some []"
| "bytes_list (CBytes b # vs) = map_option ((#) b) (bytes_list vs)"
| "bytes_list (_ # vs) = None"

definition parse_attestation_doc :: "nitro_crypto \<Rightarrow> bytes \<Rightarrow> AttestationDoc option" where
  "parse_attestation_doc N cose_sign1 =
     (case cbor_from_slice N cose_sign1 of
        Some (CArray [_, _, CBytes payload, _]) \<Rightarrow>
     (case cbor_from_slice N payload of
        Some (CMap m) \<Rightarrow>
     (case (text_of m ''module_id'', text_of m ''digest'', u64_of m ''timestamp'') of
        (Some module_id, Some digest, Some timestamp) \<Rightarrow>
     (case field m ''pcrs'' of
        Some (CMap pcrs_map) \<Rightarrow>
     (case parse_pcrs pcrs_map Map.empty of
        None \<Rightarrow> None
      | Some pcrs \<Rightarrow>
     (case (field m ''certificate'', field m ''cabundle'') of
        (Some (CBytes certificate), Some (CArray a)) \<Rightarrow>
          map_option (\<lambda>cabundle.
            \<lparr>doc_module_id = module_id, doc_digest = digest, doc_timestamp = timestamp, doc_pcrs = pcrs,
             doc_public_key = optional_bytes m ''public_key'', doc_user_data = optional_bytes m ''user_data'',
             doc_nonce = optional_bytes m ''nonce'', doc_certificate = certificate, doc_cabundle = cabundle\<rparr>)
            (bytes_list a)
      | _ \<Rightarrow> None))
      | _ \<Rightarrow> None)
      | _ \<Rightarrow> None)
      | _ \<Rightarrow> None)
      | _ \<Rightarrow> None)"

section \<open>Semantic checks\<close>

definition PCR_LEN :: nat where "PCR_LEN = 48"
definition COSE_ALG_ES384 :: int where "COSE_ALG_ES384 = - 35"
definition CLOCK_SKEW_SECS :: u64 where "CLOCK_SKEW_SECS = 300"

unbundle bit_operations_syntax

fun ct_diff :: "u8 \<Rightarrow> bytes \<Rightarrow> bytes \<Rightarrow> u8" where
  "ct_diff diff (x # a) (y # b) = ct_diff (diff OR (x XOR y)) a b"
| "ct_diff diff _ _ = diff"

definition ct_eq :: "bytes \<Rightarrow> bytes \<Rightarrow> bool" where
  "ct_eq a b = (if length a \<noteq> length b then False else ct_diff 0 a b = 0)"

definition pcr_ok :: "AttestationDoc \<Rightarrow> nat \<Rightarrow> bool" where
  "pcr_ok doc idx = (case doc_pcrs doc idx of Some p \<Rightarrow> length p = PCR_LEN | None \<Rightarrow> False)"

definition semantic_checks :: "AttestationDoc \<Rightarrow> bytes option \<Rightarrow> bool" where
  "semantic_checks doc expected_nonce \<longleftrightarrow>
     doc_digest doc = ''SHA384''
     \<and> list_all (pcr_ok doc) [0, 1, 2]
     \<and> (case doc_public_key doc of Some pk \<Rightarrow> length pk = 65 \<and> pk ! 0 = 0x04 | None \<Rightarrow> False)
     \<and> (case expected_nonce of
          None \<Rightarrow> True
        | Some expected \<Rightarrow> (case doc_nonce doc of Some n \<Rightarrow> ct_eq n expected | None \<Rightarrow> False))"

definition sat_add :: "'a::len word \<Rightarrow> 'a word \<Rightarrow> 'a word" where
  "sat_add a b = (if a + b < a then - 1 else a + b)"

definition check_freshness :: "u64 \<Rightarrow> u64 \<Rightarrow> u64 \<Rightarrow> bool" where
  "check_freshness ts_millis now_secs max_age_secs =
     (let ts_secs = ts_millis div 1000 in
      if ts_secs > sat_add now_secs CLOCK_SKEW_SECS then False
      else sat_sub now_secs ts_secs \<le> max_age_secs)"

section \<open>DER signatures\<close>

fun der_len_bytes :: "bytes \<Rightarrow> nat \<Rightarrow> nat \<Rightarrow> nat \<Rightarrow> (nat \<times> nat) option" where
  "der_len_bytes der p 0 len = Some (len, p)"
| "der_len_bytes der p (Suc n) len =
     (if p < length der then der_len_bytes der (p + 1) n (len * 256 + unat (der ! p)) else None)"

definition read_der_len :: "bytes \<Rightarrow> nat \<Rightarrow> (nat \<times> nat) option" where
  "read_der_len der p =
     (if p < length der then
        let head = der ! p; p = p + 1 in
        if head < 0x80 then Some (unat head, p)
        else let n = unat (head AND 0x7f) in
          if n = 0 \<or> n > 4 then None else der_len_bytes der p n 0
      else None)"

definition read_der_int :: "bytes \<Rightarrow> nat \<Rightarrow> nat \<Rightarrow> (bytes \<times> nat) option" where
  "read_der_int der p limit =
     (if p < length der \<and> der ! p = 0x02 then
        (case read_der_len der (p + 1) of
           None \<Rightarrow> None
         | Some (len, start) \<Rightarrow>
             let stop = start + len in
             if stop > limit then None
             else let b = take len (drop start der) in
               Some (if first b = Some 0 \<and> length b > 1 then drop 1 b else b, stop))
      else None)"

definition left_pad :: "nat \<Rightarrow> bytes \<Rightarrow> bytes option" where
  "left_pad n src = (if length src > n then None else Some (replicate (n - length src) 0 @ src))"

definition ecdsa_der_to_fixed :: "bytes \<Rightarrow> bytes option" where
  "ecdsa_der_to_fixed der =
     (if first der = Some 0x30 then
        (case read_der_len der 1 of
           None \<Rightarrow> None
         | Some (seq_len, p) \<Rightarrow>
             let seq_end = p + seq_len in
             if seq_end > length der then None
             else
        (case read_der_int der p seq_end of
           None \<Rightarrow> None
         | Some (r, p) \<Rightarrow>
        (case read_der_int der p seq_end of
           None \<Rightarrow> None
         | Some (s, p) \<Rightarrow>
        (case left_pad 48 r of
           None \<Rightarrow> None
         | Some r48 \<Rightarrow> map_option (\<lambda>s48. r48 @ s48) (left_pad 48 s)))))
      else None)"

section \<open>The certificate chain\<close>

definition verify_es384 :: "nitro_crypto \<Rightarrow> bytes \<Rightarrow> bytes \<Rightarrow> bytes \<Rightarrow> bool" where
  "verify_es384 N pubkey message sig \<longleftrightarrow>
     length sig = 96 \<and> p384_key N pubkey \<and> p384_signature N sig \<and> p384_verify N pubkey message sig"

definition check_validity :: "cert \<Rightarrow> u64 \<Rightarrow> bool" where
  "check_validity c now_unix_secs \<longleftrightarrow> \<not> now_unix_secs < cert_not_before c \<and> \<not> now_unix_secs > cert_not_after c"

definition require_ca :: "cert \<Rightarrow> bool" where
  "require_ca c \<longleftrightarrow>
     cert_basic_constraints c = Some (Some True)
     \<and> (case cert_key_usage c of
          None \<Rightarrow> False
        | Some None \<Rightarrow> True
        | Some (Some key_cert_sign) \<Rightarrow> key_cert_sign)"

definition signed_by :: "nitro_crypto \<Rightarrow> bytes \<Rightarrow> cert \<Rightarrow> bool" where
  "signed_by N parent c =
     (case (cert_tbs_der c, ecdsa_der_to_fixed (cert_signature c)) of
        (Some tbs, Some sig) \<Rightarrow> verify_es384 N parent tbs sig
      | _ \<Rightarrow> False)"

fun chain_loop :: "nitro_crypto \<Rightarrow> u64 \<Rightarrow> bytes option \<Rightarrow> bytes \<Rightarrow> bytes list \<Rightarrow> bytes option" where
  "chain_loop N now issuer_pubkey leaf_pubkey [] = Some leaf_pubkey"
| "chain_loop N now issuer_pubkey leaf_pubkey (cert_der # chain) =
     (case cert_from_der N cert_der of
        None \<Rightarrow> None
      | Some c \<Rightarrow>
          if \<not> check_validity c now then None
          else if chain \<noteq> [] \<and> \<not> require_ca c then None
          else if (case issuer_pubkey of None \<Rightarrow> False | Some parent \<Rightarrow> \<not> signed_by N parent c) then None
          else chain_loop N now (Some (cert_spki c)) (cert_spki c) chain)"

definition verify_cert_chain :: "nitro_crypto \<Rightarrow> AttestationDoc \<Rightarrow> u64 \<Rightarrow> bytes \<Rightarrow> bytes option" where
  "verify_cert_chain N doc now_unix_secs pinned_root_der =
     (if doc_cabundle doc = [] then None
      else if doc_cabundle doc ! 0 \<noteq> pinned_root_der then None
      else chain_loop N now_unix_secs None [] (doc_cabundle doc @ [doc_certificate doc]))"

section \<open>The COSE envelope\<close>

definition cose_parts :: "nitro_crypto \<Rightarrow> bytes \<Rightarrow> (bytes \<times> bytes \<times> bytes) option" where
  "cose_parts N cose =
     (case cbor_from_slice N cose of
        Some (CArray [CBytes protected, CMap [], CBytes payload, CBytes signature]) \<Rightarrow>
          (case cbor_from_slice N protected of
             Some (CMap m) \<Rightarrow>
               if map_of m (CInteger 1) = Some (CInteger COSE_ALG_ES384)
               then Some (protected, payload, signature) else None
           | _ \<Rightarrow> None)
      | _ \<Rightarrow> None)"

definition sig_structure :: "nitro_crypto \<Rightarrow> bytes \<Rightarrow> bytes \<Rightarrow> bytes option" where
  "sig_structure N protected payload =
     cbor_to_vec N (CArray [CText ''Signature1'', CBytes protected, CBytes [], CBytes payload])"

record VerifiedAttestation =
  va_doc_pcr0 :: bytes
  va_doc_pcr1 :: bytes
  va_doc_pcr2 :: bytes
  va_enclave_signer :: bytes
  va_public_key :: bytes
  va_timestamp :: u64

definition eth_address :: "nitro_crypto \<Rightarrow> bytes \<Rightarrow> bytes option" where
  "eth_address N public_key =
     (if length public_key \<noteq> 65 \<or> public_key ! 0 \<noteq> 0x04 then None
      else Some (drop 12 (nitro_keccak N (drop 1 public_key))))"

definition pcr_array :: "AttestationDoc \<Rightarrow> nat \<Rightarrow> bytes option" where
  "pcr_array doc idx =
     (case doc_pcrs doc idx of None \<Rightarrow> None | Some p \<Rightarrow> if length p = PCR_LEN then Some p else None)"

definition verify_with_root ::
  "nitro_crypto \<Rightarrow> bytes \<Rightarrow> u64 \<Rightarrow> u64 option \<Rightarrow> bytes option \<Rightarrow> bytes \<Rightarrow> VerifiedAttestation option" where
  "verify_with_root N doc_bytes now_unix_secs max_age_secs expected_nonce pinned_root_der =
     (case parse_attestation_doc N doc_bytes of
        None \<Rightarrow> None
      | Some doc \<Rightarrow>
     (if \<not> semantic_checks doc expected_nonce then None
      else if (case max_age_secs of None \<Rightarrow> False
               | Some max_age \<Rightarrow> \<not> check_freshness (doc_timestamp doc) now_unix_secs max_age) then None
      else case verify_cert_chain N doc now_unix_secs pinned_root_der of
        None \<Rightarrow> None
      | Some leaf_pubkey \<Rightarrow>
     (case cose_parts N doc_bytes of
        None \<Rightarrow> None
      | Some (protected, payload, signature) \<Rightarrow>
     (case sig_structure N protected payload of
        None \<Rightarrow> None
      | Some to_be_signed \<Rightarrow>
     (if \<not> verify_es384 N leaf_pubkey to_be_signed signature then None
      else case doc_public_key doc of
        None \<Rightarrow> None
      | Some public_key \<Rightarrow>
     (case (eth_address N public_key, pcr_array doc 0, pcr_array doc 1, pcr_array doc 2) of
        (Some enclave_signer, Some pcr0, Some pcr1, Some pcr2) \<Rightarrow>
          Some \<lparr>va_doc_pcr0 = pcr0, va_doc_pcr1 = pcr1, va_doc_pcr2 = pcr2,
            va_enclave_signer = enclave_signer, va_public_key = public_key, va_timestamp = doc_timestamp doc\<rparr>
      | _ \<Rightarrow> None))))))"

text \<open>\<open>u8::from_str_radix\<close> on two characters, which also admits a leading plus sign.\<close>

definition hex_nibble :: "char \<Rightarrow> nat option" where
  "hex_nibble c =
     (let n = of_char c :: nat in
      if 48 \<le> n \<and> n \<le> 57 then Some (n - 48)
      else if 97 \<le> n \<and> n \<le> 102 then Some (n - 87)
      else if 65 \<le> n \<and> n \<le> 70 then Some (n - 55)
      else None)"

definition u8_from_hex :: "char \<Rightarrow> char \<Rightarrow> u8 option" where
  "u8_from_hex a b =
     (case hex_nibble b of
        None \<Rightarrow> None
      | Some l \<Rightarrow>
          if a = CHR ''+'' then Some (of_nat l)
          else map_option (\<lambda>h. of_nat (16 * h + l)) (hex_nibble a))"

fun decode_hex_pairs :: "string \<Rightarrow> bytes option" where
  "decode_hex_pairs (a # b # s) =
     (case u8_from_hex a b of None \<Rightarrow> None | Some x \<Rightarrow> map_option ((#) x) (decode_hex_pairs s))"
| "decode_hex_pairs [] = Some []"
| "decode_hex_pairs [_] = None"

definition ROOT_CA_CERT_HEX :: string where
  "ROOT_CA_CERT_HEX =
     ''3082021130820196a003020102021100f93175681b90afe11d46ccb4e4e7f856300a06082a86'' @
     ''48ce3d0403033049310b3009060355040613025553310f300d060355040a0c06416d617a6f6e'' @
     ''310c300a060355040b0c03415753311b301906035504030c126177732e6e6974726f2d656e63'' @
     ''6c61766573301e170d3139313032383133323830355a170d3439313032383134323830355a30'' @
     ''49310b3009060355040613025553310f300d060355040a0c06416d617a6f6e310c300a060355'' @
     ''040b0c03415753311b301906035504030c126177732e6e6974726f2d656e636c617665733076'' @
     ''301006072a8648ce3d020106052b8104002203620004fc0254eba608c1f36870e29ada90be46'' @
     ''383292736e894bfff672d989444b5051e534a4b1f6dbe3c0bc581a32b7b176070ede12d69a3f'' @
     ''ea211b66e752cf7dd1dd095f6f1370f4170843d9dc100121e4cf63012809664487c979628430'' @
     ''4dc53ff4a3423040300f0603551d130101ff040530030101ff301d0603551d0e041604149025'' @
     ''b50dd90547e796c396fa729dcf99a9df4b96300e0603551d0f0101ff040403020186300a0608'' @
     ''2a8648ce3d0403030369003066023100a37f2f91a1c9bd5ee7b8627c1698d255038e1f0343f9'' @
     ''5b63a9628c3d39809545a11ebcbf2e3b55d8aeee71b4c3d6adf3023100a2f39b1605b27028a5'' @
     ''dd4ba069b5016e65b4fbde8fe0061d6a53197f9cdaf5d943bc61fc2beb03cb6fee8d2302f3df'' @
     ''f6''"

definition pinned_root :: "bytes option" where
  "pinned_root = decode_hex_pairs ROOT_CA_CERT_HEX"

definition verify_attestation ::
  "nitro_crypto \<Rightarrow> bytes \<Rightarrow> u64 \<Rightarrow> u64 option \<Rightarrow> bytes option \<Rightarrow> VerifiedAttestation option" where
  "verify_attestation N doc_bytes now_unix_secs max_age_secs expected_nonce =
     (case pinned_root of
        None \<Rightarrow> None
      | Some root \<Rightarrow> verify_with_root N doc_bytes now_unix_secs max_age_secs expected_nonce root)"

lemma xor_0_iff: "x XOR y = 0 \<longleftrightarrow> x = (y :: 'a::len word)"
  by (metis xor.assoc xor.right_neutral xor_self_eq)

lemma ct_diff_0: "length a = length b \<Longrightarrow> ct_diff d a b = 0 \<longleftrightarrow> d = 0 \<and> a = b"
  by (induction d a b rule: ct_diff.induct) (auto simp: or_eq_0_iff xor_0_iff)

lemma ct_eq_iff [simp]: "ct_eq a b \<longleftrightarrow> a = b"
  by (auto simp: ct_eq_def ct_diff_0)


section \<open>What a verified document is\<close>

text \<open>
  A chain of DER certificates that leads from its first entry to the key \<open>leaf\<close>: all parse and
  are in their validity window, all but the last are certificate authorities, and each is
  signed by the key of the one before it.
\<close>

definition trusted_chain :: "nitro_crypto \<Rightarrow> u64 \<Rightarrow> bytes list \<Rightarrow> bytes \<Rightarrow> bool" where
  "trusted_chain N now ders leaf \<longleftrightarrow>
     (\<exists>cs. map (cert_from_der N) ders = map Some cs \<and> cs \<noteq> []
       \<and> (\<forall>c \<in> set cs. cert_not_before c \<le> now \<and> now \<le> cert_not_after c)
       \<and> (\<forall>c \<in> set (butlast cs). require_ca c)
       \<and> (\<forall>j. Suc j < length cs \<longrightarrow> signed_by N (cert_spki (cs ! j)) (cs ! Suc j))
       \<and> leaf = cert_spki (last cs))"

lemma trusted_chain_single:
  "trusted_chain N now [der] leaf \<longleftrightarrow>
   (\<exists>c. cert_from_der N der = Some c \<and> check_validity c now \<and> leaf = cert_spki c)"
proof -
  have "(\<exists>cs. [cert_from_der N der] = map Some cs \<and> P cs) \<longleftrightarrow> (\<exists>c. cert_from_der N der = Some c \<and> P [c])" for P
    by (auto simp: Cons_eq_map_conv)
  then show ?thesis by (auto simp: trusted_chain_def check_validity_def not_less)
qed

lemma trusted_chain_Cons:
  "trusted_chain N now (der # der' # ders) leaf \<longleftrightarrow>
   (\<exists>c c'. cert_from_der N der = Some c \<and> check_validity c now \<and> require_ca c
      \<and> cert_from_der N der' = Some c' \<and> signed_by N (cert_spki c) c' \<and> trusted_chain N now (der' # ders) leaf)"
  (is "?l \<longleftrightarrow> ?r")
proof
  assume ?l
  then obtain c c' cs where "cert_from_der N der = Some c" "cert_from_der N der' = Some c'"
    "map (cert_from_der N) ders = map Some cs"
    and p: "\<forall>x \<in> set (c # c' # cs). cert_not_before x \<le> now \<and> now \<le> cert_not_after x"
      "\<forall>x \<in> set (butlast (c # c' # cs)). require_ca x"
      "\<And>j. Suc j < length (c # c' # cs) \<Longrightarrow> signed_by N (cert_spki ((c # c' # cs) ! j)) ((c # c' # cs) ! Suc j)"
      "leaf = cert_spki (last (c # c' # cs))"
    unfolding trusted_chain_def by (auto simp: Cons_eq_map_conv)
  moreover have "trusted_chain N now (der' # ders) leaf"
    unfolding trusted_chain_def using calculation p(3)[of "Suc _"] p(1,2,4) by (intro exI[of _ "c' # cs"]) auto
  ultimately show ?r using p(3)[of 0] by (auto simp: check_validity_def not_less)
next
  assume ?r
  then obtain c c' cs where r: "cert_from_der N der = Some c" "check_validity c now" "require_ca c"
    "cert_from_der N der' = Some c'" "signed_by N (cert_spki c) c'"
    "map (cert_from_der N) (der' # ders) = map Some (c' # cs)"
    and p: "\<forall>x \<in> set (c' # cs). cert_not_before x \<le> now \<and> now \<le> cert_not_after x"
      "\<forall>x \<in> set (butlast (c' # cs)). require_ca x"
      "\<forall>j. Suc j < length (c' # cs) \<longrightarrow> signed_by N (cert_spki ((c' # cs) ! j)) ((c' # cs) ! Suc j)"
      "leaf = cert_spki (last (c' # cs))"
    unfolding trusted_chain_def by (auto simp: Cons_eq_map_conv)
  have "signed_by N (cert_spki ((c # c' # cs) ! j)) ((c # c' # cs) ! Suc j)" if "Suc j < length (c # c' # cs)" for j
    using that p(3) r(5) by (cases j) auto
  then show ?l unfolding trusted_chain_def
    using r p(1,2,4) by (intro exI[of _ "c # c' # cs"]) (auto simp: check_validity_def not_less)
qed

lemma chain_loop_issued:
  "ders \<noteq> [] \<Longrightarrow>
   chain_loop N now (Some parent) k ders = Some leaf \<longleftrightarrow>
   (\<exists>c. cert_from_der N (hd ders) = Some c \<and> signed_by N parent c) \<and> trusted_chain N now ders leaf"
proof (induction ders arbitrary: parent k)
  case (Cons der ders)
  show ?case
  proof (cases ders)
    case Nil
    then show ?thesis by (auto simp: trusted_chain_single split: option.splits)
  next
    case (Cons der' ders')
    then have "chain_loop N now (Some p) p ders = Some leaf \<longleftrightarrow>
        (\<exists>c. cert_from_der N der' = Some c \<and> signed_by N p c) \<and> trusted_chain N now ders leaf" for p
      using Cons.IH by simp
    then show ?thesis using Cons by (auto simp: trusted_chain_Cons split: option.splits)
  qed
qed simp

lemma verify_cert_chain_Some:
  "verify_cert_chain N doc now root = Some leaf \<longleftrightarrow>
   (\<exists>cas. doc_cabundle doc = root # cas) \<and> trusted_chain N now (doc_cabundle doc @ [doc_certificate doc]) leaf"
proof (cases "doc_cabundle doc")
  case (Cons ca cas)
  obtain der' ders where t: "cas @ [doc_certificate doc] = der' # ders" by (cases "cas @ [doc_certificate doc]") auto
  have "chain_loop N now None [] (ca # der' # ders) = Some leaf \<longleftrightarrow> trusted_chain N now (ca # der' # ders) leaf"
    using chain_loop_issued[of "der' # ders" N now]
    by (simp only: chain_loop.simps(2)[of N now None] trusted_chain_Cons)
      (auto split: option.splits simp del: chain_loop.simps)
  then show ?thesis using Cons t by (auto simp: verify_cert_chain_def)
qed (simp add: verify_cert_chain_def)

lemma check_freshness_iff:
  "check_freshness ts now age \<longleftrightarrow>
   unat ts div 1000 \<le> unat now + 300 \<and> unat now \<le> unat ts div 1000 + unat age"
proof -
  have t: "unat (ts div 1000) = unat ts div 1000" by (simp add: unat_div)
  have b: "unat ts < 2 ^ 64" "unat now < 2 ^ 64"
    using unsigned_less[of ts, where 'a = nat] unsigned_less[of now, where 'a = nat] by simp_all
  have "ts div 1000 > sat_add now 300 \<longleftrightarrow> unat ts div 1000 > unat now + 300"
  proof (cases "unat now + 300 < 2 ^ 64")
    case True
    then have "unat (now + 300) = unat now + 300" by (subst unat_add_lem[THEN iffD1]) simp_all
    then show ?thesis using t by (simp add: sat_add_def word_less_nat_alt)
  next
    case False
    then have "unat (now + 300) = unat now + 300 - 2 ^ 64"
      using b by (simp add: unat_word_ariths mod_if)
    moreover have "0 < unat now" using False by (cases "unat now = 0") simp_all
    ultimately have "unat (now + 300) < unat now" by simp
    then have "sat_add now 300 = - 1" unfolding sat_add_def word_less_nat_alt by (rule if_P)
    then show ?thesis using False b(1) by (simp add: not_less[symmetric])
  qed
  then show ?thesis
    using t by (auto simp: check_freshness_def Let_def CLOCK_SKEW_SECS_def word_le_nat_alt unat_sat_sub not_less)
qed

lemma bytes_list_Some: "bytes_list a = Some bs \<longleftrightarrow> a = map CBytes bs"
  by (induction a arbitrary: bs rule: bytes_list.induct) auto

lemma parse_pcrs_Some:
  "parse_pcrs m pcrs = Some pcrs' \<Longrightarrow> pcrs' i = Some b \<Longrightarrow> pcrs i = Some b \<or> (CInteger (int i), CBytes b) \<in> set m"
proof (induction m pcrs rule: parse_pcrs.induct)
  case (2 j b' m pcrs)
  then have j: "0 \<le> j \<and> j \<le> 65535" and p: "parse_pcrs m (pcrs(nat j \<mapsto> b')) = Some pcrs'"
    by (simp_all del: fun_upd_apply split: if_splits)
  from "2.IH"[OF j p "2.prems"(2)] j show ?case by (auto split: if_splits)
qed auto

lemma optional_bytes_Some [simp]: "optional_bytes m k = Some b \<longleftrightarrow> field m k = Some (CBytes b)"
  by (auto simp: optional_bytes_def split: option.splits Cbor.splits)

lemma cose_parts_Some:
  "cose_parts N b = Some (protected, payload, sig) \<Longrightarrow>
   cbor_from_slice N b = Some (CArray [CBytes protected, CMap [], CBytes payload, CBytes sig])"
  unfolding cose_parts_def
  by (auto split: option.splits Cbor.splits list.splits if_splits)

lemma parse_doc_Some:
  assumes "parse_attestation_doc N b = Some doc" "cbor_from_slice N b = Some (CArray [p, u, CBytes payload, s])"
  obtains m pcrs where "cbor_from_slice N payload = Some (CMap m)"
    "field m ''pcrs'' = Some (CMap pcrs)" "parse_pcrs pcrs Map.empty = Some (doc_pcrs doc)"
    "field m ''certificate'' = Some (CBytes (doc_certificate doc))"
    "field m ''cabundle'' = Some (CArray (map CBytes (doc_cabundle doc)))"
    "doc_public_key doc = optional_bytes m ''public_key''" "doc_nonce doc = optional_bytes m ''nonce''"
proof -
  from assms obtain m where m: "cbor_from_slice N payload = Some (CMap m)"
    by (auto simp: parse_attestation_doc_def split: option.splits Cbor.splits)
  from assms m obtain mi dg ts where t: "text_of m ''module_id'' = Some mi" "text_of m ''digest'' = Some dg"
      "u64_of m ''timestamp'' = Some ts"
    by (auto simp: parse_attestation_doc_def split: option.splits)
  from assms m t obtain pcrs where p: "field m ''pcrs'' = Some (CMap pcrs)"
    by (auto simp: parse_attestation_doc_def split: option.splits Cbor.splits)
  from assms m t p obtain P where P: "parse_pcrs pcrs Map.empty = Some P"
    by (auto simp: parse_attestation_doc_def split: option.splits)
  from assms m t p P obtain c where c: "field m ''certificate'' = Some (CBytes c)"
    by (auto simp: parse_attestation_doc_def split: option.splits Cbor.splits)
  from assms m t p P c obtain a where a: "field m ''cabundle'' = Some (CArray a)"
    by (auto simp: parse_attestation_doc_def split: option.splits Cbor.splits)
  from assms m t p P c a obtain cas where "bytes_list a = Some cas"
    "doc = \<lparr>doc_module_id = mi, doc_digest = dg, doc_timestamp = ts, doc_pcrs = P,
       doc_public_key = optional_bytes m ''public_key'', doc_user_data = optional_bytes m ''user_data'',
       doc_nonce = optional_bytes m ''nonce'', doc_certificate = c, doc_cabundle = cas\<rparr>"
    by (auto simp: parse_attestation_doc_def)
  then show ?thesis using m p P c a by (intro that[of m pcrs]) (simp_all add: bytes_list_Some)
qed

lemma verify_with_root_Some:
  assumes "verify_with_root N b now max_age nonce root = Some va"
  obtains doc leaf protected payload sig tbs where
    "parse_attestation_doc N b = Some doc" "semantic_checks doc nonce"
    "\<forall>age. max_age = Some age \<longrightarrow> check_freshness (doc_timestamp doc) now age"
    "verify_cert_chain N doc now root = Some leaf"
    "cose_parts N b = Some (protected, payload, sig)" "sig_structure N protected payload = Some tbs"
    "verify_es384 N leaf tbs sig" "doc_public_key doc = Some (va_public_key va)"
    "doc_pcrs doc 0 = Some (va_doc_pcr0 va)" "length (va_doc_pcr0 va) = PCR_LEN"
    "va_timestamp va = doc_timestamp doc"
    "eth_address N (va_public_key va) = Some (va_enclave_signer va)"
  using assms
  by (auto simp: verify_with_root_def pcr_array_def split: option.splits if_splits)

text \<open>
  C10. What a verified document proves. Its chain starts at the pinned root, every certificate
  is valid now, every issuer is a certificate authority and each certificate carries the
  signature of the one before; the key of the last one signed the COSE structure over exactly
  the payload the returned fields were read from; measurement, key and nonce are entries of
  that signed payload, the nonce is the one asked for, and when an age is asked for the
  timestamp is neither older than that nor more than 300 s ahead.
\<close>

theorem verify_with_root_sound:
  assumes "verify_with_root N doc_bytes now max_age nonce root = Some va"
  shows "\<exists>protected payload sig tbs m pcrs leaf_cert cas leaf.
      cbor_from_slice N doc_bytes = Some (CArray [CBytes protected, CMap [], CBytes payload, CBytes sig])
    \<and> cbor_to_vec N (CArray [CText ''Signature1'', CBytes protected, CBytes [], CBytes payload]) = Some tbs
    \<and> length sig = 96 \<and> p384_verify N leaf tbs sig
    \<and> trusted_chain N now (root # cas @ [leaf_cert]) leaf
    \<and> cbor_from_slice N payload = Some (CMap m)
    \<and> field m ''cabundle'' = Some (CArray (map CBytes (root # cas)))
    \<and> field m ''certificate'' = Some (CBytes leaf_cert)
    \<and> field m ''public_key'' = Some (CBytes (va_public_key va)) \<and> length (va_public_key va) = 65
    \<and> field m ''pcrs'' = Some (CMap pcrs) \<and> (CInteger 0, CBytes (va_doc_pcr0 va)) \<in> set pcrs
    \<and> length (va_doc_pcr0 va) = 48
    \<and> (\<forall>n. nonce = Some n \<longrightarrow> field m ''nonce'' = Some (CBytes n))
    \<and> (\<forall>age. max_age = Some age \<longrightarrow>
         unat (va_timestamp va) div 1000 \<le> unat now + 300
         \<and> unat now \<le> unat (va_timestamp va) div 1000 + unat age)"
proof -
  obtain doc leaf protected payload sig tbs where v:
    "parse_attestation_doc N doc_bytes = Some doc" "semantic_checks doc nonce"
    "\<forall>age. max_age = Some age \<longrightarrow> check_freshness (doc_timestamp doc) now age"
    "verify_cert_chain N doc now root = Some leaf"
    "cose_parts N doc_bytes = Some (protected, payload, sig)" "sig_structure N protected payload = Some tbs"
    "verify_es384 N leaf tbs sig" "doc_public_key doc = Some (va_public_key va)"
    "doc_pcrs doc 0 = Some (va_doc_pcr0 va)" "length (va_doc_pcr0 va) = PCR_LEN"
    "va_timestamp va = doc_timestamp doc" "eth_address N (va_public_key va) = Some (va_enclave_signer va)"
    by (rule verify_with_root_Some[OF assms])
  note c = cose_parts_Some[OF v(5)]
  obtain m pcrs where d: "cbor_from_slice N payload = Some (CMap m)"
    "field m ''pcrs'' = Some (CMap pcrs)" "parse_pcrs pcrs Map.empty = Some (doc_pcrs doc)"
    "field m ''certificate'' = Some (CBytes (doc_certificate doc))"
    "field m ''cabundle'' = Some (CArray (map CBytes (doc_cabundle doc)))"
    "doc_public_key doc = optional_bytes m ''public_key''" "doc_nonce doc = optional_bytes m ''nonce''"
    by (rule parse_doc_Some[OF v(1) c])
  obtain cas where ch: "doc_cabundle doc = root # cas" "trusted_chain N now (root # cas @ [doc_certificate doc]) leaf"
    using v(4) by (auto simp: verify_cert_chain_Some)
  have "(CInteger 0, CBytes (va_doc_pcr0 va)) \<in> set pcrs" using parse_pcrs_Some[OF d(3) v(9)] by simp
  moreover have "field m ''nonce'' = Some (CBytes n)" if "nonce = Some n" for n
    using v(2) d(7) that by (auto simp: semantic_checks_def split: option.splits)
  moreover have "length (va_public_key va) = 65" using v(2,8) by (simp add: semantic_checks_def)
  moreover have "length sig = 96" "p384_verify N leaf tbs sig" using v(7) by (simp_all add: verify_es384_def)
  moreover have "\<forall>age. max_age = Some age \<longrightarrow> unat (va_timestamp va) div 1000 \<le> unat now + 300
      \<and> unat now \<le> unat (va_timestamp va) div 1000 + unat age"
    using v(3,11) by (simp only: check_freshness_iff)
  moreover have "field m ''public_key'' = Some (CBytes (va_public_key va))" using v(8) d(6) by simp
  moreover have "field m ''cabundle'' = Some (CArray (map CBytes (root # cas)))" using d(5) ch(1) by simp
  moreover have "length (va_doc_pcr0 va) = 48" using v(10) by (simp add: PCR_LEN_def)
  ultimately show ?thesis using c d(1,2,4) ch(2) v(6)[unfolded sig_structure_def] by blast
qed

text \<open>A document and a device for the witness.\<close>

definition demo_doc :: "bytes \<Rightarrow> bytes \<Rightarrow> (Cbor \<times> Cbor) list" where
  "demo_doc nonce root =
     [(CText ''module_id'', CText ''i''), (CText ''digest'', CText ''SHA384''),
      (CText ''timestamp'', CInteger 5000),
      (CText ''pcrs'', CMap [(CInteger 0, CBytes (replicate 48 1)), (CInteger 1, CBytes (replicate 48 2)),
         (CInteger 2, CBytes (replicate 48 3))]),
      (CText ''certificate'', CBytes [8]), (CText ''cabundle'', CArray [CBytes root]),
      (CText ''public_key'', CBytes (4 # replicate 64 7)), (CText ''nonce'', CBytes nonce)]"

definition demo_cert :: cert where
  "demo_cert = \<lparr>cert_not_before = 0, cert_not_after = 100, cert_basic_constraints = Some (Some True),
     cert_key_usage = Some None, cert_tbs_der = Some [], cert_signature = [0x30, 6, 2, 1, 1, 2, 1, 1], cert_spki = 4 # replicate 64 7\<rparr>"

definition nonce_crypto :: "bytes \<Rightarrow> bytes \<Rightarrow> nitro_crypto" where
  "nonce_crypto nonce root = \<lparr>
     cbor_from_slice = (\<lambda>b.
       if b = [1] then Some (CArray [CBytes [2], CMap [], CBytes [3], CBytes (replicate 96 0)])
       else if b = [2] then Some (CMap [(CInteger 1, CInteger (- 35))])
       else if b = [3] then Some (CMap (demo_doc nonce root)) else None),
     cbor_to_vec = (\<lambda>_. Some [5]), cert_from_der = (\<lambda>_. Some demo_cert),
     p384_key = (\<lambda>_. True), p384_signature = (\<lambda>_. True), p384_verify = (\<lambda>_ _ _. True),
     nitro_keccak = (\<lambda>_. replicate 32 0)\<rparr>"

abbreviation demo_crypto :: "bytes \<Rightarrow> nitro_crypto" where
  "demo_crypto \<equiv> nonce_crypto [9]"

lemma demo_crypto_simps [simp]:
  "cbor_to_vec (nonce_crypto nonce root) v = Some [5]" "cert_from_der (nonce_crypto nonce root) d = Some demo_cert"
  "verify_es384 (nonce_crypto nonce root) k m s \<longleftrightarrow> length s = 96" "nitro_keccak (nonce_crypto nonce root) b = replicate 32 0"
  "cose_parts (nonce_crypto nonce root) [1] = Some ([2], [3], replicate 96 0)"
  by (simp_all add: nonce_crypto_def verify_es384_def cose_parts_def COSE_ALG_ES384_def)

lemma demo_cert_simps [simp]: "check_validity demo_cert 6" "check_validity demo_cert 5" "require_ca demo_cert" "cert_spki demo_cert = 4 # replicate 64 7"
  by (simp_all add: demo_cert_def check_validity_def require_ca_def)

lemma demo_signed: "signed_by (nonce_crypto nonce root) k demo_cert"
proof -
  have "ecdsa_der_to_fixed [0x30, 6, 2, 1, 1, 2, 1, 1] = Some (replicate 47 0 @ [1] @ replicate 47 0 @ [1])"
    by code_simp
  then show ?thesis by (simp add: signed_by_def demo_cert_def)
qed

lemma demo_parses:
  "parse_attestation_doc (nonce_crypto nonce root) [1] = Some \<lparr>doc_module_id = ''i'', doc_digest = ''SHA384'',
     doc_timestamp = 5000, doc_pcrs = [0 \<mapsto> replicate 48 1, 1 \<mapsto> replicate 48 2, 2 \<mapsto> replicate 48 3],
     doc_public_key = Some (4 # replicate 64 7), doc_user_data = None, doc_nonce = Some nonce,
     doc_certificate = [8], doc_cabundle = [root]\<rparr>"
  by (simp add: parse_attestation_doc_def nonce_crypto_def demo_doc_def field_def text_of_def u64_of_def optional_bytes_def)

definition demo_va :: VerifiedAttestation where
  "demo_va = \<lparr>va_doc_pcr0 = replicate 48 1, va_doc_pcr1 = replicate 48 2, va_doc_pcr2 = replicate 48 3,
     va_enclave_signer = replicate 20 0, va_public_key = 4 # replicate 64 7, va_timestamp = 5000\<rparr>"

lemma demo_verifies:
  assumes "age = None \<or> age = Some 60" and now: "now = 5 \<or> now = 6"
  shows "verify_with_root (nonce_crypto nonce root) [1] now age (Some nonce) root = Some demo_va"
proof -
  have "chain_loop (nonce_crypto nonce root) now None [] [root, [8]] = Some (4 # replicate 64 7)"
    using now demo_signed[of nonce root "4 # replicate 64 7"] by auto
  moreover have "check_freshness 5000 now 60" using now by (auto simp: check_freshness_iff)
  ultimately show ?thesis
    using assms(1) by (elim disjE) (simp_all add: verify_with_root_def demo_parses semantic_checks_def pcr_ok_def
        PCR_LEN_def pcr_array_def verify_cert_chain_def sig_structure_def eth_address_def demo_va_def del: chain_loop.simps)
qed

theorem verify_with_root_sound_witness:
  "\<exists>payload m. cbor_from_slice (demo_crypto [7]) payload = Some (CMap m) \<and> field m ''nonce'' = Some (CBytes [9])"
proof -
  have "verify_with_root (demo_crypto [7]) [1] 6 (Some 60) (Some [9]) [7] = Some demo_va" by (rule demo_verifies) simp_all
  from verify_with_root_sound[OF this] show ?thesis by blast
qed

section \<open>The DER reader\<close>

text \<open>The canonical DER encoding of an ECDSA signature.\<close>

fun min_be :: "nat \<Rightarrow> bytes" where
  "min_be n = (if n = 0 then [] else min_be (n div 256) @ [of_nat (n mod 256)])"

declare min_be.simps [simp del]

definition der_content :: "nat \<Rightarrow> bytes" where
  "der_content n = (let b = min_be n in if b = [] \<or> 0x80 \<le> hd b then 0 # b else b)"

definition der_int :: "nat \<Rightarrow> bytes" where
  "der_int n = 0x02 # of_nat (length (der_content n)) # der_content n"

definition der_sig :: "nat \<Rightarrow> nat \<Rightarrow> bytes" where
  "der_sig r s = 0x30 # of_nat (length (der_int r @ der_int s)) # der_int r @ der_int s"

lemma be_nat_min_be: "be_nat (min_be n) = n"
proof (induction n rule: min_be.induct)
  case (1 n)
  then show ?case by (cases "n = 0") (simp_all add: min_be.simps[of n] min_be.simps[of 0] unat_of_nat)
qed

lemma length_min_be: "n < 256 ^ k \<Longrightarrow> length (min_be n) \<le> k"
proof (induction n arbitrary: k rule: min_be.induct)
  case (1 n)
  show ?case
  proof (cases "n = 0")
    case False
    then obtain k' where k: "k = Suc k'" using 1(2) by (cases k) auto
    then have "n div 256 < 256 ^ k'" using 1(2) by (simp add: less_mult_imp_div_less mult.commute)
    then show ?thesis using 1(1) False k by (simp add: min_be.simps[of n])
  qed (simp add: min_be.simps)
qed

lemma hd_min_be: "n \<noteq> 0 \<Longrightarrow> min_be n \<noteq> [] \<and> hd (min_be n) \<noteq> 0"
proof (induction n rule: min_be.induct)
  case (1 n)
  show ?case
  proof (cases "n div 256 = 0")
    case True
    then have "min_be n = [of_nat n]" "n < 256" using 1(2) by (simp_all add: min_be.simps[of n] min_be.simps[of 0])
    then show ?thesis using 1(2) by (simp add: word_unat_eq_iff unat_of_nat)
  next
    case False
    then show ?thesis using 1 by (simp add: min_be.simps[of n])
  qed
qed

lemma be_nat_replicate: "be_nat (replicate k 0 @ b) = be_nat b"
proof -
  have "foldl (\<lambda>acc b. acc * 256 + unat b) 0 (replicate k (0 :: byte)) = 0" by (induction k) simp_all
  then show ?thesis by (simp add: be_nat_def)
qed

lemma left_pad_be: "length c \<le> k \<Longrightarrow> left_pad k c = Some (be_word k (be_nat c))"
  using be_word_be_nat[of "replicate (k - length c) 0 @ c"] by (simp add: left_pad_def be_nat_replicate)

definition der_stripped :: "nat \<Rightarrow> bytes" where
  "der_stripped n = (let b = der_content n in if first b = Some 0 \<and> length b > 1 then drop 1 b else b)"

lemma der_stripped: 
  assumes "n < 256 ^ k" "1 \<le> k"
  shows "be_nat (der_stripped n) = n \<and> length (der_stripped n) \<le> k"
proof (cases "n = 0")
  case True
  then show ?thesis using assms
    by (simp add: der_stripped_def der_content_def min_be.simps[of 0] be_nat_def Let_def)
next
  case False
  then obtain x xs where x: "min_be n = x # xs" "x \<noteq> 0" using hd_min_be[of n] by (cases "min_be n") auto
  then have "der_stripped n = min_be n" by (simp add: der_stripped_def der_content_def Let_def)
  then show ?thesis using be_nat_min_be length_min_be[OF assms(1)] by simp
qed

lemma length_der_content: "n < 256 ^ k \<Longrightarrow> length (der_content n) \<le> Suc k"
  using length_min_be[of n k] by (auto simp: der_content_def Let_def)

lemma read_der_len_short:
  "n < 128 \<Longrightarrow> read_der_len (pre @ of_nat n # post) (length pre) = Some (n, Suc (length pre))"
  by (simp add: read_der_len_def Let_def word_less_nat_alt unat_of_nat)

lemma read_der_int_at:
  assumes "n < 256 ^ 48" "length pre + length (der_int n) \<le> limit"
  shows "read_der_int (pre @ der_int n @ post) (length pre) limit =
    Some (der_stripped n, length pre + length (der_int n))"
proof -
  let ?c = "der_content n"
  have l: "length ?c < 128" using length_der_content[OF assms(1)] by simp
  have e: "pre @ der_int n @ post = (pre @ [0x02]) @ of_nat (length ?c) # ?c @ post" by (simp add: der_int_def)
  have "read_der_len (pre @ der_int n @ post) (length pre + 1) = Some (length ?c, length pre + 2)"
    unfolding e using read_der_len_short[OF l, of "pre @ [0x02]" "?c @ post"] by simp
  moreover have "(pre @ der_int n @ post) ! length pre = 2" "length pre < length (pre @ der_int n @ post)"
    by (simp_all add: der_int_def nth_append)
  moreover have "take (length ?c) (drop (length pre + 2) (pre @ der_int n @ post)) = ?c" by (simp add: der_int_def)
  ultimately show ?thesis
    using assms(2) by (simp add: read_der_int_def der_stripped_def Let_def der_int_def)
qed

text \<open>
  The reader of certificate signatures inverts DER: for every pair of integers of at most
  384 bits it turns their canonical encoding into the two 48-byte big-endian halves.
\<close>

theorem ecdsa_der_roundtrip:
  assumes "r < 2 ^ 384" "s < 2 ^ 384"
  shows "ecdsa_der_to_fixed (der_sig r s) = Some (be_word 48 r @ be_word 48 s)"
proof -
  have b: "r < 256 ^ 48" "s < 256 ^ 48" using assms by simp_all
  let ?body = "der_int r @ der_int s"
  let ?der = "der_sig r s"
  have len: "length ?body < 128"
    using length_der_content[OF b(1)] length_der_content[OF b(2)] by (simp add: der_int_def)
  have d: "?der = [0x30] @ of_nat (length ?body) # ?body" by (simp add: der_sig_def)
  have 1: "read_der_len ?der 1 = Some (length ?body, 2)"
    unfolding d using read_der_len_short[OF len, of "[0x30]" ?body] by simp
  have "?der = [0x30, of_nat (length ?body)] @ der_int r @ der_int s" by (simp add: der_sig_def)
  then have 2: "read_der_int ?der 2 (2 + length ?body) = Some (der_stripped r, 2 + length (der_int r))"
    using read_der_int_at[OF b(1), of "[0x30, of_nat (length ?body)]" "2 + length ?body" "der_int s"] by (simp add: numeral_2_eq_2)
  have "?der = ([0x30, of_nat (length ?body)] @ der_int r) @ der_int s @ []" by (simp add: der_sig_def)
  then have 3: "read_der_int ?der (2 + length (der_int r)) (2 + length ?body) = Some (der_stripped s, 2 + length ?body)"
    using read_der_int_at[OF b(2), of "[0x30, of_nat (length ?body)] @ der_int r" "2 + length ?body" "[]"] by simp
  have "left_pad 48 (der_stripped r) = Some (be_word 48 r)" "left_pad 48 (der_stripped s) = Some (be_word 48 s)"
    using der_stripped[OF b(1)] der_stripped[OF b(2)] by (simp_all add: left_pad_be)
  then show ?thesis
    using 1 2 3 by (simp add: ecdsa_der_to_fixed_def Let_def) (simp add: der_sig_def)
qed

theorem ecdsa_der_roundtrip_witness:
  "ecdsa_der_to_fixed (der_sig 5 (2 ^ 383)) = Some (be_word 48 5 @ be_word 48 (2 ^ 383))"
  by (rule ecdsa_der_roundtrip) simp_all

section \<open>The pinned root\<close>

lemma decode_hex_pairs_ok:
  "list_all (\<lambda>c. hex_nibble c \<noteq> None) s \<Longrightarrow> even (length s) \<Longrightarrow> \<exists>b. decode_hex_pairs s = Some b"
proof (induction s rule: decode_hex_pairs.induct)
  case (1 a b s)
  then obtain x l where h: "hex_nibble a = Some x" "hex_nibble b = Some l" by auto
  then obtain z where z: "u8_from_hex a b = Some z" by (cases "a = CHR ''+''") (simp_all add: u8_from_hex_def)
  from 1 z obtain y where "decode_hex_pairs s = Some y" by auto
  then show ?case using z by simp
qed auto

lemma pinned_root_decodes: "\<exists>root. pinned_root = Some root"
  unfolding pinned_root_def
proof (rule decode_hex_pairs_ok)
  show "list_all (\<lambda>c. hex_nibble c \<noteq> None) ROOT_CA_CERT_HEX" by (simp add: ROOT_CA_CERT_HEX_def hex_nibble_def)
  show "even (length ROOT_CA_CERT_HEX)" by (simp add: ROOT_CA_CERT_HEX_def)
qed

lemma demo_attested:
  assumes "pinned_root = Some root" "now = 5 \<or> now = 6"
  shows "verify_attestation (nonce_crypto nonce root) [1] now None (Some nonce) = Some demo_va"
  unfolding verify_attestation_def assms(1) option.case by (rule demo_verifies) (use assms(2) in simp_all)

end
