(* ===== verification/Handover.thy ===== *)
theory Handover
  imports Boot Attestation "HOL-Library.Sublist"
begin

text \<open>
  The key handover between two enclaves: \<open>crates/keyex/src/binding.rs\<close>, \<open>kdf.rs\<close>, the
  exchange of \<open>ratls.rs\<close> and the peer fetch of \<open>peer.rs\<close>.

  A byte stream is what one end sees of a connection during one run: the bytes that will
  arrive before the peer closes it, the bytes written so far, and how many more bytes can be
  written before it breaks. Every I/O call of the code can therefore fail, at any byte. The
  secret the server holds is an argument and a result of its exchange, so that wiping it is
  part of the model. Verifying an attestation document, producing one, HKDF, the X.509 parser
  and the TLS session are parameters.
\<close>

section \<open>Channel binding\<close>

record AttestationView =
  view_nonce :: "bytes option"
  view_public_key :: bytes

datatype BindingError = NonceDiffers | NonceMissing | KeyEmpty | KeyDiffers

definition check_nonce :: "AttestationView \<Rightarrow> bytes \<Rightarrow> (BindingError, unit) res" where
  "check_nonce view expected_nonce =
     (case view_nonce view of
        Some n \<Rightarrow> if ct_eq n expected_nonce then Inr () else Inl NonceDiffers
      | None \<Rightarrow> Inl NonceMissing)"

definition check_peer_key :: "AttestationView \<Rightarrow> bytes \<Rightarrow> (BindingError, unit) res" where
  "check_peer_key view expected_key =
     (if view_public_key view = [] \<or> expected_key = [] then Inl KeyEmpty
      else if ct_eq (view_public_key view) expected_key then Inr () else Inl KeyDiffers)"

definition check_channel_binding :: "AttestationView \<Rightarrow> bytes \<Rightarrow> bytes \<Rightarrow> (BindingError, unit) res" where
  "check_channel_binding view expected_nonce expected_key =
     try_res (check_nonce view expected_nonce) (\<lambda>_. check_peer_key view expected_key)"

section \<open>Child keys\<close>

text \<open>The parameter \<open>hkdf salt ikm info\<close> is HKDF-SHA256 with a 32-byte output.\<close>

type_synonym hkdf = "bytes \<Rightarrow> bytes \<Rightarrow> bytes \<Rightarrow> bytes"

definition ascii :: "string \<Rightarrow> bytes" where
  "ascii s = map (\<lambda>c. of_nat (of_char c)) s"

definition KEYEX_SALT :: bytes where
  "KEYEX_SALT = ascii ''kaskad-keyex-v1''"

definition KEYEX_INFO_PREFIX :: bytes where
  "KEYEX_INFO_PREFIX = ascii ''kaskad/pontifex/''"

definition derive_child :: "hkdf \<Rightarrow> bytes \<Rightarrow> bytes \<Rightarrow> bytes" where
  "derive_child hkdf root label = hkdf KEYEX_SALT root (KEYEX_INFO_PREFIX @ label)"

section \<open>Streams and frames\<close>

record stream =
  rx :: bytes
  tx :: bytes
  room :: nat

definition write_all :: "bytes \<Rightarrow> stream \<Rightarrow> bool \<times> stream" where
  "write_all b s =
     (if length b \<le> room s then (True, s\<lparr>tx := tx s @ b, room := room s - length b\<rparr>)
      else (False, s\<lparr>tx := tx s @ take (room s) b, room := 0\<rparr>))"

definition read_exact :: "nat \<Rightarrow> stream \<Rightarrow> bytes option \<times> stream" where
  "read_exact n s =
     (if n \<le> length (rx s) then (Some (take n (rx s)), s\<lparr>rx := drop n (rx s)\<rparr>)
      else (None, s\<lparr>rx := []\<rparr>))"

definition MAX_FRAME :: nat where "MAX_FRAME = 64 * 1024"

definition NONCE_LEN :: nat where "NONCE_LEN = 32"

definition write_frame :: "bytes \<Rightarrow> stream \<Rightarrow> bool \<times> stream" where
  "write_frame payload s =
     (if length payload \<ge> 2 ^ 32 then (False, s)
      else case write_all (be_word 4 (length payload)) s of
        (False, s) \<Rightarrow> (False, s)
      | (True, s) \<Rightarrow> write_all payload s)"

definition read_frame :: "stream \<Rightarrow> bytes option \<times> stream" where
  "read_frame s =
     (case read_exact 4 s of
        (None, s) \<Rightarrow> (None, s)
      | (Some len_buf, s) \<Rightarrow>
          let len = be_nat len_buf in
          if len > MAX_FRAME then (None, s) else read_exact len s)"

section \<open>The peer\<close>

record VerifiedPeer =
  peer_pcr0 :: bytes
  peer_nonce :: "bytes option"
  peer_public_key :: bytes

type_synonym peer_verifier = "bytes \<Rightarrow> bytes \<Rightarrow> VerifiedPeer option"
type_synonym attest_fn = "bytes \<Rightarrow> bytes \<Rightarrow> bytes option"

datatype ExchangeRefusal =
    AttestationInvalid | NonceMismatch | KeyMismatch | PolicyRefused HandoffRefusal
  | ServerDeclined | ClientRejected ClientRefusal | Protocol

datatype ServerExchange = HandedOwnKey | HandedChild | ServerRefused ExchangeRefusal

datatype ClientExchange = InstalledKey bytes | ClientRefused ExchangeRefusal

record Channel =
  ch_my_nonce :: bytes
  ch_my_point :: bytes
  ch_peer_point :: bytes
  ch_verifier :: peer_verifier
  ch_attest_fn :: attest_fn

record HandoverInputs =
  hi_own :: ImageIdentity
  hi_role :: EnclaveRole
  hi_own_key_is_candidate :: bool
  hi_approvals :: "VerifiedApproval list"

record AcceptInputs =
  ai_kind :: FetchKind
  ai_own_pcr0 :: bytes
  ai_baked_ancestors :: "bytes list"

definition nonce_and_doc_exchange :: "Channel \<Rightarrow> stream \<Rightarrow> (bytes \<times> bytes) option \<times> stream" where
  "nonce_and_doc_exchange ch s =
     (case write_frame (ch_my_nonce ch) s of
        (False, s) \<Rightarrow> (None, s)
      | (True, s) \<Rightarrow>
     (case read_frame s of
        (None, s) \<Rightarrow> (None, s)
      | (Some nonce, s) \<Rightarrow>
     (if length nonce \<noteq> NONCE_LEN then (None, s)
      else case ch_attest_fn ch nonce (ch_my_point ch) of
        None \<Rightarrow> (None, s)
      | Some my_doc \<Rightarrow>
     (case write_frame my_doc s of
        (False, s) \<Rightarrow> (None, s)
      | (True, s) \<Rightarrow>
     (case read_frame s of
        (None, s) \<Rightarrow> (None, s)
      | (Some peer_doc, s) \<Rightarrow> (Some (nonce, peer_doc), s))))))"

definition evaluate_peer :: "Channel \<Rightarrow> bytes \<Rightarrow> (ExchangeRefusal, VerifiedPeer) res" where
  "evaluate_peer ch peer_doc =
     try_res (ok_or AttestationInvalid (ch_verifier ch peer_doc (ch_my_nonce ch))) (\<lambda>verified.
     let view = \<lparr>view_nonce = peer_nonce verified, view_public_key = peer_public_key verified\<rparr> in
     try_res (map_err (\<lambda>_. NonceMismatch) (check_nonce view (ch_my_nonce ch))) (\<lambda>_.
     try_res (map_err (\<lambda>_. KeyMismatch) (check_peer_key view (ch_peer_point ch))) (\<lambda>_.
     Inr verified)))"

section \<open>Both sides of the exchange\<close>

definition TAG_DECLINE :: u8 where "TAG_DECLINE = 0"
definition TAG_GRANT :: u8 where "TAG_GRANT = 1"

definition zeroize :: "bytes \<Rightarrow> bytes" where
  "zeroize secret = replicate (length secret) 0"

definition refuse_wipe :: "bytes \<Rightarrow> ExchangeRefusal \<Rightarrow> ServerExchange \<times> bytes" where
  "refuse_wipe secret reason = (ServerRefused reason, zeroize secret)"

text \<open>
  The result is the outcome (\<open>None\<close> is an I/O error), what the caller's secret holds on
  return, and the stream.
\<close>

definition server_exchange ::
  "hkdf \<Rightarrow> Channel \<Rightarrow> HandoverInputs \<Rightarrow> bytes \<Rightarrow> stream \<Rightarrow> ServerExchange option \<times> bytes \<times> stream" where
  "server_exchange hkdf ch inputs own_key s =
     (case nonce_and_doc_exchange ch s of
        (None, s) \<Rightarrow>
          let own_key = zeroize own_key; s = snd (write_frame [TAG_DECLINE] s) in
          (Some (ServerRefused Protocol), own_key, s)
      | (Some (_, peer_doc), s) \<Rightarrow>
     (case evaluate_peer ch peer_doc of
        Inl reason \<Rightarrow>
          let s = snd (write_frame [TAG_DECLINE] s); (out, own_key) = refuse_wipe own_key reason in
          (Some out, own_key, s)
      | Inr verified \<Rightarrow>
     (case decide_handover (hi_own inputs) (hi_role inputs) (peer_pcr0 verified)
             (hi_own_key_is_candidate inputs) (hi_approvals inputs) of
        OwnKey \<Rightarrow>
          let frame = TAG_GRANT # own_key; own_key = zeroize own_key in
          (case write_frame frame s of
             (True, s) \<Rightarrow> (Some HandedOwnKey, own_key, s)
           | (False, s) \<Rightarrow> (None, own_key, s))
      | ChildKey label \<Rightarrow>
          let child = derive_child hkdf own_key label; own_key = zeroize own_key;
              frame = TAG_GRANT # child in
          (case write_frame frame s of
             (True, s) \<Rightarrow> (Some HandedChild, own_key, s)
           | (False, s) \<Rightarrow> (None, own_key, s))
      | Refuse r \<Rightarrow>
          let s = snd (write_frame [TAG_DECLINE] s); (out, own_key) = refuse_wipe own_key (PolicyRefused r) in
          (Some out, own_key, s))))"

definition drain_and_refuse :: "ExchangeRefusal \<Rightarrow> stream \<Rightarrow> ClientExchange option \<times> stream" where
  "drain_and_refuse reason s = (Some (ClientRefused reason), snd (read_frame s))"

definition client_exchange :: "Channel \<Rightarrow> AcceptInputs \<Rightarrow> stream \<Rightarrow> ClientExchange option \<times> stream" where
  "client_exchange ch inputs s =
     (case nonce_and_doc_exchange ch s of
        (None, s) \<Rightarrow> (None, s)
      | (Some (_, peer_doc), s) \<Rightarrow>
     (case evaluate_peer ch peer_doc of
        Inl reason \<Rightarrow> drain_and_refuse reason s
      | Inr verified \<Rightarrow>
          let decision = client_accepts_server (ai_kind inputs) (ai_own_pcr0 inputs)
                           (peer_pcr0 verified) (ai_baked_ancestors inputs) in
          (case read_frame s of
             (None, s) \<Rightarrow> (None, s)
           | (Some frame, s) \<Rightarrow>
               if first frame = Some TAG_GRANT \<and> length frame = 1 + 32 then
                 (case decision of
                    Reject r \<Rightarrow> (Some (ClientRefused (ClientRejected r)), s)
                  | Accept \<Rightarrow> (Some (InstalledKey (drop 1 frame)), s))
               else (Some (ClientRefused ServerDeclined), s))))"

section \<open>Binding the exchange to a live TLS session\<close>

record EphemeralCert =
  cert_der :: bytes
  key_der :: bytes
  public_point :: bytes

definition public_point_from_cert :: "nitro_crypto \<Rightarrow> bytes \<Rightarrow> bytes option" where
  "public_point_from_cert N der =
     (case cert_from_der N der of
        None \<Rightarrow> None
      | Some parsed \<Rightarrow>
          let point = cert_spki parsed in
          if length point \<noteq> 65 \<or> point ! 0 \<noteq> 0x04 then None else Some point)"

text \<open>The certificate generator yields a certificate and its private key, or fails.\<close>

definition generate_ephemeral_cert :: "nitro_crypto \<Rightarrow> (bytes \<times> bytes) option \<Rightarrow> EphemeralCert option" where
  "generate_ephemeral_cert N certified =
     (case certified of
        None \<Rightarrow> None
      | Some (der, key) \<Rightarrow>
          map_option (\<lambda>point. \<lparr>cert_der = der, key_der = key, public_point = point\<rparr>)
            (public_point_from_cert N der))"

definition NsmPeerVerifier_verify :: "nitro_crypto \<Rightarrow> u64 \<Rightarrow> peer_verifier" where
  "NsmPeerVerifier_verify N now_unix_secs doc my_nonce =
     (case verify_attestation N doc now_unix_secs None (Some my_nonce) of
        None \<Rightarrow> None
      | Some verified \<Rightarrow>
     (case parse_attestation_doc N doc of
        None \<Rightarrow> None
      | Some parsed \<Rightarrow>
          Some \<lparr>peer_pcr0 = va_doc_pcr0 verified, peer_nonce = doc_nonce parsed,
                peer_public_key = va_public_key verified\<rparr>))"

record Handshake =
  hs_my_cert :: EphemeralCert
  hs_my_nonce :: bytes
  hs_verifier :: peer_verifier
  hs_attest_fn :: attest_fn

text \<open>
  What a TLS handshake over a transport yields: the plaintext stream and the certificates the
  peer proved possession of, or a failure.
\<close>

type_synonym tls = "stream \<Rightarrow> (stream \<times> bytes list option) option"

definition live_peer_point :: "nitro_crypto \<Rightarrow> bytes list option \<Rightarrow> bytes option" where
  "live_peer_point N peer_certs =
     (case Option.bind peer_certs first of
        None \<Rightarrow> None
      | Some leaf \<Rightarrow> public_point_from_cert N leaf)"

definition channel_of :: "Handshake \<Rightarrow> bytes \<Rightarrow> Channel" where
  "channel_of hs peer_point =
     \<lparr>ch_my_nonce = hs_my_nonce hs, ch_my_point = public_point (hs_my_cert hs), ch_peer_point = peer_point,
      ch_verifier = hs_verifier hs, ch_attest_fn = hs_attest_fn hs\<rparr>"

definition run_server_handshake ::
  "hkdf \<Rightarrow> nitro_crypto \<Rightarrow> tls \<Rightarrow> stream \<Rightarrow> Handshake \<Rightarrow> HandoverInputs \<Rightarrow> bytes
   \<Rightarrow> ServerExchange option \<times> stream" where
  "run_server_handshake hkdf N accept transport hs inputs own_key =
     (case accept transport of
        None \<Rightarrow> (None, transport)
      | Some (tls, peer_certs) \<Rightarrow>
     (case live_peer_point N peer_certs of
        None \<Rightarrow> (None, tls)
      | Some peer_point \<Rightarrow>
          let (out, _, tls) = server_exchange hkdf (channel_of hs peer_point) inputs own_key tls in
          (out, tls)))"

definition run_client_handshake ::
  "nitro_crypto \<Rightarrow> tls \<Rightarrow> stream \<Rightarrow> Handshake \<Rightarrow> AcceptInputs \<Rightarrow> ClientExchange option \<times> stream" where
  "run_client_handshake N connect transport hs inputs =
     (case connect transport of
        None \<Rightarrow> (None, transport)
      | Some (tls, peer_certs) \<Rightarrow>
     (case live_peer_point N peer_certs of
        None \<Rightarrow> (None, tls)
      | Some peer_point \<Rightarrow> client_exchange (channel_of hs peer_point) inputs tls))"

section \<open>Fetching a key from a peer\<close>

definition HANDOVER_PORT :: string where "HANDOVER_PORT = ''8443''"

definition with_default_port :: "string \<Rightarrow> string" where
  "with_default_port endpoint =
     (if CHR '':'' \<in> set endpoint then endpoint else endpoint @ '':'' @ HANDOVER_PORT)"

definition CRLF :: bytes where "CRLF = [13, 10]"

text \<open>The reply of the proxy, byte by byte, up to and including the first empty line.\<close>

fun read_reply :: "bytes \<Rightarrow> bytes \<Rightarrow> bytes option \<times> bytes" where
  "read_reply buf [] = (None, [])"
| "read_reply buf (b # incoming) =
     (let buf = buf @ [b] in
      if suffix (CRLF @ CRLF) buf then (Some buf, incoming)
      else if length buf > 8192 then (None, incoming)
      else read_reply buf incoming)"

definition is_whitespace :: "nat \<Rightarrow> bool" where
  "is_whitespace c \<longleftrightarrow> 9 \<le> c \<and> c \<le> 13
     \<or> c \<in> {0x20, 0x85, 0xA0, 0x1680, 0x2028, 0x2029, 0x202F, 0x205F, 0x3000} \<or> 0x2000 \<le> c \<and> c \<le> 0x200A"

text \<open>The token with index 1 of \<open>split_whitespace\<close>.\<close>

definition second_token :: "nat list \<Rightarrow> nat list option" where
  "second_token cs =
     (let skip = dropWhile is_whitespace; rest = dropWhile (\<lambda>c. \<not> is_whitespace c);
          t = takeWhile (\<lambda>c. \<not> is_whitespace c) (skip (rest (skip cs)))
      in if t = [] then None else Some t)"

definition connect_request :: "string \<Rightarrow> bytes" where
  "connect_request target =
     ascii (''CONNECT '' @ target @ '' HTTP/1.1'') @ CRLF @ ascii (''Host: '' @ target) @ CRLF @ CRLF"

definition connect_via_proxy :: "stream option \<Rightarrow> string \<Rightarrow> stream option" where
  "connect_via_proxy connect target =
     (case connect of
        None \<Rightarrow> None
      | Some tcp \<Rightarrow>
     (case write_all (connect_request target) tcp of
        (False, _) \<Rightarrow> None
      | (True, tcp) \<Rightarrow>
     (case read_reply [] (rx tcp) of
        (None, _) \<Rightarrow> None
      | (Some buf, incoming) \<Rightarrow>
          let status_line = takeWhile (\<lambda>b. b \<noteq> 13) buf in
          if Option.bind (utf8_decode status_line) second_token = Some (map of_char ''200'')
          then Some (tcp\<lparr>rx := incoming\<rparr>) else None)))"

text \<open>\<open>key_of\<close> is \<open>SigningKey::from_bytes\<close>, which refuses an invalid scalar.\<close>

definition FetchedKey_from_bytes ::
  "('g, 'v, 'k) ecdsa \<Rightarrow> (bytes \<Rightarrow> 'k option) \<Rightarrow> bytes \<Rightarrow> 'k FetchedKey option" where
  "FetchedKey_from_bytes E key_of raw =
     map_option (\<lambda>key. \<lparr>fk_address = address_from_key E (verifying_key E key), fk_key = key\<rparr>) (key_of raw)"

text \<open>
  How one attempt goes on the network: whether it finishes within its time budget, whether
  the TLS configuration builds, the connection to the proxy, and the handshake through it.
\<close>

record attempt =
  in_time :: bool
  config_ok :: bool
  proxy :: "stream option"
  tls_connect :: tls

definition fetch_via_proxy ::
  "('g, 'v, 'k) ecdsa \<Rightarrow> (bytes \<Rightarrow> 'k option) \<Rightarrow> nitro_crypto \<Rightarrow> attempt \<Rightarrow> string \<Rightarrow> Handshake \<Rightarrow> AcceptInputs
   \<Rightarrow> (unit, 'k FetchedKey option) res" where
  "fetch_via_proxy E key_of N net target hs inputs =
     (if \<not> in_time net then Inl ()
      else if \<not> config_ok net then Inl ()
      else case connect_via_proxy (proxy net) target of
        None \<Rightarrow> Inl ()
      | Some tcp \<Rightarrow>
     (case fst (run_client_handshake N (tls_connect net) tcp hs inputs) of
        None \<Rightarrow> Inl ()
      | Some (InstalledKey raw) \<Rightarrow>
          (case FetchedKey_from_bytes E key_of raw of None \<Rightarrow> Inl () | Some fk \<Rightarrow> Inr (Some fk))
      | Some (ClientRefused _) \<Rightarrow> Inr None))"

text \<open>
  What the enclave offers a fetch: the certificate generator, the NSM's random bytes, clock and
  attestations, and the network. A hardware failure while filling the nonce aborts the process
  and is not a result.
\<close>

record 's enclave =
  enc_rcgen :: "'s \<Rightarrow> (bytes \<times> bytes) option \<times> 's"
  enc_nonce :: "'s \<Rightarrow> bytes option \<times> 's"
  enc_now :: "'s \<Rightarrow> u64 option \<times> 's"
  enc_attest :: "'s \<Rightarrow> attest_fn"
  enc_network :: "string \<Rightarrow> 's \<Rightarrow> attempt \<times> 's"

record RatlsPeerSource =
  src_own_pcr0 :: bytes
  src_baked_ancestors :: "bytes list"

definition RatlsPeerSource_fetch ::
  "('g, 'v, 'k) ecdsa \<Rightarrow> (bytes \<Rightarrow> 'k option) \<Rightarrow> nitro_crypto \<Rightarrow> 's enclave \<Rightarrow> RatlsPeerSource \<Rightarrow> ('k, 's) peer_source" where
  "RatlsPeerSource_fetch E key_of N enc src endpoint kind s =
     (case enc_rcgen enc s of (certified, s) \<Rightarrow>
     (case generate_ephemeral_cert N certified of
        None \<Rightarrow> (Inl (), s)
      | Some cert \<Rightarrow>
     (case enc_nonce enc s of
        (None, s) \<Rightarrow> (Inl (), s)
      | (Some nonce, s) \<Rightarrow>
     (case enc_now enc s of
        (None, s) \<Rightarrow> (Inl (), s)
      | (Some now_unix_secs, s) \<Rightarrow>
          let target = with_default_port endpoint;
              hs = \<lparr>hs_my_cert = cert, hs_my_nonce = nonce,
                    hs_verifier = NsmPeerVerifier_verify N now_unix_secs, hs_attest_fn = enc_attest enc s\<rparr>;
              inputs = \<lparr>ai_kind = kind, ai_own_pcr0 = src_own_pcr0 src, ai_baked_ancestors = src_baked_ancestors src\<rparr>;
              (net, s) = enc_network enc target s
          in (fetch_via_proxy E key_of N net target hs inputs, s)))))"

section \<open>Comparison and binding\<close>

lemma check_nonce_Inr [simp]: "check_nonce view n = Inr () \<longleftrightarrow> view_nonce view = Some n"
  by (auto simp: check_nonce_def split: option.splits)

lemma check_peer_key_Inr [simp]:
  "check_peer_key view k = Inr () \<longleftrightarrow> k \<noteq> [] \<and> view_public_key view = k"
  by (auto simp: check_peer_key_def)

text \<open>What the binding establishes about a peer's document.\<close>

definition bound_peer :: "Channel \<Rightarrow> bytes \<Rightarrow> VerifiedPeer \<Rightarrow> bool" where
  "bound_peer ch doc v \<longleftrightarrow>
     ch_verifier ch doc (ch_my_nonce ch) = Some v \<and> peer_nonce v = Some (ch_my_nonce ch)
     \<and> ch_peer_point ch \<noteq> [] \<and> peer_public_key v = ch_peer_point ch"

lemma evaluate_peer_Inr: "evaluate_peer ch doc = Inr v \<longleftrightarrow> bound_peer ch doc v"
  by (auto simp: evaluate_peer_def bound_peer_def try_res_Inr Let_def)

section \<open>Frames\<close>

definition frame :: "bytes \<Rightarrow> bytes" where
  "frame p = be_word 4 (length p) @ p"

lemma frame_not_Nil [simp]: "frame p \<noteq> []"
  using length_be_word[of 4 "length p"] unfolding frame_def by (metis append_is_Nil_conv list.size(3) zero_neq_numeral)

lemma frame_len: "length p < 2 ^ 32 \<Longrightarrow> be_nat (take 4 (frame p @ r)) = length p"
  by (simp add: frame_def be_nat_be_word)

lemma write_all_ok: "write_all b s = (True, s') \<Longrightarrow> tx s' = tx s @ b \<and> rx s' = rx s \<and> room s = length b + room s'"
  by (auto simp: write_all_def split: if_splits)

lemma write_all_fail: "write_all b s = (False, s') \<Longrightarrow> \<exists>k < length b. tx s' = tx s @ take k b"
  by (auto simp: write_all_def split: if_splits intro!: exI[of _ "room s"])

lemma write_frame_cases:
  assumes "write_frame p s = (ok, s')"
  obtains (refused) "\<not> ok" "s' = s"
    | (cut) "\<not> ok" "write_all (be_word 4 (length p)) s = (False, s')"
    | (sent) s1 where "write_all (be_word 4 (length p)) s = (True, s1)" "write_all p s1 = (ok, s')"
proof (cases "length p \<ge> 2 ^ 32")
  case True
  then have "\<not> ok" "s' = s" using assms unfolding write_frame_def by auto
  then show ?thesis by (rule refused)
next
  case False
  obtain ok1 s1 where w: "write_all (be_word 4 (length p)) s = (ok1, s1)"
    by (cases "write_all (be_word 4 (length p)) s")
  have "(case ok1 of False \<Rightarrow> (False, s1) | True \<Rightarrow> write_all p s1) = (ok, s')"
    using assms False w unfolding write_frame_def by (cases ok1) auto
  then show ?thesis using w cut sent by (cases ok1) auto
qed

lemma write_frame_ok:
  assumes "write_frame p s = (True, s')"
  shows "tx s' = tx s @ frame p \<and> rx s' = rx s \<and> room s = length (frame p) + room s'"
  using assms
proof (cases rule: write_frame_cases)
  case (sent s1)
  then show ?thesis using write_all_ok[OF sent(1)] write_all_ok[OF sent(2)] by (simp add: frame_def)
qed simp_all

lemma write_frame_fail:
  assumes "write_frame p s = (False, s')"
  shows "\<exists>k < length (frame p). tx s' = tx s @ take k (frame p)"
  using assms
proof (cases rule: write_frame_cases)
  case refused
  then show ?thesis by (intro exI[of _ 0]) (simp add: frame_def)
next
  case cut
  from write_all_fail[OF cut(2)] obtain k where "k < 4" "tx s' = tx s @ take k (be_word 4 (length p))" by auto
  then show ?thesis by (intro exI[of _ k]) (simp add: frame_def)
next
  case (sent s1)
  from write_all_fail[OF sent(2)] obtain k where "k < length p" "tx s' = tx s1 @ take k p" by auto
  then show ?thesis using write_all_ok[OF sent(1)] by (intro exI[of _ "4 + k"]) (simp add: frame_def)
qed

lemma write_frame_enough:
  "length p < 2 ^ 32 \<Longrightarrow> length (frame p) \<le> room s \<Longrightarrow>
   write_frame p s = (True, s\<lparr>tx := tx s @ frame p, room := room s - length (frame p)\<rparr>)"
  by (simp add: write_frame_def write_all_def frame_def)

lemma read_exact_Some:
  "read_exact n s = (Some b, s') \<longleftrightarrow> length b = n \<and> (\<exists>r. rx s = b @ r \<and> s' = s\<lparr>rx := r\<rparr>)"
  (is "_ \<longleftrightarrow> ?r")
proof
  assume ?r
  then show "read_exact n s = (Some b, s')" by (auto simp: read_exact_def)
next
  assume l: "read_exact n s = (Some b, s')"
  then have "n \<le> length (rx s)" "b = take n (rx s)" "s' = s\<lparr>rx := drop n (rx s)\<rparr>"
    by (auto simp: read_exact_def split: if_splits)
  then show ?r by (intro conjI exI[of _ "drop n (rx s)"]) simp_all
qed

lemma read_frame_Some:
  "read_frame s = (Some p, s') \<longleftrightarrow>
   length p \<le> MAX_FRAME \<and> (\<exists>r. rx s = frame p @ r \<and> s' = s\<lparr>rx := r\<rparr>)"
  (is "?l \<longleftrightarrow> ?r")
proof
  assume ?l
  then obtain l s1 where 1: "read_exact 4 s = (Some l, s1)" "be_nat l \<le> MAX_FRAME" "read_exact (be_nat l) s1 = (Some p, s')"
    by (auto simp: read_frame_def Let_def split: prod.splits option.splits if_splits)
  have "length l = 4" "length p = be_nat l" using 1 by (simp_all add: read_exact_Some)
  then have "frame p = l @ p" using be_word_be_nat[of l] by (simp add: frame_def)
  moreover obtain r where "rx s = l @ r" "s1 = s\<lparr>rx := r\<rparr>" using 1(1) by (auto simp: read_exact_Some)
  moreover then obtain r' where "r = p @ r'" "s' = s\<lparr>rx := r'\<rparr>" using 1(3) by (auto simp: read_exact_Some)
  ultimately show ?r using 1(2) \<open>length p = be_nat l\<close> by simp
next
  assume ?r
  then obtain r where r: "length p \<le> MAX_FRAME" "rx s = frame p @ r" "s' = s\<lparr>rx := r\<rparr>" by blast
  have "read_exact 4 s = (Some (be_word 4 (length p)), s\<lparr>rx := p @ r\<rparr>)"
    using r by (simp add: read_exact_Some frame_def)
  moreover have "be_nat (be_word 4 (length p)) = length p"
    using r by (intro be_nat_be_word) (simp add: MAX_FRAME_def)
  moreover have "read_exact (length p) (s\<lparr>rx := p @ r\<rparr>) = (Some p, s')" using r by (simp add: read_exact_Some)
  ultimately show ?l using r by (simp add: read_frame_def Let_def)
qed

lemma frame_eq: "length p < 2 ^ 32 \<Longrightarrow> length q < 2 ^ 32 \<Longrightarrow> frame p @ r = frame q @ r' \<longleftrightarrow> p = q \<and> r = r'"
proof
  assume l: "length p < 2 ^ 32" "length q < 2 ^ 32" and e: "frame p @ r = frame q @ r'"
  have "length p = length q" using frame_len[OF l(1), of r] frame_len[OF l(2), of r'] e by simp
  with e show "p = q \<and> r = r'" by (simp add: frame_def)
qed simp

section \<open>The opening of the exchange\<close>

lemma hello_Some:
  assumes "nonce_and_doc_exchange ch s = (Some (nonce, doc), s')"
  shows "\<exists>my_doc. ch_attest_fn ch nonce (ch_my_point ch) = Some my_doc \<and> length nonce = NONCE_LEN
    \<and> length doc \<le> MAX_FRAME \<and> rx s = frame nonce @ frame doc @ rx s'
    \<and> tx s' = tx s @ frame (ch_my_nonce ch) @ frame my_doc
    \<and> length (ch_my_nonce ch) < 2 ^ 32 \<and> length my_doc < 2 ^ 32"
proof -
  obtain s1 s2 my_doc s3 where
    1: "write_frame (ch_my_nonce ch) s = (True, s1)" and 2: "read_frame s1 = (Some nonce, s2)"
    and n: "length nonce = NONCE_LEN" and a: "ch_attest_fn ch nonce (ch_my_point ch) = Some my_doc"
    and 3: "write_frame my_doc s2 = (True, s3)" and 4: "read_frame s3 = (Some doc, s')"
    using assms by (auto simp: nonce_and_doc_exchange_def split: prod.splits option.splits bool.splits if_splits)
  have l: "length (ch_my_nonce ch) < 2 ^ 32" "length my_doc < 2 ^ 32"
    using 1 3 by (auto simp: write_frame_def not_le split: if_splits)
  obtain r where r: "rx s1 = frame nonce @ r" "s2 = s1\<lparr>rx := r\<rparr>" using 2 by (auto simp: read_frame_Some)
  obtain r' where r': "rx s3 = frame doc @ r'" "s' = s3\<lparr>rx := r'\<rparr>" "length doc \<le> MAX_FRAME"
    using 4 by (auto simp: read_frame_Some)
  show ?thesis
    using write_frame_ok[OF 1] write_frame_ok[OF 3] r r' n a l by simp
qed

lemma hello_complete:
  assumes "length (ch_my_nonce ch) = NONCE_LEN" "length nonce = NONCE_LEN"
    and "ch_attest_fn ch nonce (ch_my_point ch) = Some my_doc"
    and "length my_doc \<le> MAX_FRAME" "length doc \<le> MAX_FRAME"
    and "rx s = frame nonce @ frame doc @ r" "length (frame (ch_my_nonce ch)) + length (frame my_doc) \<le> room s"
  shows "nonce_and_doc_exchange ch s = (Some (nonce, doc), s\<lparr>rx := r,
     tx := tx s @ frame (ch_my_nonce ch) @ frame my_doc,
     room := room s - length (frame (ch_my_nonce ch)) - length (frame my_doc)\<rparr>)"
proof -
  let ?s1 = "s\<lparr>tx := tx s @ frame (ch_my_nonce ch), room := room s - length (frame (ch_my_nonce ch))\<rparr>"
  let ?s2 = "?s1\<lparr>rx := frame doc @ r\<rparr>"
  let ?s3 = "?s2\<lparr>tx := tx ?s2 @ frame my_doc, room := room ?s2 - length (frame my_doc)\<rparr>"
  have "write_frame (ch_my_nonce ch) s = (True, ?s1)"
    using assms by (intro write_frame_enough) (simp_all add: NONCE_LEN_def)
  moreover have "read_frame ?s1 = (Some nonce, ?s2)"
    using assms by (simp add: read_frame_Some MAX_FRAME_def NONCE_LEN_def)
  moreover have "write_frame my_doc ?s2 = (True, ?s3)"
    using assms by (intro write_frame_enough) (simp_all add: MAX_FRAME_def)
  moreover have "read_frame ?s3 = (Some doc, ?s3\<lparr>rx := r\<rparr>)"
    using assms by (simp add: read_frame_Some)
  ultimately show ?thesis using assms(2,3) by (simp add: nonce_and_doc_exchange_def)
qed

section \<open>What the server lets out\<close>

lemma server_exchange_wipes: "fst (snd (server_exchange hkdf ch i k s)) = replicate (length k) 0"
  by (auto simp: server_exchange_def refuse_wipe_def zeroize_def Let_def
      split: prod.splits option.splits sum.splits KeyDecision.splits bool.splits)

lemma server_exchange_granting:
  assumes "nonce_and_doc_exchange ch s = (Some (nonce, doc), t)" "bound_peer ch doc v"
    and "decide_handover (hi_own i) (hi_role i) (peer_pcr0 v) (hi_own_key_is_candidate i) (hi_approvals i) = d"
    and "d = OwnKey \<and> m = k \<and> ok = HandedOwnKey \<or> d = ChildKey l \<and> m = derive_child hkdf k l \<and> ok = HandedChild"
  shows "server_exchange hkdf ch i k s =
    (let (sent, t') = write_frame (TAG_GRANT # m) t in (if sent then Some ok else None, zeroize k, t'))"
proof -
  have "evaluate_peer ch doc = Inr v" using assms(2) by (simp add: evaluate_peer_Inr)
  then show ?thesis using assms(1,3,4)
    by (elim disjE) (auto simp: server_exchange_def Let_def split: prod.splits bool.splits)
qed

lemma server_exchange_cases:
  obtains (refusing) why t where
      "\<And>k. server_exchange hkdf ch i k s = (Some (ServerRefused why), zeroize k, snd (write_frame [TAG_DECLINE] t))"
      "t = snd (nonce_and_doc_exchange ch s)"
    | (granting) nonce doc t v where
      "nonce_and_doc_exchange ch s = (Some (nonce, doc), t)" "bound_peer ch doc v"
      "\<forall>r. decide_handover (hi_own i) (hi_role i) (peer_pcr0 v) (hi_own_key_is_candidate i) (hi_approvals i) \<noteq> Refuse r"
proof -
  obtain x t where x: "nonce_and_doc_exchange ch s = (x, t)" by (cases "nonce_and_doc_exchange ch s")
  show ?thesis
  proof (cases x)
    case None
    show ?thesis using x None by (intro refusing[of Protocol t]) (simp_all add: server_exchange_def Let_def)
  next
    case (Some p)
    obtain nonce doc where p: "p = (nonce, doc)" by (cases p)
    show ?thesis
    proof (cases "evaluate_peer ch doc")
      case (Inl reason)
      show ?thesis using x Some p Inl
        by (intro refusing[of reason t]) (simp_all add: server_exchange_def refuse_wipe_def Let_def)
    next
      case (Inr v)
      show ?thesis
      proof (cases "decide_handover (hi_own i) (hi_role i) (peer_pcr0 v) (hi_own_key_is_candidate i) (hi_approvals i)")
        case (Refuse r)
        show ?thesis using x Some p Inr Refuse
          by (intro refusing[of "PolicyRefused r" t]) (simp_all add: server_exchange_def refuse_wipe_def Let_def)
      qed (use x Some p Inr evaluate_peer_Inr in \<open>auto intro!: granting\<close>)
    qed
  qed
qed

lemma server_exchange_reveals:
  assumes "server_exchange hkdf ch i k1 s = (out1, left1, s1)" "server_exchange hkdf ch i k2 s = (out2, left2, s2)"
  shows "left1 = replicate (length k1) 0
    \<and> ((out1, tx s1) \<noteq> (out2, tx s2) \<longrightarrow> \<not> hi_own_key_is_candidate i
      \<and> (\<exists>nonce doc t v. nonce_and_doc_exchange ch s = (Some (nonce, doc), t) \<and> bound_peer ch doc v
        \<and> (peer_pcr0 v = img_pcr0 (hi_own i) \<or>
           (\<exists>a \<in> set (hi_approvals i). va_pcr0 a = peer_pcr0 v \<and> va_role a = hi_role i \<and>
             (va_mode a = Carry \<and> img_version (hi_own i) < va_version a \<or>
              va_mode a = Child \<and> hi_role i = Oracle
                \<and> derive_child hkdf k1 (va_label a) \<noteq> derive_child hkdf k2 (va_label a))))))"
proof (cases rule: server_exchange_cases[of hkdf ch i s])
  case (refusing why t)
  then show ?thesis using assms by (simp add: zeroize_def)
next
  case (granting nonce doc t v)
  let ?d = "decide_handover (hi_own i) (hi_role i) (peer_pcr0 v) (hi_own_key_is_candidate i) (hi_approvals i)"
  note auth = decide_handover_releases[OF refl granting(3)]
  have child: "derive_child hkdf k1 l \<noteq> derive_child hkdf k2 l" if "?d = ChildKey l" "(out1, tx s1) \<noteq> (out2, tx s2)" for l
    using assms that(2) server_exchange_granting[OF granting(1,2) that(1), of _ k1 HandedChild l hkdf]
      server_exchange_granting[OF granting(1,2) that(1), of _ k2 HandedChild l hkdf] by (auto split: prod.splits)
  have "left1 = replicate (length k1) 0" using server_exchange_wipes[of hkdf ch i k1 s] assms(1) by simp
  with auth granting(1,2) child show ?thesis by blast
qed

text \<open>
  C5. The key does not leak, and no copy stays behind. Running the server's exchange with two
  different keys, everything the peer can observe (the outcome and every byte written, also
  when the stream breaks halfway) is the same, unless the peer proved itself: its document
  verified, answers this channel's nonce and attests the very point of this TLS session, the
  key is not an unregistered candidate, and the peer runs the same image or is named by an
  owner approval for this role. An approval for a child reveals the keys only as far as their
  children under the approved label differ. On return the secret is zero on every path.
\<close>

theorem server_key_noninterference:
  assumes "server_exchange hkdf ch i k1 s = (out1, left1, s1)" "server_exchange hkdf ch i k2 s = (out2, left2, s2)"
  shows "left1 = replicate (length k1) 0
    \<and> ((out1, tx s1) \<noteq> (out2, tx s2) \<longrightarrow> \<not> hi_own_key_is_candidate i
      \<and> (\<exists>nonce doc t v. nonce_and_doc_exchange ch s = (Some (nonce, doc), t) \<and> bound_peer ch doc v
        \<and> (peer_pcr0 v = img_pcr0 (hi_own i) \<or>
           (\<exists>a \<in> set (hi_approvals i). va_pcr0 a = peer_pcr0 v \<and> va_role a = hi_role i \<and>
             (va_mode a = Carry \<and> img_version (hi_own i) < va_version a \<or>
              va_mode a = Child \<and> hi_role i = Oracle
                \<and> derive_child hkdf k1 (va_label a) \<noteq> derive_child hkdf k2 (va_label a))))))"
  by (rule server_exchange_reveals[OF assms])

section \<open>What the client installs\<close>

lemma client_installs:
  assumes "client_exchange ch a s = (Some (InstalledKey k), s')"
  shows "\<exists>nonce doc t v. nonce_and_doc_exchange ch s = (Some (nonce, doc), t) \<and> bound_peer ch doc v
    \<and> client_accepts_server (ai_kind a) (ai_own_pcr0 a) (peer_pcr0 v) (ai_baked_ancestors a) = Accept
    \<and> read_frame t = (Some (TAG_GRANT # k), s') \<and> length k = 32"
proof -
  obtain nonce doc t where h: "nonce_and_doc_exchange ch s = (Some (nonce, doc), t)"
    using assms by (auto simp: client_exchange_def split: prod.splits option.splits)
  obtain v where v: "evaluate_peer ch doc = Inr v"
    using assms h by (cases "evaluate_peer ch doc") (auto simp: client_exchange_def drain_and_refuse_def)
  obtain f where f: "read_frame t = (Some f, s')" "first f = Some TAG_GRANT" "length f = 33" "k = drop 1 f"
    "client_accepts_server (ai_kind a) (ai_own_pcr0 a) (peer_pcr0 v) (ai_baked_ancestors a) = Accept"
    using assms h v
    by (auto simp: client_exchange_def split: prod.splits option.splits if_splits ClientDecision.splits)
  have "f = TAG_GRANT # k" "length k = 32" using f by (cases f; simp)+
  then show ?thesis using h v f evaluate_peer_Inr by blast
qed

section \<open>Both ends of one connection\<close>

lemma frames_prefix:
  assumes "concat (map frame ps) @ r = take n (concat (map frame fs))"
    "\<forall>p \<in> set ps. length p < 2 ^ 32" "\<forall>p \<in> set fs. length p < 2 ^ 32"
  shows "\<exists>gs. fs = ps @ gs"
  using assms
proof (induction ps arbitrary: r n fs)
  case (Cons p ps)
  have "frame p @ concat (map frame ps) @ r @ drop n (concat (map frame fs)) = concat (map frame fs)"
    using Cons.prems(1) append_take_drop_id[of n "concat (map frame fs)"] by (metis append.assoc concat.simps(2) list.simps(9))
  moreover have "frame p \<noteq> []" by (rule frame_not_Nil)
  ultimately obtain f fs' where fs: "fs = f # fs'" by (cases fs) auto
  then have "frame p @ (concat (map frame ps) @ r @ drop n (concat (map frame fs))) = frame f @ concat (map frame fs')"
    using \<open>frame p @ _ = _\<close> by simp
  then have e: "p = f" "concat (map frame ps) @ r @ drop n (concat (map frame fs)) = concat (map frame fs')"
    using frame_eq[of p f] Cons.prems fs by auto
  have "concat (map frame ps) @ r @ drop n (concat (map frame fs)) = take (length (concat (map frame fs'))) (concat (map frame fs'))"
    using e(2) by simp
  from Cons.IH[OF this] show ?case using Cons.prems fs e(1) by auto
qed simp

text \<open>
  A stream to which the frames were written, in order: all of them, or a part of them that
  ends where the connection broke.
\<close>

definition sent_frames :: "stream \<Rightarrow> bytes list \<Rightarrow> stream \<Rightarrow> bool" where
  "sent_frames s fs s' \<longleftrightarrow> (\<forall>p \<in> set fs. length p < 2 ^ 32)
     \<and> (tx s' = tx s @ concat (map frame fs) \<or> room s' = 0 \<and> (\<exists>n. tx s' = tx s @ take n (concat (map frame fs))))"

lemma sent_frames_refl: "sent_frames s [] s"
  by (simp add: sent_frames_def)

lemma sent_frames_take: "sent_frames s fs s' \<Longrightarrow> \<exists>n. tx s' = tx s @ take n (concat (map frame fs))"
  by (auto simp: sent_frames_def intro: exI[of _ "length (concat (map frame fs))"])

lemma sent_frames_rx [simp]: "sent_frames s fs (s'\<lparr>rx := r\<rparr>) = sent_frames s fs s'"
  by (simp add: sent_frames_def)

lemma read_frame_sent: "read_frame s1 = (x, s2) \<Longrightarrow> sent_frames s fs s1 \<Longrightarrow> sent_frames s fs s2"
  by (auto simp: read_frame_def read_exact_def Let_def split: if_splits)

lemma write_all_broken: "write_all b s = (False, s') \<Longrightarrow> room s' = 0 \<and> (room s = 0 \<longrightarrow> tx s' = tx s)"
  by (auto simp: write_all_def split: if_splits)

lemma write_frame_broken: "room s = 0 \<Longrightarrow> write_frame p s = (ok, s') \<Longrightarrow> \<not> ok \<and> room s' = 0 \<and> tx s' = tx s"
proof -
  assume r: "room s = 0" and w: "write_frame p s = (ok, s')"
  have "\<not> length (be_word 4 (length p)) \<le> room s" using r by simp
  then have "write_all (be_word 4 (length p)) s = (False, s\<lparr>tx := tx s @ take (room s) (be_word 4 (length p)), room := 0\<rparr>)"
    unfolding write_all_def by (rule if_not_P)
  with w r show ?thesis by (cases rule: write_frame_cases[OF w]) auto
qed

lemma write_frame_sent:
  assumes "sent_frames s fs s1" "write_frame p s1 = (ok, s2)"
  shows "\<not> ok \<and> sent_frames s fs s2 \<or> sent_frames s (fs @ [p]) s2"
proof (cases "room s1 = 0")
  case True
  then show ?thesis using write_frame_broken[OF True assms(2)] assms(1) by (auto simp: sent_frames_def)
next
  case False
  then have f: "tx s1 = tx s @ concat (map frame fs)" "\<forall>p \<in> set fs. length p < 2 ^ 32"
    using assms(1) by (auto simp: sent_frames_def)
  show ?thesis
  proof (cases "length p < 2 ^ 32 \<and> (ok \<or> s2 \<noteq> s1)")
    case False
    then have "\<not> ok \<and> s2 = s1" using assms(2) unfolding write_frame_def by (auto split: if_splits)
    then show ?thesis using assms(1) by simp
  next
    case True
    show ?thesis
    proof (cases ok)
      case ok: True
      then show ?thesis using write_frame_ok[of p s1 s2] assms(2) f True by (simp add: sent_frames_def)
    next
      case ok: False
      then obtain k where k: "k < length (frame p)" "tx s2 = tx s1 @ take k (frame p)"
        using write_frame_fail[of p s1 s2] assms(2) by auto
      have "room s2 = 0" using assms(2) True ok by (cases rule: write_frame_cases) (auto dest: write_all_broken)
      then have "sent_frames s (fs @ [p]) s2"
        using k f True unfolding sent_frames_def by (auto intro!: exI[of _ "length (concat (map frame fs)) + k"])
      then show ?thesis by simp
    qed
  qed
qed

lemma hello_sent: "\<exists>fs. length fs \<le> 2 \<and> sent_frames s fs (snd (nonce_and_doc_exchange ch s))"
proof -
  obtain ok1 s1 where 1: "write_frame (ch_my_nonce ch) s = (ok1, s1)" by (cases "write_frame (ch_my_nonce ch) s")
  obtain fs1 where fs1: "length fs1 \<le> 1" "sent_frames s fs1 s1"
    using write_frame_sent[OF sent_frames_refl 1] by (metis append_Nil length_Cons list.size(3) le0 le_refl One_nat_def)
  obtain x s2 where 2: "read_frame s1 = (x, s2)" by (cases "read_frame s1")
  note r2 = read_frame_sent[OF 2 fs1(2)]
  show ?thesis
  proof (cases "\<exists>n d. ok1 \<and> x = Some n \<and> length n = NONCE_LEN \<and> ch_attest_fn ch n (ch_my_point ch) = Some d")
    case False
    then have "snd (nonce_and_doc_exchange ch s) \<in> {s1, s2}"
      using 1 2 by (auto simp: nonce_and_doc_exchange_def split: option.splits bool.splits)
    then show ?thesis using fs1 r2 by (intro exI[of _ fs1]) auto
  next
    case True
    then obtain n d where t: "ok1" "x = Some n" "length n = NONCE_LEN" "ch_attest_fn ch n (ch_my_point ch) = Some d" by blast
    obtain ok3 s3 where 3: "write_frame d s2 = (ok3, s3)" by (cases "write_frame d s2")
    obtain y s4 where 4: "read_frame s3 = (y, s4)" by (cases "read_frame s3")
    have "snd (nonce_and_doc_exchange ch s) \<in> {s3, s4}"
      using 1 2 3 4 t by (auto simp: nonce_and_doc_exchange_def split: option.splits bool.splits)
    then have s: "sent_frames s fs (snd (nonce_and_doc_exchange ch s))" if "sent_frames s fs s3" for fs
      using that read_frame_sent[OF 4 that] by auto
    from write_frame_sent[OF r2 3] s fs1(1) show ?thesis
      by (elim disjE) (auto intro: exI[of _ fs1] exI[of _ "fs1 @ [d]"])
  qed
qed

text \<open>The stream a party opens the exchange with, given what its peer will send.\<close>

definition fresh_stream :: "bytes \<Rightarrow> nat \<Rightarrow> stream" where
  "fresh_stream incoming n = \<lparr>rx = incoming, tx = [], room = n\<rparr>"

lemma fresh_stream_simps [simp]:
  "rx (fresh_stream b n) = b" "tx (fresh_stream b n) = []" "room (fresh_stream b n) = n"
  by (simp_all add: fresh_stream_def)

lemma frames_read_were_sent:
  assumes "sent_frames (fresh_stream b n) fs S" "tx S = incoming @ unread"
    and "incoming = concat (map frame ps) @ rest" "\<forall>p \<in> set ps. length p \<le> MAX_FRAME"
  shows "\<exists>gs. fs = ps @ gs"
proof -
  obtain m where m: "tx S = take m (concat (map frame fs))" using sent_frames_take[OF assms(1)] by auto
  show ?thesis
    by (rule frames_prefix[where r = "rest @ unread" and n = m])
      (use assms m in \<open>auto simp: sent_frames_def MAX_FRAME_def\<close>)
qed

lemma granted_was_released:
  assumes "server_exchange hkdf ch i key (fresh_stream from_client n) = (out, left, S)"
    and "tx S = from_server @ unread" "from_server = frame nonce @ frame doc @ frame (TAG_GRANT # k) @ rest"
    and "length nonce = NONCE_LEN" "length doc \<le> MAX_FRAME" "length k = 32"
  shows "\<exists>peer peer_doc t v d.
    nonce_and_doc_exchange ch (fresh_stream from_client n) = (Some (peer, peer_doc), t) \<and> bound_peer ch peer_doc v
    \<and> nonce = ch_my_nonce ch \<and> ch_attest_fn ch peer (ch_my_point ch) = Some doc
    \<and> decide_handover (hi_own i) (hi_role i) (peer_pcr0 v) (hi_own_key_is_candidate i) (hi_approvals i) = d
    \<and> (d = OwnKey \<and> k = key \<or> (\<exists>l. d = ChildKey l \<and> k = derive_child hkdf key l))"
proof -
  let ?s = "fresh_stream from_client n"
  let ?ps = "[nonce, doc, TAG_GRANT # k]"
  have read: "\<exists>gs. fs = ?ps @ gs" if "sent_frames ?s fs S" for fs
    by (rule frames_read_were_sent[OF that assms(2)])
      (use assms(3-6) in \<open>auto simp: NONCE_LEN_def MAX_FRAME_def\<close>)
  show ?thesis
  proof (cases rule: server_exchange_cases[of hkdf ch i ?s])
    case (refusing why t)
    obtain fs where fs: "length fs \<le> 2" "sent_frames ?s fs t" using hello_sent[of ?s ch] refusing(2) by auto
    obtain ok where w: "write_frame [TAG_DECLINE] t = (ok, S)"
      using refusing(1)[of key] assms(1) by (metis prod.collapse prod.inject)
    consider "\<exists>gs. fs = ?ps @ gs" | "\<exists>gs. fs @ [[TAG_DECLINE]] = ?ps @ gs"
      using write_frame_sent[OF fs(2) w] read by blast
    then show ?thesis
    proof cases
      case 2
      then have "fs = [nonce, doc]" "[TAG_DECLINE] = TAG_GRANT # k"
        using fs(1) by (cases fs; cases "tl fs"; auto)+
      then show ?thesis by (simp add: TAG_DECLINE_def TAG_GRANT_def)
    qed (use fs(1) in auto)
  next
    case (granting peer peer_doc t v)
    let ?d = "decide_handover (hi_own i) (hi_role i) (peer_pcr0 v) (hi_own_key_is_candidate i) (hi_approvals i)"
    obtain my_doc where a: "ch_attest_fn ch peer (ch_my_point ch) = Some my_doc"
      "sent_frames ?s [ch_my_nonce ch, my_doc] t"
      using hello_Some[OF granting(1)] by (auto simp: sent_frames_def)
    obtain m ok l where m: "?d = OwnKey \<and> m = key \<and> ok = HandedOwnKey
        \<or> ?d = ChildKey l \<and> m = derive_child hkdf key l \<and> ok = HandedChild"
      using granting(3) by (cases ?d) auto
    obtain w where w: "write_frame (TAG_GRANT # m) t = (w, S)"
      using server_exchange_granting[OF granting(1,2) refl m] assms(1) by (auto split: prod.splits)
    have "[ch_my_nonce ch, my_doc, TAG_GRANT # m] = ?ps"
      using write_frame_sent[OF a(2) w] read by fastforce
    then show ?thesis using granting(1,2) a(1) m by auto
  qed
qed

text \<open>
  C19. Agreement. Take a server and a client at the two ends of one connection, each reading
  only bytes the other wrote, in any pattern of breaks. If the client installs a key, then the
  server released exactly that key: its own, or the child of its own under the label the
  policy chose. The documents both sides verified were made by the other side's device, each
  for the verifier's own nonce and the signer's own TLS point, and each side's policy accepted
  the measurement it read.
\<close>

theorem handover_agreement:
  assumes "server_exchange hkdf chs i key (fresh_stream from_client n) = (out, left, S)"
    and "client_exchange chc a (fresh_stream from_server m) = (Some (InstalledKey k), C)"
    and "tx S = from_server @ more_s" "tx C = from_client @ more_c"
  shows "\<exists>doc_s doc_c v_s v_c d.
      ch_attest_fn chs (ch_my_nonce chc) (ch_my_point chs) = Some doc_s \<and> bound_peer chc doc_s v_s
    \<and> ch_attest_fn chc (ch_my_nonce chs) (ch_my_point chc) = Some doc_c \<and> bound_peer chs doc_c v_c
    \<and> client_accepts_server (ai_kind a) (ai_own_pcr0 a) (peer_pcr0 v_s) (ai_baked_ancestors a) = Accept
    \<and> decide_handover (hi_own i) (hi_role i) (peer_pcr0 v_c) (hi_own_key_is_candidate i) (hi_approvals i) = d
    \<and> (d = OwnKey \<and> k = key \<or> (\<exists>l. d = ChildKey l \<and> k = derive_child hkdf key l))"
proof -
  obtain nonce doc t v where c: "nonce_and_doc_exchange chc (fresh_stream from_server m) = (Some (nonce, doc), t)"
    "bound_peer chc doc v" "client_accepts_server (ai_kind a) (ai_own_pcr0 a) (peer_pcr0 v) (ai_baked_ancestors a) = Accept"
    "read_frame t = (Some (TAG_GRANT # k), C)" "length k = 32"
    using client_installs[OF assms(2)] by blast
  obtain my_doc where h: "ch_attest_fn chc nonce (ch_my_point chc) = Some my_doc" "length nonce = NONCE_LEN"
    "length doc \<le> MAX_FRAME" "from_server = frame nonce @ frame doc @ rx t"
    "tx t = frame (ch_my_nonce chc) @ frame my_doc" "length (ch_my_nonce chc) < 2 ^ 32" "length my_doc < 2 ^ 32"
    using hello_Some[OF c(1)] by auto
  obtain r where r: "rx t = frame (TAG_GRANT # k) @ r" "tx C = tx t" using c(4) by (auto simp: read_frame_Some)
  obtain peer peer_doc t' v' d where s:
    "nonce_and_doc_exchange chs (fresh_stream from_client n) = (Some (peer, peer_doc), t')" "bound_peer chs peer_doc v'"
    "nonce = ch_my_nonce chs" "ch_attest_fn chs peer (ch_my_point chs) = Some doc"
    "decide_handover (hi_own i) (hi_role i) (peer_pcr0 v') (hi_own_key_is_candidate i) (hi_approvals i) = d"
    "d = OwnKey \<and> k = key \<or> (\<exists>l. d = ChildKey l \<and> k = derive_child hkdf key l)"
    using granted_was_released[OF assms(1,3), of nonce doc k r] h r c(5) by auto
  have p: "from_client = frame peer @ frame peer_doc @ rx t'" "length peer = NONCE_LEN" "length peer_doc \<le> MAX_FRAME"
    using hello_Some[OF s(1)] by auto
  have "sent_frames (fresh_stream from_server m) [ch_my_nonce chc, my_doc] C"
    using h(5-7) r(2) by (simp add: sent_frames_def)
  from frames_read_were_sent[OF this assms(4), of "[peer, peer_doc]" "rx t'"] p
  have "peer = ch_my_nonce chc" "peer_doc = my_doc" by (simp_all add: NONCE_LEN_def MAX_FRAME_def)
  then show ?thesis using c(2,3) h(1) s by blast
qed

text \<open>
  The handover completes. When both devices attest, both verifiers accept and both policies
  agree, and neither direction breaks, the exchange runs to the end on both sides with each
  reading exactly what the other wrote: the server hands the key over and the client installs
  that very key.
\<close>

theorem handover_complete:
  assumes nonces: "length (ch_my_nonce chs) = NONCE_LEN" "length (ch_my_nonce chc) = NONCE_LEN"
    and doc_s: "ch_attest_fn chs (ch_my_nonce chc) (ch_my_point chs) = Some doc_s" "length doc_s \<le> MAX_FRAME" "bound_peer chc doc_s v_s"
    and doc_c: "ch_attest_fn chc (ch_my_nonce chs) (ch_my_point chc) = Some doc_c" "length doc_c \<le> MAX_FRAME" "bound_peer chs doc_c v_c"
    and accept: "client_accepts_server (ai_kind a) (ai_own_pcr0 a) (peer_pcr0 v_s) (ai_baked_ancestors a) = Accept"
    and decide: "decide_handover (hi_own i) (hi_role i) (peer_pcr0 v_c) (hi_own_key_is_candidate i) (hi_approvals i) = d"
    and grant: "d = OwnKey \<and> k = key \<and> out = HandedOwnKey \<or> d = ChildKey l \<and> k = derive_child hkdf key l \<and> out = HandedChild"
    and sizes: "length k = 32" "length doc_s + 77 \<le> n" "length doc_c + 40 \<le> m"
  shows "\<exists>from_client from_server S C.
      server_exchange hkdf chs i key (fresh_stream from_client n) = (Some out, replicate (length key) 0, S)
    \<and> client_exchange chc a (fresh_stream from_server m) = (Some (InstalledKey k), C)
    \<and> tx S = from_server \<and> tx C = from_client"
proof (intro exI conjI)
  let ?hs = "frame (ch_my_nonce chs) @ frame doc_s" and ?hc = "frame (ch_my_nonce chc) @ frame doc_c"
  let ?g = "frame (TAG_GRANT # k)"
  have lens: "length (frame (ch_my_nonce chs)) = 36" "length (frame (ch_my_nonce chc)) = 36"
    "length (frame doc_s) = 4 + length doc_s" "length (frame doc_c) = 4 + length doc_c" "length ?g = 37"
    using nonces sizes by (simp_all add: frame_def NONCE_LEN_def)
  let ?t = "(fresh_stream ?hc n)\<lparr>rx := [], tx := ?hs, room := n - 36 - (4 + length doc_s)\<rparr>"
  have "nonce_and_doc_exchange chs (fresh_stream ?hc n) = (Some (ch_my_nonce chc, doc_c), ?t)"
    using hello_complete[OF nonces doc_s(1,2) doc_c(2), of "fresh_stream ?hc n" "[]"] lens sizes by simp
  from server_exchange_granting[OF this doc_c(3) decide grant]
  show "server_exchange hkdf chs i key (fresh_stream ?hc n)
      = (Some out, replicate (length key) 0, ?t\<lparr>tx := ?hs @ ?g, room := room ?t - 37\<rparr>)"
    using write_frame_enough[of "TAG_GRANT # k" ?t] lens sizes by (simp add: zeroize_def)
  let ?u = "(fresh_stream (?hs @ ?g) m)\<lparr>rx := ?g, tx := ?hc, room := m - 36 - (4 + length doc_c)\<rparr>"
  have "nonce_and_doc_exchange chc (fresh_stream (?hs @ ?g) m) = (Some (ch_my_nonce chs, doc_s), ?u)"
    using hello_complete[OF nonces(2,1) doc_c(1,2) doc_s(2), of "fresh_stream (?hs @ ?g) m" ?g] lens sizes by simp
  moreover have "read_frame ?u = (Some (TAG_GRANT # k), ?u\<lparr>rx := []\<rparr>)"
    using sizes by (simp add: read_frame_Some MAX_FRAME_def)
  moreover have "evaluate_peer chc doc_s = Inr v_s" using doc_s(3) by (simp add: evaluate_peer_Inr)
  ultimately show "client_exchange chc a (fresh_stream (?hs @ ?g) m) = (Some (InstalledKey k), ?u\<lparr>rx := []\<rparr>)"
    using accept sizes(1) by (simp add: client_exchange_def)
qed simp_all

text \<open>Two enclaves of one image, for the witnesses: a document is the attested point.\<close>

definition demo_channel :: "u8 \<Rightarrow> u8 \<Rightarrow> Channel" where
  "demo_channel me peer = \<lparr>ch_my_nonce = replicate 32 me, ch_my_point = 4 # replicate 64 me,
     ch_peer_point = 4 # replicate 64 peer,
     ch_verifier = (\<lambda>doc nonce. Some \<lparr>peer_pcr0 = replicate 48 9, peer_nonce = Some nonce, peer_public_key = doc\<rparr>),
     ch_attest_fn = (\<lambda>nonce point. Some point)\<rparr>"

definition demo_inputs :: HandoverInputs where
  "demo_inputs = \<lparr>hi_own = toy_image 9 1, hi_role = Oracle, hi_own_key_is_candidate = False, hi_approvals = []\<rparr>"

definition demo_accept :: AcceptInputs where
  "demo_accept = \<lparr>ai_kind = RootFromRoot, ai_own_pcr0 = replicate 48 9, ai_baked_ancestors = []\<rparr>"

abbreviation demo_peer :: "u8 \<Rightarrow> u8 \<Rightarrow> VerifiedPeer" where
  "demo_peer me peer \<equiv> \<lparr>peer_pcr0 = replicate 48 9, peer_nonce = Some (replicate 32 me), peer_public_key = 4 # replicate 64 peer\<rparr>"

lemma demo_facts:
  "length (ch_my_nonce (demo_channel x y)) = NONCE_LEN"
  "ch_attest_fn (demo_channel x y) b (ch_my_point (demo_channel x y)) = Some (4 # replicate 64 x)"
  "bound_peer (demo_channel x y) (4 # replicate 64 y) (demo_peer x y)"
  "client_accepts_server (ai_kind demo_accept) (ai_own_pcr0 demo_accept) (replicate 48 9) (ai_baked_ancestors demo_accept) = Accept"
  "decide_handover (hi_own demo_inputs) (hi_role demo_inputs) (replicate 48 9) (hi_own_key_is_candidate demo_inputs)
     (hi_approvals demo_inputs) = OwnKey"
  by (simp_all add: demo_channel_def bound_peer_def NONCE_LEN_def demo_accept_def client_accepts_server_def
      demo_inputs_def decide_handover_def toy_image_def)

abbreviation demo_run_facts :: "bytes \<Rightarrow> bytes \<Rightarrow> bytes \<Rightarrow> stream \<Rightarrow> stream \<Rightarrow> bool" where
  "demo_run_facts key from_client from_server S C \<equiv>
      server_exchange (\<lambda>_ _ _. []) (demo_channel 1 2) demo_inputs key (fresh_stream from_client 200)
        = (Some HandedOwnKey, replicate (length key) 0, S)
    \<and> client_exchange (demo_channel 2 1) demo_accept (fresh_stream from_server 200) = (Some (InstalledKey key), C)
    \<and> tx S = from_server \<and> tx C = from_client"

theorem handover_complete_witness:
  "\<exists>from_client from_server S C. demo_run_facts (replicate 32 5) from_client from_server S C"
  by (rule handover_complete[where doc_s = "4 # replicate 64 1" and doc_c = "4 # replicate 64 2"
        and v_s = "demo_peer 2 1" and v_c = "demo_peer 1 2" and d = OwnKey])
    (simp_all add: demo_facts MAX_FRAME_def)

text \<open>The run of those two enclaves, spelled out for the other two witnesses.\<close>

definition demo_hello :: "u8 \<Rightarrow> bytes" where
  "demo_hello me = frame (replicate 32 me) @ frame (4 # replicate 64 me)"

lemma demo_hello_run:
  assumes "(me, peer) = (1, 2) \<or> (me, peer) = (2, 1)"
  shows "nonce_and_doc_exchange (demo_channel me peer) (fresh_stream (demo_hello peer @ r) 200)
    = (Some (replicate 32 peer, 4 # replicate 64 peer), \<lparr>rx = r, tx = demo_hello me, room = 95\<rparr>)"
proof -
  have "nonce_and_doc_exchange (demo_channel me peer) (fresh_stream (demo_hello peer @ r) 200) =
    (Some (replicate 32 peer, 4 # replicate 64 peer), (fresh_stream (demo_hello peer @ r) 200)\<lparr>rx := r,
     tx := tx (fresh_stream (demo_hello peer @ r) 200) @ frame (ch_my_nonce (demo_channel me peer)) @ frame (4 # replicate 64 me),
     room := room (fresh_stream (demo_hello peer @ r) 200)
       - length (frame (ch_my_nonce (demo_channel me peer))) - length (frame (4 # replicate 64 me))\<rparr>)"
    by (rule hello_complete[where doc = "4 # replicate 64 peer"])
      (simp_all add: demo_facts demo_hello_def NONCE_LEN_def MAX_FRAME_def frame_def demo_channel_def)
  then show ?thesis
    by (simp add: fresh_stream_def demo_hello_def demo_channel_def) (simp add: frame_def)
qed

lemma demo_server_run:
  assumes "length key = 32"
  shows "server_exchange hkdf (demo_channel 1 2) demo_inputs key (fresh_stream (demo_hello 2) 200) =
    (Some HandedOwnKey, replicate 32 0, \<lparr>rx = [], tx = demo_hello 1 @ frame (TAG_GRANT # key), room = 58\<rparr>)"
proof -
  have h: "nonce_and_doc_exchange (demo_channel 1 2) (fresh_stream (demo_hello 2) 200)
      = (Some (replicate 32 2, 4 # replicate 64 2), \<lparr>rx = [], tx = demo_hello 1, room = 95\<rparr>)"
    using demo_hello_run[of 1 2 "[]"] by simp
  have d: "decide_handover (hi_own demo_inputs) (hi_role demo_inputs) (peer_pcr0 (demo_peer 1 2))
      (hi_own_key_is_candidate demo_inputs) (hi_approvals demo_inputs) = OwnKey"
    using demo_facts(5) by simp
  have "length (frame (TAG_GRANT # key)) = 37" using assms by (simp add: frame_def)
  then show ?thesis
    using server_exchange_granting[OF h demo_facts(3)[of 1 2] d, of key key HandedOwnKey undefined hkdf]
      write_frame_enough[of "TAG_GRANT # key" "\<lparr>rx = [], tx = demo_hello 1, room = 95\<rparr>"] assms
    by (simp add: zeroize_def)
qed

theorem server_key_noninterference_witness:
  "\<exists>nonce doc t v. nonce_and_doc_exchange (demo_channel 1 2) (fresh_stream (demo_hello 2) 200) = (Some (nonce, doc), t)
     \<and> bound_peer (demo_channel 1 2) doc v"
proof -
  have "demo_hello 1 @ frame (TAG_GRANT # replicate 32 5) \<noteq> demo_hello 1 @ frame (TAG_GRANT # replicate 32 6)"
    by (simp add: frame_def)
  then show ?thesis
    using server_key_noninterference[OF demo_server_run[of "replicate 32 5" "\<lambda>_ _ _. []"]
        demo_server_run[of "replicate 32 6" "\<lambda>_ _ _. []"]] by auto
qed

theorem handover_agreement_witness:
  "\<exists>v_s. bound_peer (demo_channel 2 1) (4 # replicate 64 1) v_s
     \<and> client_accepts_server RootFromRoot (replicate 48 9) (peer_pcr0 v_s) [] = Accept"
proof -
  let ?fs = "demo_hello 1 @ frame (TAG_GRANT # replicate 32 5)"
  let ?t = "\<lparr>rx = frame (TAG_GRANT # replicate 32 5), tx = demo_hello 2, room = 95\<rparr>"
  have "nonce_and_doc_exchange (demo_channel 2 1) (fresh_stream ?fs 200) = (Some (replicate 32 1, 4 # replicate 64 1), ?t)"
    using demo_hello_run[of 2 1] by simp
  moreover have "read_frame ?t = (Some (TAG_GRANT # replicate 32 5), ?t\<lparr>rx := []\<rparr>)"
    by (simp add: read_frame_Some MAX_FRAME_def)
  moreover have "evaluate_peer (demo_channel 2 1) (4 # replicate 64 1) = Inr (demo_peer 2 1)"
    using demo_facts(3)[of 2 1] by (simp only: evaluate_peer_Inr)
  ultimately have c: "client_exchange (demo_channel 2 1) demo_accept (fresh_stream ?fs 200)
      = (Some (InstalledKey (replicate 32 5)), ?t\<lparr>rx := []\<rparr>)"
    using demo_facts(4) by (simp add: client_exchange_def)
  have k: "length (replicate 32 (5 :: byte)) = 32" by simp
  from handover_agreement[OF demo_server_run[OF k, of "\<lambda>_ _ _. []"] c, of "[]" "[]"]
  show ?thesis using demo_facts(2)[of 1 2] by (auto simp: demo_accept_def)
qed

section \<open>The tunnel\<close>

lemma read_reply_Some:
  "read_reply buf incoming = (Some out, rest) \<Longrightarrow>
   \<exists>h. incoming = h @ rest \<and> out = buf @ h \<and> h \<noteq> [] \<and> suffix (CRLF @ CRLF) out
     \<and> (\<forall>p q. h = p @ q \<longrightarrow> p \<noteq> [] \<longrightarrow> q \<noteq> [] \<longrightarrow> \<not> suffix (CRLF @ CRLF) (buf @ p))"
proof (induction buf incoming rule: read_reply.induct)
  case (2 buf b incoming)
  let ?e = "suffix (CRLF @ CRLF)"
  show ?case
  proof (cases "?e (buf @ [b])")
    case True
    then show ?thesis using "2.prems" by (intro exI[of _ "[b]"]) (auto simp: Let_def Cons_eq_append_conv)
  next
    case False
    then have "\<not> length (buf @ [b]) > 8192" "read_reply (buf @ [b]) incoming = (Some out, rest)"
      using "2.prems" by (auto simp: Let_def split: if_splits)
    from "2.IH"[OF refl False this] obtain h where h: "incoming = h @ rest" "out = (buf @ [b]) @ h" "h \<noteq> []" "?e out"
      "\<forall>p q. h = p @ q \<longrightarrow> p \<noteq> [] \<longrightarrow> q \<noteq> [] \<longrightarrow> \<not> ?e ((buf @ [b]) @ p)" by blast
    have "\<not> ?e (buf @ p)" if "b # h = p @ q" "p \<noteq> []" "q \<noteq> []" for p q
    proof -
      have p: "p = b # tl p" "h = tl p @ q" using that by (cases p; simp)+
      then have "buf @ p = (buf @ [b]) @ tl p" by simp
      then show ?thesis using h(5) False p(2) that(3) by (cases "tl p = []") (simp_all del: append_assoc)
    qed
    then show ?thesis using h(1-4) by (intro exI[of _ "b # h"]) auto
  qed
qed simp

text \<open>
  The tunnel starts exactly behind the proxy's reply: what is left to read is everything after
  the first empty line, so no byte of the peer's TLS handshake is swallowed.
\<close>

lemma connect_via_proxy_exact:
  assumes "connect_via_proxy (Some tcp) target = Some tcp'"
  shows "\<exists>reply. rx tcp = reply @ rx tcp' \<and> suffix (CRLF @ CRLF) reply
    \<and> (\<forall>p. strict_prefix p reply \<longrightarrow> \<not> suffix (CRLF @ CRLF) p) \<and> tx tcp' = tx tcp @ connect_request target"
proof -
  obtain t where t: "write_all (connect_request target) tcp = (True, t)"
    using assms by (auto simp: connect_via_proxy_def split: prod.splits bool.splits)
  then obtain buf incoming where r: "read_reply [] (rx t) = (Some buf, incoming)" "tcp' = t\<lparr>rx := incoming\<rparr>"
    using assms by (auto simp: connect_via_proxy_def Let_def split: prod.splits option.splits if_splits)
  have w: "tx t = tx tcp @ connect_request target" "rx t = rx tcp" using write_all_ok[OF t] by auto
  obtain h where h: "rx t = h @ incoming" "buf = h" "suffix (CRLF @ CRLF) h"
    "\<forall>p q. h = p @ q \<longrightarrow> p \<noteq> [] \<longrightarrow> q \<noteq> [] \<longrightarrow> \<not> suffix (CRLF @ CRLF) p"
    using read_reply_Some[OF r(1)] by auto
  have "\<not> suffix (CRLF @ CRLF) p" if p: "strict_prefix p h" for p
  proof (cases "p = []")
    case False
    then show ?thesis using h(4) p by (auto simp: strict_prefix_def prefix_def)
  qed (simp add: CRLF_def)
  then show ?thesis using h(1,3) r(2) w by auto
qed

section \<open>What a fetch brings home\<close>

text \<open>A server document that passed everything a fetching enclave asks of it.\<close>

definition accepted_server :: "nitro_crypto \<Rightarrow> RatlsPeerSource \<Rightarrow> FetchKind \<Rightarrow> VerifiedAttestation \<Rightarrow> bool" where
  "accepted_server N src kind va \<longleftrightarrow>
     (\<exists>now doc nonce der. verify_attestation N doc now None (Some nonce) = Some va
       \<and> public_point_from_cert N der = Some (va_public_key va))
     \<and> client_accepts_server kind (src_own_pcr0 src) (va_doc_pcr0 va) (src_baked_ancestors src) = Accept"

lemma fetch_accepted:
  assumes "RatlsPeerSource_fetch E key_of N enc src endpoint kind s = (Inr (Some fk), s')"
  shows "fk_address fk = address_from_key E (verifying_key E (fk_key fk))
    \<and> (\<exists>raw. length raw = 32 \<and> key_of raw = Some (fk_key fk)) \<and> (\<exists>va. accepted_server N src kind va)"
proof -
  obtain net target hs now where f: "fetch_via_proxy E key_of N net target hs
      \<lparr>ai_kind = kind, ai_own_pcr0 = src_own_pcr0 src, ai_baked_ancestors = src_baked_ancestors src\<rparr> = Inr (Some fk)"
    "hs_verifier hs = NsmPeerVerifier_verify N now"
    using assms by (fastforce simp: RatlsPeerSource_fetch_def Let_def split: prod.splits option.splits)
  let ?a = "\<lparr>ai_kind = kind, ai_own_pcr0 = src_own_pcr0 src, ai_baked_ancestors = src_baked_ancestors src\<rparr>"
  obtain tcp raw where c: "fst (run_client_handshake N (tls_connect net) tcp hs ?a) = Some (InstalledKey raw)"
    "FetchedKey_from_bytes E key_of raw = Some fk"
    using f(1) by (auto simp: fetch_via_proxy_def split: option.splits if_splits ClientExchange.splits)
  obtain point st st' certs where r: "live_peer_point N certs = Some point"
    "client_exchange (channel_of hs point) ?a st = (Some (InstalledKey raw), st')"
    using c(1) by (auto simp: run_client_handshake_def split: option.splits) (metis prod.collapse)
  obtain nonce doc t v where v: "bound_peer (channel_of hs point) doc v"
    "client_accepts_server kind (src_own_pcr0 src) (peer_pcr0 v) (src_baked_ancestors src) = Accept" "length raw = 32"
    using client_installs[OF r(2)] by auto
  have n: "NsmPeerVerifier_verify N now doc (hs_my_nonce hs) = Some v" "peer_public_key v = point"
    using v(1) f(2) by (auto simp: bound_peer_def channel_of_def)
  then obtain va where va: "verify_attestation N doc now None (Some (hs_my_nonce hs)) = Some va"
    "peer_pcr0 v = va_doc_pcr0 va" "va_public_key va = point"
    by (auto simp: NsmPeerVerifier_verify_def split: option.splits)
  obtain der where "public_point_from_cert N der = Some point"
    using r(1) by (auto simp: live_peer_point_def split: option.splits)
  then have "accepted_server N src kind va" using va v(2) unfolding accepted_server_def by auto
  moreover have "fk_address fk = address_from_key E (verifying_key E (fk_key fk))" "key_of raw = Some (fk_key fk)"
    using c(2) by (auto simp: FetchedKey_from_bytes_def)
  ultimately show ?thesis using v(3) by blast
qed

section \<open>Boot over attested peers\<close>


text \<open>An enclave and a parent it can reach, for the witness.\<close>

definition demo_attempt :: attempt where
  "demo_attempt = \<lparr>in_time = True, config_ok = True,
     proxy = Some \<lparr>rx = ascii ''HTTP/1.1 200 OK'' @ CRLF @ CRLF, tx = [], room = 500\<rparr>,
     tls_connect = (\<lambda>_. Some (fresh_stream (frame (replicate 32 3) @ frame [1] @ frame (TAG_GRANT # replicate 32 5)) 200, Some [[1]]))\<rparr>"

definition demo_enclave :: "nat enclave" where
  "demo_enclave = \<lparr>enc_rcgen = (\<lambda>s. (Some ([1], [2]), s)), enc_nonce = (\<lambda>s. (Some [9], s)),
     enc_now = (\<lambda>s. (Some 6, s)), enc_attest = (\<lambda>s n p. Some []), enc_network = (\<lambda>t s. (demo_attempt, Suc s))\<rparr>"

definition demo_source :: RatlsPeerSource where
  "demo_source = \<lparr>src_own_pcr0 = replicate 48 2, src_baked_ancestors = [replicate 48 1]\<rparr>"

lemma demo_reply: "ascii ''HTTP/1.1 200 OK'' @ CRLF @ CRLF = [72, 84, 84, 80, 47, 49, 46, 49, 32, 50, 48, 48, 32, 79, 75, 13, 10, 13, 10]"
  by (simp add: ascii_def CRLF_def)

lemma demo_tunnel: "\<exists>tcp. connect_via_proxy (proxy demo_attempt) ''p:1'' = Some tcp"
proof -
  have "read_reply [] [72, 84, 84, 80, 47, 49, 46, 49, 32, 50, 48, 48, 32, 79, 75, 13, 10, 13, 10]
      = (Some [72, 84, 84, 80, 47, 49, 46, 49, 32, 50, 48, 48, 32, 79, 75, 13, 10, 13, 10], [])"
    by (simp add: Let_def CRLF_def suffix_to_prefix)
  moreover have "Option.bind (utf8_decode [72, 84, 84, 80, 47, 49, 46, 49, 32, 50, 48, 48, 32, 79, 75]) second_token
      = Some (map of_char ''200'')"
    by (simp add: second_token_def is_whitespace_def)
  moreover have "length (connect_request ''p:1'') \<le> 500" by (simp add: connect_request_def ascii_def CRLF_def)
  ultimately show ?thesis by (simp add: connect_via_proxy_def demo_attempt_def demo_reply write_all_def)
qed

lemma demo_fetch_run:
  assumes r: "pinned_root = Some root"
  shows "RatlsPeerSource_fetch toy_curve Some (demo_crypto root) demo_enclave demo_source ''p:1'' BridgeFromParent s
    = (Inr (Some \<lparr>fk_address = address_from_key toy_curve (verifying_key toy_curve (replicate 32 5)), fk_key = replicate 32 5\<rparr>), Suc s)"
proof -
  let ?N = "demo_crypto root" and ?p = "4 # replicate 64 7" and ?k = "replicate 32 (5 :: byte)"
  let ?cert = "\<lparr>cert_der = [1], key_der = [2], public_point = ?p\<rparr>"
  let ?hs = "\<lparr>hs_my_cert = ?cert, hs_my_nonce = [9], hs_verifier = NsmPeerVerifier_verify ?N 6, hs_attest_fn = \<lambda>n p. Some []\<rparr>"
  let ?a = "\<lparr>ai_kind = BridgeFromParent, ai_own_pcr0 = replicate 48 2, ai_baked_ancestors = [replicate 48 1]\<rparr>"
  let ?v = "\<lparr>peer_pcr0 = replicate 48 1, peer_nonce = Some [9], peer_public_key = ?p\<rparr>"
  let ?s = "fresh_stream (frame (replicate 32 3) @ frame [1] @ frame (TAG_GRANT # ?k)) 200"
  have p: "public_point_from_cert ?N d = Some ?p" for d by (simp add: public_point_from_cert_def Let_def)
  have v: "NsmPeerVerifier_verify ?N 6 [1] [9] = Some ?v"
    unfolding NsmPeerVerifier_verify_def using demo_attested[OF r, of 6 "[9]"] by (simp add: demo_parses demo_va_def)
  let ?s1 = "?s\<lparr>tx := frame [9], room := 195\<rparr>"
  let ?s2 = "?s1\<lparr>rx := frame [1] @ frame (TAG_GRANT # ?k)\<rparr>"
  let ?s3 = "?s2\<lparr>tx := frame [9] @ frame [], room := 191\<rparr>"
  define t where "t = ?s3\<lparr>rx := frame (TAG_GRANT # ?k)\<rparr>"
  have l: "length (frame [9]) = 5" "length (frame []) = 4" by (simp_all add: frame_def)
  have "write_frame [9] ?s = (True, ?s1)" "write_frame [] ?s2 = (True, ?s3)"
    using l by (simp_all add: write_frame_enough)
  moreover have "read_frame ?s1 = (Some (replicate 32 3), ?s2)" "read_frame ?s3 = (Some [1], t)"
    by (simp_all add: read_frame_Some MAX_FRAME_def t_def)
  ultimately have h: "nonce_and_doc_exchange (channel_of ?hs ?p) ?s = (Some (replicate 32 3, [1]), t)"
      "rx t = frame (TAG_GRANT # ?k)"
    by (simp_all add: nonce_and_doc_exchange_def channel_of_def NONCE_LEN_def t_def)
  have "evaluate_peer (channel_of ?hs ?p) [1] = Inr ?v"
    using v by (simp add: evaluate_peer_Inr bound_peer_def channel_of_def)
  moreover have "read_frame t = (Some (TAG_GRANT # ?k), t\<lparr>rx := []\<rparr>)"
    using h(2) by (simp add: read_frame_Some MAX_FRAME_def)
  ultimately have c: "client_exchange (channel_of ?hs ?p) ?a ?s = (Some (InstalledKey ?k), t\<lparr>rx := []\<rparr>)"
    using h(1) by (simp add: client_exchange_def client_accepts_server_def)
  obtain tcp where "connect_via_proxy (proxy demo_attempt) ''p:1'' = Some tcp" using demo_tunnel by blast
  moreover have "run_client_handshake ?N (tls_connect demo_attempt) tcp ?hs ?a = (Some (InstalledKey ?k), t\<lparr>rx := []\<rparr>)"
    using c p by (simp add: run_client_handshake_def demo_attempt_def live_peer_point_def)
  moreover have "in_time demo_attempt" "config_ok demo_attempt" by (simp_all add: demo_attempt_def)
  ultimately show ?thesis using p
    by (simp add: RatlsPeerSource_fetch_def demo_enclave_def demo_source_def generate_ephemeral_cert_def
        with_default_port_def fetch_via_proxy_def FetchedKey_from_bytes_def Let_def)
qed


end
