(* ===== verification/F64.thy ===== *)
theory F64
  imports Complex_Main Prelude "HOL-Library.Log_Nat"
begin

text \<open>
  Rust's \<open>f64\<close>: IEEE 754 binary64 with rounding to nearest, ties to even.

  A finite value is the rational number it denotes; \<open>Fin 0\<close> is \<open>+0.0\<close>, \<open>NZero\<close> is
  \<open>-0.0\<close>, and there is one \<open>NaN\<close>. Each arithmetic operation computes the exact rational
  result and rounds it once with \<open>mkf\<close>, which yields an infinity on overflow. \<open>f64_ok\<close> says
  that a value is one of the 2^64 doubles; every operation returns such a value. The order
  relations are those of IEEE 754: all of them are false when an operand is \<open>NaN\<close>.

  Rounding is defined on exponents found with \<open>bitlen\<close> and is evaluated by code equations
  over integers. The lemmas the components use are monotonicity (\<open>rnd_mono\<close>, \<open>mkf_mono\<close>),
  exactness on representable numbers (\<open>rnd_exact\<close>) and the error bound (\<open>rnd_error\<close>).
\<close>

section \<open>Rounding of rational numbers\<close>

datatype f64 = NaN | PInf | NInf | NZero | Fin rat

abbreviation p2 :: "int \<Rightarrow> rat" where
  "p2 e \<equiv> 2 powi e"

lemma p2_pos [simp]: "0 < p2 e"
  by simp

lemma p2_less_iff [simp]: "p2 a < p2 b \<longleftrightarrow> a < b"
proof
  show "a < b \<Longrightarrow> p2 a < p2 b"
    by (rule power_int_strict_increasing) auto
  show "p2 a < p2 b \<Longrightarrow> a < b"
    using power_int_increasing[of b a "2::rat"] by (cases "a < b") auto
qed

lemma p2_le_iff [simp]: "p2 a \<le> p2 b \<longleftrightarrow> a \<le> b"
  using p2_less_iff[of b a] by linarith

lemma p2_add: "p2 (a + b) = p2 a * p2 b"
  by (simp add: power_int_add)

lemma p2_div: "p2 a / p2 b = p2 (a - b)"
  by (simp add: power_int_diff)

lemma p2_of_int: "0 \<le> e \<Longrightarrow> p2 e = of_int (2 ^ nat e)"
  by (simp add: power_int_def)

definition rexp :: "rat \<Rightarrow> int" where
  "rexp x = (let (p, q) = quotient_of x; k = bitlen p - bitlen q
             in if 2 powi k \<le> x then k else k - 1)"

definition rne :: "rat \<Rightarrow> int" where
  "rne x = (let f = \<lfloor>x\<rfloor>; d = x - of_int f
            in if d < 1 / 2 then f else if 1 / 2 < d then f + 1 else if even f then f else f + 1)"

definition ulp_exp :: "rat \<Rightarrow> int" where
  "ulp_exp x = max (rexp x - 52) (- 1074)"

definition rnd_mag :: "rat \<Rightarrow> rat" where
  "rnd_mag x = (if x \<le> 0 then 0
     else let u = 2 powi ulp_exp x in of_int (rne (x / u)) * u)"

definition rnd :: "rat \<Rightarrow> rat" where
  "rnd x = (if x < 0 then - rnd_mag (- x) else rnd_mag x)"


subsection \<open>Exponents and nearest integers\<close>

lemma rexp_bounds:
  assumes "0 < x"
  shows "2 powi (rexp x) \<le> x \<and> x < 2 powi (rexp x + 1)"
proof -
  obtain p q where pq: "quotient_of x = (p, q)" by (cases "quotient_of x")
  then have q: "0 < q" and x: "x = of_int p / of_int q"
    using quotient_of_denom_pos quotient_of_div by blast+
  with assms have p: "0 < p" by (simp add: zero_less_divide_iff)
  define a where "a = nat (bitlen p - 1)"
  define b where "b = nat (bitlen q - 1)"
  have bp: "bitlen p = int a + 1" and bq: "bitlen q = int b + 1"
    using p q bitlen_nonneg[of p] bitlen_nonneg[of q] bitlen_eq_zero_iff[of p] bitlen_eq_zero_iff[of q]
    by (auto simp: a_def b_def)
  have pl: "2 ^ a \<le> p" and pu: "p < 2 ^ (a + 1)" and ql: "2 ^ b \<le> q" and qu: "q < 2 ^ (b + 1)"
    using bitlen_bounds[OF p] bitlen_bounds[OF q] by (auto simp: bp bq nat_add_distrib)
  have rpl: "(2::rat) ^ a \<le> of_int p" and rpu: "of_int p < (2::rat) ^ (a + 1)"
    and rql: "(2::rat) ^ b \<le> of_int q" and rqu: "of_int q < (2::rat) ^ (b + 1)"
    using pl pu ql qu by (metis of_int_le_iff of_int_less_iff of_int_numeral of_int_power)+
  have k: "2 powi (int a - int b) = (2::rat) ^ a / 2 ^ b"
    by (simp add: power_int_diff)
  have up: "x < 2 powi (int a - int b + 1)"
  proof -
    have "x < 2 ^ (a + 1) / 2 ^ b"
      unfolding x using rpu rql p by (intro frac_less) auto
    then show ?thesis by (simp add: power_int_add k mult.commute)
  qed
  have lo: "2 powi (int a - int b - 1) \<le> x"
  proof -
    have "(2::rat) ^ a / 2 ^ (b + 1) \<le> x"
      unfolding x using rpl rqu p q by (intro frac_le) auto
    then show ?thesis by (simp add: power_int_diff)
  qed
  show ?thesis
    using up lo by (auto simp: rexp_def pq bp bq Let_def)
qed

lemma rexp_unique:
  assumes "0 < x" "2 powi e \<le> x" "x < 2 powi (e + 1)"
  shows "rexp x = e"
proof -
  have "2 powi (rexp x) < (2::rat) powi (e + 1)" "2 powi e < (2::rat) powi (rexp x + 1)"
    using rexp_bounds[OF assms(1)] assms(2,3) by linarith+
  then have "rexp x < e + 1" "e < rexp x + 1"
    by simp_all
  then show ?thesis by simp
qed

lemma rexp_mono: "0 < x \<Longrightarrow> x \<le> y \<Longrightarrow> rexp x \<le> rexp y"
proof -
  assume "0 < x" "x \<le> y"
  then have "2 powi (rexp x) < (2::rat) powi (rexp y + 1)"
    using rexp_bounds[of x] rexp_bounds[of y] by linarith
  then show ?thesis by simp
qed

lemma rne_cases: "rne x = \<lfloor>x\<rfloor> \<and> x - of_int \<lfloor>x\<rfloor> \<le> 1/2 \<or> rne x = \<lfloor>x\<rfloor> + 1 \<and> 1/2 \<le> x - of_int \<lfloor>x\<rfloor>"
  by (auto simp: rne_def Let_def)

lemma rne_of_int [simp]: "rne (of_int n) = n"
  by (simp add: rne_def)

lemma rne_error: "\<bar>of_int (rne x) - x\<bar> \<le> 1 / 2"
  using rne_cases[of x] of_int_floor_le[of x] floor_correct[of x] unfolding abs_le_iff
  by (elim disjE conjE) (simp_all, linarith+)

lemma rne_mono: "x \<le> y \<Longrightarrow> rne x \<le> rne y"
proof -
  assume le: "x \<le> y"
  show ?thesis
  proof (cases "\<lfloor>x\<rfloor> = \<lfloor>y\<rfloor>")
    case True
    with le show ?thesis by (auto simp: rne_def Let_def)
  next
    case False
    with le have "\<lfloor>x\<rfloor> + 1 \<le> \<lfloor>y\<rfloor>" using floor_mono[OF le] by linarith
    then show ?thesis using rne_cases[of x] rne_cases[of y] by auto
  qed
qed

subsection \<open>Rounding a magnitude\<close>

lemma rnd_mag_pos: "0 < x \<Longrightarrow> rnd_mag x = of_int (rne (x / p2 (ulp_exp x))) * p2 (ulp_exp x)"
  by (simp add: rnd_mag_def Let_def)

lemma rnd_mag_0 [simp]: "rnd_mag 0 = 0"
  by (simp add: rnd_mag_def)

lemma rne_p2: "0 \<le> e \<Longrightarrow> rne (p2 e) = 2 ^ nat e"
  by (metis p2_of_int rne_of_int)

lemma rnd_mag_le_p2:
  assumes "0 < x" "x \<le> p2 e" "ulp_exp x \<le> e"
  shows "rnd_mag x \<le> p2 e"
proof -
  let ?u = "ulp_exp x"
  have "x / p2 ?u \<le> p2 (e - ?u)"
    using assms(2) by (simp flip: p2_div add: divide_right_mono)
  from rne_mono[OF this] have "rne (x / p2 ?u) \<le> 2 ^ nat (e - ?u)"
    using assms(3) by (simp add: rne_p2)
  then have "of_int (rne (x / p2 ?u)) \<le> p2 (e - ?u)"
    using assms(3) by (simp add: p2_of_int del: of_int_power) 
  then have "of_int (rne (x / p2 ?u)) * p2 ?u \<le> p2 (e - ?u) * p2 ?u"
    by (intro mult_right_mono) auto
  then show ?thesis
    using assms(1) by (simp add: rnd_mag_pos flip: p2_add)
qed

lemma rnd_mag_ge_p2:
  assumes "0 < x" "p2 e \<le> x" "ulp_exp x \<le> e"
  shows "p2 e \<le> rnd_mag x"
proof -
  let ?u = "ulp_exp x"
  have "p2 (e - ?u) \<le> x / p2 ?u"
    using assms(2) by (simp flip: p2_div add: divide_right_mono)
  from rne_mono[OF this] have "2 ^ nat (e - ?u) \<le> rne (x / p2 ?u)"
    using assms(3) by (simp add: rne_p2)
  then have "p2 (e - ?u) \<le> of_int (rne (x / p2 ?u))"
    using assms(3) by (simp add: p2_of_int del: of_int_power) 
  then have "p2 (e - ?u) * p2 ?u \<le> of_int (rne (x / p2 ?u)) * p2 ?u"
    by (intro mult_right_mono) auto
  then show ?thesis
    using assms(1) by (simp add: rnd_mag_pos flip: p2_add)
qed

lemma rne_nonneg: "0 \<le> x \<Longrightarrow> 0 \<le> rne x"
  using rne_mono[of 0 x] rne_of_int[of 0] by simp

lemma rnd_mag_nonneg: "0 \<le> x \<Longrightarrow> 0 \<le> rnd_mag x"
  by (cases "x = 0") (auto simp: rnd_mag_pos rne_nonneg)

lemma rnd_mag_mono:
  assumes "0 \<le> x" "x \<le> y"
  shows "rnd_mag x \<le> rnd_mag y"
proof (cases "x = 0")
  case True
  with assms show ?thesis by (simp add: rnd_mag_nonneg)
next
  case False
  with assms have x: "0 < x" and y: "0 < y" by auto
  have e: "rexp x \<le> rexp y" using x assms(2) by (rule rexp_mono)
  show ?thesis
  proof (cases "ulp_exp x = ulp_exp y")
    case True
    have "rne (x / p2 (ulp_exp y)) \<le> rne (y / p2 (ulp_exp y))"
      using assms(2) by (intro rne_mono divide_right_mono) auto
    then show ?thesis
      using x y True by (simp add: rnd_mag_pos mult_right_mono)
  next
    case False
    with e have lt: "rexp x < rexp y" and uy: "ulp_exp y = rexp y - 52" and ux: "ulp_exp x \<le> rexp y"
      by (auto simp: ulp_exp_def)
    have "x \<le> p2 (rexp y)"
      using rexp_bounds[OF x] lt p2_le_iff[of "rexp x + 1" "rexp y"] by linarith
    then have "rnd_mag x \<le> p2 (rexp y)"
      using x ux by (intro rnd_mag_le_p2)
    also have "\<dots> \<le> rnd_mag y"
      using y rexp_bounds[OF y] uy by (intro rnd_mag_ge_p2) auto
    finally show ?thesis .
  qed
qed

definition rep :: "rat \<Rightarrow> bool" where
  "rep x \<longleftrightarrow> (\<exists>m e. x = of_int m * p2 e \<and> \<bar>m\<bar> \<le> 2 ^ 53 \<and> - 1074 \<le> e)"

lemma rep_rnd_mag:
  assumes "0 \<le> x"
  shows "rep (rnd_mag x)"
proof (cases "x = 0")
  case True
  then show ?thesis by (auto simp: rep_def intro!: exI[of _ 0])
next
  case False
  with assms have x: "0 < x" by simp
  let ?u = "ulp_exp x"
  have "x / p2 ?u \<le> p2 53"
  proof -
    have "x \<le> p2 (53 + ?u)"
      using rexp_bounds[OF x] p2_le_iff[of "rexp x + 1" "53 + ?u"] unfolding ulp_exp_def by linarith
    then show ?thesis by (simp add: p2_add pos_divide_le_eq)
  qed
  then have "rne (x / p2 ?u) \<le> 2 ^ 53"
    using rne_mono[of "x / p2 ?u" "p2 53"] rne_p2[of 53] by simp
  moreover have "0 \<le> rne (x / p2 ?u)"
    using x by (intro rne_nonneg) auto
  ultimately show ?thesis
    unfolding rep_def rnd_mag_pos[OF x]
    by (intro exI[of _ "rne (x / p2 ?u)"] exI[of _ ?u]) (auto simp: ulp_exp_def)
qed

lemma rnd_mag_grid:
  assumes "0 < x" "x = of_int m * p2 e" "ulp_exp x \<le> e"
  shows "rnd_mag x = x"
proof -
  let ?u = "ulp_exp x"
  have "x / p2 ?u = of_int m * (p2 e / p2 ?u)"
    by (subst assms(2)) simp
  also have "\<dots> = of_int (m * 2 ^ nat (e - ?u))"
    unfolding p2_div using assms(3) by (simp add: p2_of_int)
  finally have r: "x / p2 ?u = of_int (m * 2 ^ nat (e - ?u))" .
  show ?thesis
    unfolding rnd_mag_pos[OF assms(1)] r rne_of_int unfolding r[symmetric] by simp
qed

lemma rnd_mag_exact:
  assumes "0 \<le> x" "rep x"
  shows "rnd_mag x = x"
proof (cases "x = 0")
  case False
  with assms obtain m e where x: "0 < x" and me: "x = of_int m * p2 e" "\<bar>m\<bar> \<le> 2 ^ 53" "- 1074 \<le> e"
    by (auto simp: rep_def)
  show ?thesis
  proof (cases "m = 2 ^ 53")
    case True
    then have x2: "x = of_int 1 * p2 (e + 53)" by (simp add: me(1) p2_add)
    then have "rexp x = e + 53" using x by (intro rexp_unique) auto
    then have "ulp_exp x \<le> e + 53" using me(3) by (simp add: ulp_exp_def)
    then show ?thesis using x x2 by (intro rnd_mag_grid)
  next
    case False
    with me(2) have "m \<le> 2 ^ 53 - 1" by simp
    then have "x < p2 (53 + e)"
      unfolding me(1) p2_add by (intro mult_strict_right_mono) (auto simp: p2_of_int)
    then have "p2 (rexp x) < p2 (53 + e)"
      using rexp_bounds[OF x] by linarith
    then have "ulp_exp x \<le> e" using me(3) by (simp add: ulp_exp_def)
    then show ?thesis using x me(1) by (intro rnd_mag_grid)
  qed
qed simp

lemma rnd_mag_error:
  assumes "0 < x"
  shows "\<bar>rnd_mag x - x\<bar> \<le> p2 (ulp_exp x) / 2"
proof -
  let ?u = "p2 (ulp_exp x)"
  have "\<bar>rnd_mag x - x\<bar> = \<bar>of_int (rne (x / ?u)) - x / ?u\<bar> * ?u"
    by (simp add: rnd_mag_pos[OF assms] field_simps flip: abs_mult_pos)
  also have "\<dots> \<le> 1 / 2 * ?u"
    by (intro mult_right_mono rne_error) auto
  finally show ?thesis by simp
qed



subsection \<open>Code equations over integers\<close>

definition rne_frac :: "int \<Rightarrow> int \<Rightarrow> int" where
  "rne_frac n d = (let f = n div d; r = n mod d
     in if 2 * r < d then f else if d < 2 * r then f + 1 else if even f then f else f + 1)"

lemma rne_frac: "0 < d \<Longrightarrow> rne (of_int n / of_int d) = rne_frac n d"
proof -
  assume d: "0 < d"
  have f: "\<lfloor>of_int n / of_int d :: rat\<rfloor> = n div d"
    by (simp add: floor_divide_of_int_eq)
  have "(of_int n :: rat) = of_int d * of_int (n div d) + of_int (n mod d)"
    by (metis mult_div_mod_eq of_int_add of_int_mult)
  then have r: "of_int n / of_int d - of_int (n div d) = (of_int (n mod d) / of_int d :: rat)"
    using d by (simp add: field_simps)
  have "(of_int (n mod d) / of_int d < (1 / 2 :: rat)) = (2 * (n mod d) < d)"
    "((1 / 2 :: rat) < of_int (n mod d) / of_int d) = (d < 2 * (n mod d))"
    using d by (simp_all add: field_simps) (metis mult.commute of_int_less_iff of_int_mult of_int_numeral)+
  then show ?thesis
    unfolding rne_def rne_frac_def Let_def f r by simp
qed

lemma rexp_code [code]:
  "rexp x = (let (p, q) = quotient_of x; k = bitlen p - bitlen q
     in if (if 0 \<le> k then q * 2 ^ nat k \<le> p else q \<le> p * 2 ^ nat (- k)) then k else k - 1)"
proof -
  obtain p q where pq: "quotient_of x = (p, q)" by (cases "quotient_of x")
  then have q: "0 < q" and x: "x = of_int p / of_int q"
    using quotient_of_denom_pos quotient_of_div by blast+
  have "(p2 k \<le> x) = (if 0 \<le> k then q * 2 ^ nat k \<le> p else q \<le> p * 2 ^ nat (- k))" for k
  proof (cases "0 \<le> k")
    case True
    have "(p2 k \<le> x) = ((of_int (q * 2 ^ nat k) :: rat) \<le> of_int p)"
      using q True by (simp add: x p2_of_int pos_le_divide_eq mult.commute)
    then show ?thesis using True by (simp only: of_int_le_iff if_True)
  next
    case False
    have "p2 k = 1 / of_int (2 ^ nat (- k))"
      using False by (simp add: power_int_def field_simps)
    then have "(p2 k \<le> x) = ((of_int q :: rat) \<le> of_int (p * 2 ^ nat (- k)))"
      using q by (simp add: x pos_divide_le_eq pos_le_divide_eq mult.commute)
    then show ?thesis using False by (simp only: of_int_le_iff if_False)
  qed
  then show ?thesis by (simp add: rexp_def pq)
qed

lemma rnd_mag_code [code]:
  "rnd_mag x = (if x \<le> 0 then 0
     else let (p, q) = quotient_of x; u = ulp_exp x
     in if 0 \<le> u then of_int (rne_frac p (q * 2 ^ nat u) * 2 ^ nat u)
        else of_int (rne_frac (p * 2 ^ nat (- u)) q) / of_int (2 ^ nat (- u)))"
proof (cases "x \<le> 0")
  case False
  obtain p q where pq: "quotient_of x = (p, q)" by (cases "quotient_of x")
  then have q: "0 < q" and x: "x = of_int p / of_int q"
    using quotient_of_denom_pos quotient_of_div by blast+
  define u where "u = ulp_exp x"
  have m: "rnd_mag x = of_int (rne (x / p2 u)) * p2 u"
    using False by (simp add: rnd_mag_def Let_def u_def)
  show ?thesis
  proof (cases "0 \<le> u")
    case True
    then have "x / p2 u = of_int p / of_int (q * 2 ^ nat u)"
      by (simp add: x p2_of_int)
    moreover have "rne (of_int p / of_int (q * 2 ^ nat u)) = rne_frac p (q * 2 ^ nat u)"
      using q by (intro rne_frac) simp
    ultimately show ?thesis
      using m False True by (simp add: pq p2_of_int Let_def flip: u_def)
  next
    case neg: False
    then have pu: "p2 u = 1 / of_int (2 ^ nat (- u))"
      by (simp add: power_int_def field_simps)
    then have "x / p2 u = of_int (p * 2 ^ nat (- u)) / of_int q"
      by (simp add: x)
    then have "rne (x / p2 u) = rne_frac (p * 2 ^ nat (- u)) q"
      by (simp only: rne_frac[OF q])
    then show ?thesis
      using m False neg pu by (simp add: pq Let_def flip: u_def)
  qed
qed (simp add: rnd_mag_def)

subsection \<open>Rounding a signed number\<close>

lemma rnd_0 [simp]: "rnd 0 = 0"
  by (simp add: rnd_def)

lemma rnd_minus: "rnd (- x) = - rnd x"
  by (cases x "0::rat" rule: linorder_cases) (auto simp: rnd_def)

lemma rnd_mono: "x \<le> y \<Longrightarrow> rnd x \<le> rnd y"
  using rnd_mag_mono[of x y] rnd_mag_mono[of "- y" "- x"] rnd_mag_nonneg[of "- x"] rnd_mag_nonneg[of y]
  by (auto simp: rnd_def)

lemma rep_minus [simp]: "rep (- x) \<longleftrightarrow> rep x"
proof -
  have "rep (- x)" if "rep x" for x
  proof -
    from that obtain m e where "x = of_int m * p2 e" "\<bar>m\<bar> \<le> 2 ^ 53" "- 1074 \<le> e"
      by (auto simp: rep_def)
    then show ?thesis
      unfolding rep_def by (intro exI[of _ "- m"] exI[of _ e]) simp
  qed
  from this[of x] this[of "- x"] show ?thesis by auto
qed

lemma rep_rnd [simp]: "rep (rnd x)"
  by (auto simp: rnd_def rep_rnd_mag)

lemma rnd_exact: "rep x \<Longrightarrow> rnd x = x"
  using rnd_mag_exact[of x] rnd_mag_exact[of "- x"] by (auto simp: rnd_def)

lemma rep_iff_rnd [code]: "rep x \<longleftrightarrow> rnd x = x"
  using rnd_exact rep_rnd by metis

lemma rnd_rnd [simp]: "rnd (rnd x) = rnd x"
  by (simp add: rnd_exact)

lemma rnd_nonneg: "0 \<le> x \<Longrightarrow> 0 \<le> rnd x"
  using rnd_mono[of 0 x] by simp

lemma rnd_nonpos: "x \<le> 0 \<Longrightarrow> rnd x \<le> 0"
  using rnd_mono[of x 0] by simp

lemma rnd_error: "x \<noteq> 0 \<Longrightarrow> \<bar>rnd x - x\<bar> \<le> p2 (ulp_exp \<bar>x\<bar>) / 2"
  using rnd_mag_error[of x] rnd_mag_error[of "- x"]
  by (auto simp: rnd_def abs_if split: if_splits)

lemma rep_of_int: "\<bar>n\<bar> \<le> 2 ^ 53 \<Longrightarrow> rep (of_int n)"
  unfolding rep_def by (intro exI[of _ n] exI[of _ 0]) simp

lemma rep_0 [simp]: "rep 0" and rep_1 [simp]: "rep 1"
  using rep_of_int[of 0] rep_of_int[of 1] by simp_all

lemma rep_numeral: "(numeral k :: int) \<le> 2 ^ 53 \<Longrightarrow> rep (numeral k)"
  using rep_of_int[of "numeral k"] by simp

lemma rep_double:
  assumes "rep x"
  shows "rep (2 * x)"
proof -
  from assms obtain m e where "x = of_int m * p2 e" "\<bar>m\<bar> \<le> 2 ^ 53" "- 1074 \<le> e"
    by (auto simp: rep_def)
  then show ?thesis
    unfolding rep_def by (intro exI[of _ m] exI[of _ "e + 1"]) (simp add: p2_add)
qed

lemma le_rnd: "rep q \<Longrightarrow> q \<le> x \<Longrightarrow> q \<le> rnd x"
  using rnd_mono[of q x] by (simp add: rnd_exact)

lemma rnd_le: "rep q \<Longrightarrow> x \<le> q \<Longrightarrow> rnd x \<le> q"
  using rnd_mono[of x q] by (simp add: rnd_exact)

section \<open>The floating-point type\<close>

definition f64_limit :: rat where
  "f64_limit = 2 ^ 1024"

definition overflows :: "rat \<Rightarrow> bool" where
  "overflows r \<longleftrightarrow> f64_limit \<le> \<bar>r\<bar>"

lemma overflows_code [code]: "overflows r \<longleftrightarrow> r \<noteq> 0 \<and> 1024 \<le> rexp \<bar>r\<bar>"
proof (cases "r = 0")
  case False
  then have "p2 (rexp \<bar>r\<bar>) \<le> \<bar>r\<bar> \<and> \<bar>r\<bar> < p2 (rexp \<bar>r\<bar> + 1)"
    by (intro rexp_bounds) simp
  moreover have "f64_limit = p2 1024" by (simp add: f64_limit_def del: power_numeral)
  ultimately show ?thesis
    using False p2_le_iff[of 1024 "rexp \<bar>r\<bar>"] p2_le_iff[of "rexp \<bar>r\<bar> + 1" 1024]
    unfolding overflows_def by auto
qed (simp add: overflows_def f64_limit_def del: power_numeral)

fun fval :: "f64 \<Rightarrow> rat" where
  "fval (Fin q) = q"
| "fval _ = 0"

fun frank :: "f64 \<Rightarrow> int" where
  "frank NInf = - 1"
| "frank PInf = 1"
| "frank _ = 0"

fun is_finite :: "f64 \<Rightarrow> bool" where
  "is_finite (Fin _) = True"
| "is_finite NZero = True"
| "is_finite _ = False"

definition is_nan :: "f64 \<Rightarrow> bool" where
  "is_nan x \<longleftrightarrow> x = NaN"

fun signbit :: "f64 \<Rightarrow> bool" where
  "signbit (Fin q) = (q < 0)"
| "signbit NZero = True"
| "signbit NInf = True"
| "signbit _ = False"

fun f64_ok :: "f64 \<Rightarrow> bool" where
  "f64_ok (Fin q) \<longleftrightarrow> rep q \<and> \<not> overflows q"
| "f64_ok _ \<longleftrightarrow> True"

definition mkf :: "bool \<Rightarrow> rat \<Rightarrow> f64" where
  "mkf s x = (let r = rnd x in
     if overflows r then (if 0 < r then PInf else NInf)
     else if r = 0 then (if x < 0 \<or> x = 0 \<and> s then NZero else Fin 0)
     else Fin r)"

abbreviation lit :: "rat \<Rightarrow> f64" where
  "lit q \<equiv> mkf False q"

instantiation f64 :: "{zero, one, plus, uminus, minus, times, inverse, abs, ord}"
begin

definition zero_f64 :: f64 where
  "0 = Fin 0"

definition one_f64 :: f64 where
  "1 = Fin 1"

fun uminus_f64 :: "f64 \<Rightarrow> f64" where
  "- NaN = NaN"
| "- PInf = NInf"
| "- NInf = PInf"
| "- NZero = Fin 0"
| "- (Fin q) = (if q = 0 then NZero else Fin (- q))"

definition plus_f64 :: "f64 \<Rightarrow> f64 \<Rightarrow> f64" where
  "a + b =
     (if a = NaN \<or> b = NaN then NaN
      else if frank a * frank b = - 1 then NaN
      else if frank a \<noteq> 0 then a
      else if frank b \<noteq> 0 then b
      else mkf (signbit a \<and> signbit b) (fval a + fval b))"

definition minus_f64 :: "f64 \<Rightarrow> f64 \<Rightarrow> f64" where
  "a - b = a + (- b :: f64)"

definition times_f64 :: "f64 \<Rightarrow> f64 \<Rightarrow> f64" where
  "a * b =
     (if a = NaN \<or> b = NaN then NaN
      else if frank a = 0 \<and> frank b = 0 then mkf (signbit a \<noteq> signbit b) (fval a * fval b)
      else if frank a = 0 \<and> fval a = 0 \<or> frank b = 0 \<and> fval b = 0 then NaN
      else if signbit a = signbit b then PInf else NInf)"

definition divide_f64 :: "f64 \<Rightarrow> f64 \<Rightarrow> f64" where
  "a div b =
     (if a = NaN \<or> b = NaN then NaN
      else if frank a \<noteq> 0 \<and> frank b \<noteq> 0 then NaN
      else if frank a \<noteq> 0 then (if signbit a = signbit b then PInf else NInf)
      else if frank b \<noteq> 0 then (if signbit a = signbit b then Fin 0 else NZero)
      else if fval b = 0 then (if fval a = 0 then NaN
                               else if signbit a = signbit b then PInf else NInf)
      else mkf (signbit a \<noteq> signbit b) (fval a / fval b))"

definition inverse_f64 :: "f64 \<Rightarrow> f64" where
  "inverse a = divide (1 :: f64) a"

definition abs_f64 :: "f64 \<Rightarrow> f64" where
  "\<bar>a\<bar> = (if signbit a then - a else a)"

definition less_f64 :: "f64 \<Rightarrow> f64 \<Rightarrow> bool" where
  "a < b \<longleftrightarrow> a \<noteq> NaN \<and> b \<noteq> NaN \<and>
     (frank a < frank b \<or> frank a = frank b \<and> fval a < fval b)"

definition less_eq_f64 :: "f64 \<Rightarrow> f64 \<Rightarrow> bool" where
  "a \<le> b \<longleftrightarrow> a \<noteq> NaN \<and> b \<noteq> NaN \<and>
     (frank a < frank b \<or> frank a = frank b \<and> fval a \<le> fval b)"

instance ..

end


text \<open>\<open>==\<close> of the source: equal as numbers, false on \<open>NaN\<close>.\<close>

definition feq :: "f64 \<Rightarrow> f64 \<Rightarrow> bool" where
  "feq a b \<longleftrightarrow> a \<le> b \<and> b \<le> a"

text \<open>\<open>f64::min\<close> returns the other operand when one is \<open>NaN\<close>.\<close>

definition fmin :: "f64 \<Rightarrow> f64 \<Rightarrow> f64" where
  "fmin a b = (if a = NaN then b else if b = NaN then a else if b < a then b else a)"

text \<open>\<open>f64::round\<close>: to the nearest integer, halves away from zero.\<close>

fun fround :: "f64 \<Rightarrow> f64" where
  "fround (Fin q) =
     (if 0 \<le> q then Fin (of_int \<lfloor>q + 1 / 2\<rfloor>)
      else let n = - \<lfloor>- q + 1 / 2\<rfloor> in if n = 0 then NZero else Fin (of_int n))"
| "fround x = x"

text \<open>\<open>as\<close> casts to an integer type with the given range: truncating, saturating, \<open>NaN\<close> to 0.\<close>

fun f64_to_int :: "int \<Rightarrow> int \<Rightarrow> f64 \<Rightarrow> int" where
  "f64_to_int lo hi (Fin q) = max lo (min hi (if 0 \<le> q then \<lfloor>q\<rfloor> else \<lceil>q\<rceil>))"
| "f64_to_int lo hi PInf = hi"
| "f64_to_int lo hi NInf = lo"
| "f64_to_int lo hi _ = 0"

definition f64_of_int :: "int \<Rightarrow> f64" where
  "f64_of_int n = lit (of_int n)"

text \<open>
  \<open>to_be_bytes\<close>: sign, biased exponent and fraction. With \<open>u\<close> the exponent of the last place
  and \<open>m\<close> the magnitude in units of it, the two lower fields together are
  \<open>(u + 1074) * 2^52 + m\<close>, for normal and subnormal numbers alike.
\<close>

definition mag_bits :: "rat \<Rightarrow> int" where
  "mag_bits q = (if q = 0 then 0 else (ulp_exp q + 1074) * 2 ^ 52 + \<lfloor>q / p2 (ulp_exp q)\<rfloor>)"

fun f64_bits :: "f64 \<Rightarrow> int" where
  "f64_bits NaN = 2047 * 2 ^ 52 + 2 ^ 51"
| "f64_bits PInf = 2047 * 2 ^ 52"
| "f64_bits NInf = 2 ^ 63 + 2047 * 2 ^ 52"
| "f64_bits NZero = 2 ^ 63"
| "f64_bits (Fin q) = (if q < 0 then 2 ^ 63 else 0) + mag_bits \<bar>q\<bar>"

definition be_bytes :: "nat \<Rightarrow> int \<Rightarrow> bytes" where
  "be_bytes n x = map (\<lambda>i. word_of_int (x div 256 ^ (n - 1 - i))) [0..<n]"

definition f64_to_be_bytes :: "f64 \<Rightarrow> bytes" where
  "f64_to_be_bytes x = be_bytes 8 (f64_bits x)"

section \<open>Order\<close>

lemmas f64_order_defs = less_f64_def less_eq_f64_def

lemma le_not_nan: "a \<le> b \<Longrightarrow> a \<noteq> NaN \<and> b \<noteq> NaN" for a b :: f64
  by (simp add: less_eq_f64_def)

lemma lt_not_nan: "a < b \<Longrightarrow> a \<noteq> NaN \<and> b \<noteq> NaN" for a b :: f64
  by (simp add: less_f64_def)

lemma f64_le_refl: "a \<noteq> NaN \<Longrightarrow> a \<le> a" for a :: f64
  by (simp add: less_eq_f64_def)

lemma f64_lt_irrefl [simp]: "\<not> a < a" for a :: f64
  by (simp add: less_f64_def)

lemma f64_le_trans: "a \<le> b \<Longrightarrow> b \<le> c \<Longrightarrow> a \<le> c" for a b c :: f64
  by (auto simp: less_eq_f64_def)

lemma f64_lt_le_trans: "a < b \<Longrightarrow> b \<le> c \<Longrightarrow> a < c" for a b c :: f64
  by (auto simp: f64_order_defs)

lemma f64_le_lt_trans: "a \<le> b \<Longrightarrow> b < c \<Longrightarrow> a < c" for a b c :: f64
  by (auto simp: f64_order_defs)

lemma f64_lt_imp_le: "a < b \<Longrightarrow> a \<le> b" for a b :: f64
  by (auto simp: f64_order_defs)

lemma f64_not_lt: "a \<noteq> NaN \<Longrightarrow> b \<noteq> NaN \<Longrightarrow> \<not> a < b \<longleftrightarrow> b \<le> a" for a b :: f64
  by (auto simp: f64_order_defs)

lemma f64_not_le: "a \<noteq> NaN \<Longrightarrow> b \<noteq> NaN \<Longrightarrow> \<not> a \<le> b \<longleftrightarrow> b < a" for a b :: f64
  by (auto simp: f64_order_defs)

lemma f64_le_total: "a \<noteq> NaN \<Longrightarrow> b \<noteq> NaN \<Longrightarrow> a \<le> b \<or> b \<le> a" for a b :: f64
  by (auto simp: f64_order_defs)

text \<open>
  The comparison closure of the source, \<open>partial_cmp(..).unwrap_or(Equal)\<close>, as the "not
  greater" test that drives \<open>sort_by\<close>.
\<close>

definition f64_not_gt :: "f64 \<Rightarrow> f64 \<Rightarrow> bool" where
  "f64_not_gt a b \<longleftrightarrow> \<not> b < a"

lemma f64_not_gt_le: "a \<noteq> NaN \<Longrightarrow> b \<noteq> NaN \<Longrightarrow> f64_not_gt a b \<longleftrightarrow> a \<le> b"
  by (simp add: f64_not_gt_def f64_not_lt)

interpretation f64_sort: weak_order f64_not_gt "\<lambda>a. a \<noteq> NaN"
  using f64_le_total f64_le_trans by unfold_locales (auto simp: f64_not_gt_le)

section \<open>Rounded results\<close>

lemma is_finite_iff: "is_finite a \<longleftrightarrow> a \<noteq> NaN \<and> frank a = 0"
  by (cases a) auto

lemma frank_cases: "frank a = 0 \<or> a = PInf \<or> a = NInf"
  by (cases a) auto

lemma f64_limit_pos: "0 < f64_limit"
  unfolding f64_limit_def by (rule zero_less_power) simp

lemma overflows_0 [simp]: "\<not> overflows 0"
  using f64_limit_pos by (simp add: overflows_def)

lemma overflows_mono: "overflows x \<Longrightarrow> \<bar>x\<bar> \<le> \<bar>y\<bar> \<Longrightarrow> overflows y"
  by (simp add: overflows_def)

lemma not_overflows_small: "\<bar>x\<bar> < 2 ^ 128 \<Longrightarrow> \<not> overflows x"
proof -
  have "(2 ^ 128 :: rat) \<le> f64_limit"
    unfolding f64_limit_def by (rule power_increasing) simp_all
  then show "\<bar>x\<bar> < 2 ^ 128 \<Longrightarrow> \<not> overflows x" unfolding overflows_def by linarith
qed

lemma mkf_not_nan [simp]: "mkf s x \<noteq> NaN"
  by (simp add: mkf_def Let_def)

lemma mkf_ok [simp]: "f64_ok (mkf s x)"
  by (simp add: mkf_def Let_def)

lemma mkf_fin: "\<not> overflows (rnd x) \<Longrightarrow> frank (mkf s x) = 0 \<and> fval (mkf s x) = rnd x"
  by (simp add: mkf_def Let_def)

lemma mkf_finite_iff: "is_finite (mkf s x) \<longleftrightarrow> \<not> overflows (rnd x)"
  by (simp add: mkf_def Let_def)

lemma mkf_inf: "overflows (rnd x) \<Longrightarrow> mkf s x = (if 0 < rnd x then PInf else NInf)"
  by (simp add: mkf_def)

lemma mkf_mono:
  assumes "x \<le> y"
  shows "mkf s x \<le> mkf t y"
proof -
  have le: "rnd x \<le> rnd y" using assms by (rule rnd_mono)
  consider "overflows (rnd x)" "overflows (rnd y)" | "overflows (rnd x)" "\<not> overflows (rnd y)"
    | "\<not> overflows (rnd x)" "overflows (rnd y)" | "\<not> overflows (rnd x)" "\<not> overflows (rnd y)"
    by blast
  then show ?thesis
  proof cases
    case 1
    then show ?thesis using le by (auto simp: mkf_inf less_eq_f64_def)
  next
    case 2
    then have "\<not> 0 < rnd x" using le overflows_mono[of "rnd x" "rnd y"] by auto
    with 2 show ?thesis using mkf_fin[of y t] by (simp add: mkf_inf less_eq_f64_def)
  next
    case 3
    then have "0 < rnd y"
      using le overflows_mono[of "rnd y" "rnd x"] overflows_0 by (cases "rnd y = 0") force+
    with 3 show ?thesis using mkf_fin[of x s] by (simp add: mkf_inf less_eq_f64_def)
  next
    case 4
    then show ?thesis using le mkf_fin[of x s] mkf_fin[of y t] by (simp add: less_eq_f64_def)
  qed
qed

lemma f64_ok_fval: "f64_ok a \<Longrightarrow> rep (fval a) \<and> \<not> overflows (fval a)"
  by (cases a) auto

lemma mkf_exact: "rep q \<Longrightarrow> \<not> overflows q \<Longrightarrow> frank (mkf s q) = 0 \<and> fval (mkf s q) = q"
  using mkf_fin[of q s] by (simp add: rnd_exact)

lemma mkf_fval: "f64_ok a \<Longrightarrow> frank (mkf s (fval a)) = 0 \<and> fval (mkf s (fval a)) = fval a"
  using f64_ok_fval mkf_exact by blast

lemma f64_ops_ok [simp]:
  "f64_ok 0" "f64_ok 1" "f64_ok a \<Longrightarrow> f64_ok (- a)"
  "f64_ok a \<Longrightarrow> f64_ok b \<Longrightarrow> f64_ok (a + b)" "f64_ok a \<Longrightarrow> f64_ok b \<Longrightarrow> f64_ok (a - b)"
  "f64_ok (a * b)" "f64_ok (a / b)" "f64_ok a \<Longrightarrow> f64_ok \<bar>a\<bar>"
proof -
  show "f64_ok 0" by (simp add: zero_f64_def)
  show "f64_ok 1"
    by (simp add: one_f64_def not_overflows_small)
  show n: "f64_ok (- a)" if "f64_ok a" for a
    using that f64_limit_pos by (cases a) (auto simp: overflows_def)
  show p: "f64_ok (a + b)" if "f64_ok a" "f64_ok b" for a b
    using that by (simp add: plus_f64_def)
  show "f64_ok a \<Longrightarrow> f64_ok b \<Longrightarrow> f64_ok (a - b)"
    by (simp add: minus_f64_def n p)
  show "f64_ok (a * b)" by (simp add: times_f64_def)
  show "f64_ok (a / b)" by (simp add: divide_f64_def)
  show "f64_ok a \<Longrightarrow> f64_ok \<bar>a\<bar>" by (simp add: abs_f64_def n)
qed

lemma is_finite_not_nan: "is_finite a \<Longrightarrow> a \<noteq> NaN"
  by (cases a) auto

lemma fin_le_iff: "is_finite a \<Longrightarrow> is_finite b \<Longrightarrow> a \<le> b \<longleftrightarrow> fval a \<le> fval b"
  by (simp add: less_eq_f64_def is_finite_iff)

lemma fin_lt_iff: "is_finite a \<Longrightarrow> is_finite b \<Longrightarrow> a < b \<longleftrightarrow> fval a < fval b"
  by (simp add: less_f64_def is_finite_iff)

lemma zero_simps [simp]: "fval 0 = 0" "frank 0 = 0" "is_finite 0" "(0::f64) \<noteq> NaN" "\<not> signbit 0"
  by (simp_all add: zero_f64_def)

lemma one_simps [simp]: "fval 1 = 1" "frank 1 = 0" "is_finite 1" "(1::f64) \<noteq> NaN" "\<not> signbit 1"
  by (simp_all add: one_f64_def)

lemma zero_le_iff: "0 \<le> a \<longleftrightarrow> a = PInf \<or> is_finite a \<and> 0 \<le> fval a"
  by (cases a) (auto simp: less_eq_f64_def)

lemma zero_lt_iff: "0 < a \<longleftrightarrow> a = PInf \<or> is_finite a \<and> 0 < fval a"
  by (cases a) (auto simp: less_f64_def)

lemma fin_add: "is_finite a \<Longrightarrow> is_finite b \<Longrightarrow> a + b = mkf (signbit a \<and> signbit b) (fval a + fval b)"
  by (simp add: plus_f64_def is_finite_iff)

lemma fin_uminus [simp]: "is_finite (- a) \<longleftrightarrow> is_finite a" "fval (- a) = - fval a"
  by (cases a; simp)+

lemma fin_sub: "is_finite a \<Longrightarrow> is_finite b \<Longrightarrow> a - b = mkf (signbit a \<and> signbit (- b)) (fval a - fval b)"
  by (simp add: minus_f64_def fin_add)

lemma fin_mul: "is_finite a \<Longrightarrow> is_finite b \<Longrightarrow> a * b = mkf (signbit a \<noteq> signbit b) (fval a * fval b)"
  by (simp add: times_f64_def is_finite_iff)

lemma fin_div:
  "is_finite a \<Longrightarrow> is_finite b \<Longrightarrow> fval b \<noteq> 0 \<Longrightarrow> a / b = mkf (signbit a \<noteq> signbit b) (fval a / fval b)"
  by (simp add: divide_f64_def is_finite_iff)

lemma fin_abs [simp]: "is_finite \<bar>a\<bar> \<longleftrightarrow> is_finite a" "fval \<bar>a\<bar> = \<bar>fval a\<bar>" "\<bar>a\<bar> = NaN \<longleftrightarrow> a = NaN"
  by (cases a; simp add: abs_f64_def)+

lemma lit_small:
  assumes "rep q" "\<bar>q\<bar> < 2 ^ 128"
  shows "is_finite (mkf s q)" "fval (mkf s q) = q"
  using mkf_exact[OF assms(1) not_overflows_small[OF assms(2)], of s]
  by (auto simp: is_finite_iff)

lemma lit_2 [simp]: "is_finite (lit 2)" "fval (lit 2) = 2"
  using lit_small[of 2 False] rep_numeral[of "num.Bit0 num.One"] by simp_all

text \<open>Adding a non-negative number never moves a sum down, rounding included.\<close>

lemma f64_add_nonneg:
  assumes "f64_ok a" "0 \<le> a" "0 \<le> b"
  shows "a \<le> a + b \<and> 0 \<le> a + b"
proof (cases "is_finite a \<and> is_finite b")
  case True
  have "mkf False (fval a) \<le> a + b"
    using True assms(3) by (simp add: fin_add zero_le_iff) (auto intro: mkf_mono)
  moreover have "a \<le> mkf False (fval a)"
    using mkf_fval[OF assms(1), of False] True by (simp add: less_eq_f64_def is_finite_iff)
  ultimately show ?thesis using assms(2) f64_le_trans by blast
next
  case False
  then show ?thesis
    using assms by (cases a; cases b) (auto simp: less_eq_f64_def plus_f64_def)
qed

lemma f64_half_le:
  assumes "f64_ok a" "0 \<le> a"
  shows "a / lit 2 \<le> a"
proof (cases "is_finite a")
  case True
  have "a / lit 2 \<le> mkf False (fval a)"
    using True assms(2) by (simp add: fin_div zero_le_iff) (auto intro: mkf_mono)
  moreover have "mkf False (fval a) \<le> a"
    using mkf_fval[OF assms(1), of False] True by (simp add: less_eq_f64_def is_finite_iff)
  ultimately show ?thesis by (rule f64_le_trans)
next
  case False
  with assms(2) have "a = PInf" by (simp add: zero_le_iff)
  then show ?thesis using lit_2 by (simp add: divide_f64_def is_finite_iff less_eq_f64_def)
qed

text \<open>
  The midpoint of two numbers lies between them, unless their sum overflows to an infinity.
\<close>

lemma f64_midpoint:
  assumes "f64_ok a" "f64_ok b" "is_finite a" "is_finite b" "a \<le> b" "is_finite (a + b)"
  shows "a \<le> (a + b) / lit 2 \<and> (a + b) / lit 2 \<le> b \<and> is_finite ((a + b) / lit 2)"
proof -
  have ab: "fval a \<le> fval b" using assms by (simp add: fin_le_iff)
  have ra: "rep (fval a)" and rb: "rep (fval b)"
    and ob: "\<not> overflows (fval a)" "\<not> overflows (fval b)"
    using f64_ok_fval assms(1,2) by blast+
  define m where "m = rnd (fval a + fval b)"
  have no: "\<not> overflows m"
    using assms(6) assms(3,4) by (simp add: fin_add mkf_finite_iff m_def)
  then have m: "is_finite (a + b)" "fval (a + b) = m"
    using mkf_fin[of "fval a + fval b"] assms(3,4,6) by (simp_all add: fin_add m_def)
  have lo: "2 * fval a \<le> m" and hi: "m \<le> 2 * fval b"
    using le_rnd[OF rep_double[OF ra]] rnd_le[OF rep_double[OF rb]] ab by (auto simp: m_def)
  have h: "fval a \<le> rnd (m / 2)" "rnd (m / 2) \<le> fval b"
    using le_rnd[OF ra, of "m / 2"] rnd_le[OF rb, of "m / 2"] lo hi by auto
  then have no2: "\<not> overflows (rnd (m / 2))"
    using ob overflows_mono[of "rnd (m / 2)" "fval a"] overflows_mono[of "rnd (m / 2)" "fval b"]
    by linarith
  have "is_finite ((a + b) / lit 2)" "fval ((a + b) / lit 2) = rnd (m / 2)"
    using mkf_fin[OF no2] mkf_finite_iff[of _ "m / 2"] no2 m by (simp_all add: fin_div)
  then show ?thesis using h assms(3,4) by (simp add: fin_le_iff)
qed

lemma PInf_half: "PInf / lit 2 = PInf"
proof -
  have "\<not> signbit (lit 2)" using lit_2 by (cases "lit 2") auto
  then show ?thesis using lit_2 by (simp add: divide_f64_def is_finite_iff)
qed

text \<open>The midpoint of two positive numbers is not below the smaller, overflow included.\<close>

lemma f64_midpoint_pos:
  assumes "f64_ok a" "f64_ok b" "0 < a" "a \<le> b"
  shows "a \<le> (a + b) / lit 2"
proof (cases "is_finite a \<and> is_finite b \<and> is_finite (a + b)")
  case True
  then show ?thesis using f64_midpoint assms by blast
next
  case False
  have "0 < b" using assms(3,4) by (rule f64_lt_le_trans)
  then have "a + b = PInf"
    using False f64_add_nonneg[of a b] assms f64_lt_imp_le
    by (cases a; cases b) (auto simp: zero_lt_iff plus_f64_def zero_le_iff)
  then show ?thesis
    using assms(3) lt_not_nan by (cases a) (auto simp: PInf_half less_eq_f64_def)
qed

lemma f64_scale_pos:
  assumes "f64_ok a" "0 < a" "is_finite k" "1 \<le> fval k"
  shows "a \<le> a * k"
proof (cases "is_finite a")
  case True
  have sk: "\<not> signbit k" using assms(3,4) by (cases k) auto
  have sa: "\<not> signbit a" using assms(2) True by (cases a) (auto simp: zero_lt_iff)
  have "mkf False (fval a) \<le> a * k"
    using True assms sk sa by (simp add: fin_mul zero_lt_iff) (auto intro!: mkf_mono)
  moreover have "a \<le> mkf False (fval a)"
    using mkf_fval[OF assms(1), of False] True by (simp add: less_eq_f64_def is_finite_iff)
  ultimately show ?thesis using f64_le_trans by blast
next
  case False
  then have "a = PInf" using assms(2) by (simp add: zero_lt_iff)
  moreover have "\<not> signbit k" "k \<noteq> NaN" using assms(3,4) by (cases k; simp)+
  ultimately show ?thesis
    using assms(3,4) by (auto simp: times_f64_def less_eq_f64_def is_finite_iff)
qed

text \<open>Results well inside the range stay there: a bound that is a power of two survives rounding.\<close>

lemma rep_pow2: "rep (2 ^ k)"
  unfolding rep_def by (rule exI[of _ 1], rule exI[of _ "int k"]) simp

lemma rnd_abs_le: "rep q \<Longrightarrow> \<bar>x\<bar> \<le> q \<Longrightarrow> \<bar>rnd x\<bar> \<le> q"
  using rnd_le[of q x] le_rnd[of "- q" x] by (simp add: abs_le_iff)

lemma mkf_small:
  assumes "\<bar>x\<bar> \<le> 2 ^ k" "k < 128"
  shows "is_finite (mkf s x)" "\<bar>fval (mkf s x)\<bar> \<le> 2 ^ k" "fval (mkf s x) = rnd x"
proof -
  have r: "\<bar>rnd x\<bar> \<le> 2 ^ k" using rnd_abs_le[OF rep_pow2 assms(1)] .
  moreover have "(2::rat) ^ k < 2 ^ 128" using assms(2) by (intro power_strict_increasing) auto
  ultimately have no: "\<not> overflows (rnd x)" by (intro not_overflows_small) linarith
  then show "is_finite (mkf s x)" by (simp add: mkf_finite_iff)
  show "fval (mkf s x) = rnd x" using mkf_fin[OF no] by simp
  then show "\<bar>fval (mkf s x)\<bar> \<le> 2 ^ k" using r by simp
qed

lemma f64_mult_commute: "a * b = b * a" for a b :: f64
  by (auto simp: times_f64_def mult.commute)

lemma f64_le_cases: "a \<le> b \<Longrightarrow> is_finite b \<Longrightarrow> 0 \<le> a \<Longrightarrow> is_finite a" for a b :: f64
  by (cases a; cases b) (auto simp: less_eq_f64_def)

lemma fin_between: "lo \<le> a \<Longrightarrow> a \<le> hi \<Longrightarrow> is_finite lo \<Longrightarrow> is_finite hi \<Longrightarrow> is_finite a"
  by (cases a; cases lo; cases hi) (auto simp: less_eq_f64_def)

end
