(* ===== verification/Assets.thy ===== *)
theory Assets
  imports F64
begin

text \<open>
  \<open>src/types.rs\<close>: the asset table compiled into the image, the checks made on it at start-up,
  and the price records that travel through the aggregator.

  A \<open>HashMap\<close> is an association list with distinct keys: lookups are \<open>map_of\<close>, and iteration
  visits the list, whose order stands for the unspecified order of the hash map. Parsing the
  embedded JSON is the work of a library, so \<open>load_assets\<close> takes the parser's result.
\<close>

section \<open>Data\<close>

datatype Quote = Usd | Usdt

record SourceMapping =
  map_pair :: string
  map_quote :: Quote

record AssetConfig =
  symbol :: string
  min_sources :: nat
  deviation_threshold_bps :: "16 word"
  heartbeat_seconds :: u64
  sources :: "(string \<times> SourceMapping) list"

record AssetsConfig =
  version :: "32 word"
  exchange_hostnames :: "string list"
  assets :: "AssetConfig list"

record PricePoint =
  price :: f64
  volume :: f64
  source :: string
  server_time :: u64

record CachedPrice =
  asset_symbol :: string
  asset_id :: bytes
  price_fixed :: u256
  price_human :: f64
  num_sources :: u8
  sources_hash_of :: bytes
  signed_timestamp :: u64

definition USDT_USD_SYMBOL :: string where
  "USDT_USD_SYMBOL = ''USDT/USD''"

section \<open>Operations\<close>

text \<open>The bytes of an ASCII string, as \<open>as_bytes\<close> gives them.\<close>

definition string_bytes :: "string \<Rightarrow> bytes" where
  "string_bytes s = map (\<lambda>c. word_of_nat (of_char c)) s"

definition asset_id_of :: "(bytes \<Rightarrow> bytes) \<Rightarrow> AssetConfig \<Rightarrow> bytes" where
  "asset_id_of keccak256 a = keccak256 (string_bytes (symbol a))"

definition pair_of :: "AssetConfig \<Rightarrow> string \<Rightarrow> string option" where
  "pair_of a src = map_option map_pair (map_of (sources a) src)"

definition quote_of :: "AssetConfig \<Rightarrow> string \<Rightarrow> Quote option" where
  "quote_of a src = map_option map_quote (map_of (sources a) src)"

definition has_usdt_quoted_source :: "AssetConfig \<Rightarrow> bool" where
  "has_usdt_quoted_source a \<longleftrightarrow> list_ex (\<lambda>(n, m). map_quote m = Usdt) (sources a)"

datatype LoadError =
    ParseError
  | NoAssets
  | NoHostnames
  | BadHostname string
  | ZeroQuorum string
  | TooFewMappings string nat nat
  | DeviationTooBig string "16 word"
  | EmptyPair string string
  | MissingUsdtAsset
  | UsdtQuotedInUsdt

fun check_hostnames :: "string list \<Rightarrow> LoadError option" where
  "check_hostnames [] = None"
| "check_hostnames (h # hs) =
     (if h = '''' \<or> CHR ''/'' \<in> set h \<or> CHR '' '' \<in> set h then Some (BadHostname h)
      else check_hostnames hs)"

fun check_pairs :: "string \<Rightarrow> (string \<times> SourceMapping) list \<Rightarrow> LoadError option" where
  "check_pairs s [] = None"
| "check_pairs s ((n, m) # ms) =
     (if map_pair m = '''' then Some (EmptyPair s n) else check_pairs s ms)"

definition check_asset :: "AssetConfig \<Rightarrow> LoadError option" where
  "check_asset a =
     (if min_sources a = 0 then Some (ZeroQuorum (symbol a))
      else if length (sources a) < min_sources a
      then Some (TooFewMappings (symbol a) (length (sources a)) (min_sources a))
      else if 10000 < deviation_threshold_bps a
      then Some (DeviationTooBig (symbol a) (deviation_threshold_bps a))
      else check_pairs (symbol a) (sources a))"

fun check_assets :: "AssetConfig list \<Rightarrow> LoadError option" where
  "check_assets [] = None"
| "check_assets (a # as) =
     (case check_asset a of Some e \<Rightarrow> Some e | None \<Rightarrow> check_assets as)"

definition check_usdt :: "AssetConfig list \<Rightarrow> LoadError option" where
  "check_usdt as =
     (let usdt = find (\<lambda>a. symbol a = USDT_USD_SYMBOL) as;
          needs_rate = list_ex has_usdt_quoted_source as
      in case usdt of
           None \<Rightarrow> if needs_rate then Some MissingUsdtAsset else None
         | Some a \<Rightarrow> if has_usdt_quoted_source a then Some UsdtQuotedInUsdt else None)"

definition load_assets :: "AssetsConfig option \<Rightarrow> (LoadError, AssetsConfig) res" where
  "load_assets json =
     (case json of None \<Rightarrow> Inl ParseError
      | Some parsed \<Rightarrow>
          if assets parsed = [] then Inl NoAssets
          else if exchange_hostnames parsed = [] then Inl NoHostnames
          else case check_hostnames (exchange_hostnames parsed) of Some e \<Rightarrow> Inl e
          | None \<Rightarrow> (case check_assets (assets parsed) of Some e \<Rightarrow> Inl e
          | None \<Rightarrow> (case check_usdt (assets parsed) of Some e \<Rightarrow> Inl e
          | None \<Rightarrow> Inr parsed)))"

section \<open>The table that is accepted\<close>

text \<open>What the oracle loop relies on, stated without reference to the order of the checks.\<close>

definition asset_valid :: "AssetConfig \<Rightarrow> bool" where
  "asset_valid a \<longleftrightarrow>
     1 \<le> min_sources a \<and> min_sources a \<le> length (sources a) \<and>
     deviation_threshold_bps a \<le> 10000 \<and> (\<forall>(n, m) \<in> set (sources a). map_pair m \<noteq> [])"

definition usdt_rate_sound :: "AssetConfig list \<Rightarrow> bool" where
  "usdt_rate_sound as \<longleftrightarrow>
     (case find (\<lambda>a. symbol a = USDT_USD_SYMBOL) as of
        None \<Rightarrow> \<forall>a \<in> set as. \<forall>(n, m) \<in> set (sources a). map_quote m = Usd
      | Some u \<Rightarrow> \<forall>(n, m) \<in> set (sources u). map_quote m = Usd)"

definition table_valid :: "AssetsConfig \<Rightarrow> bool" where
  "table_valid c \<longleftrightarrow>
     assets c \<noteq> [] \<and> exchange_hostnames c \<noteq> [] \<and>
     (\<forall>h \<in> set (exchange_hostnames c). h \<noteq> [] \<and> CHR ''/'' \<notin> set h \<and> CHR '' '' \<notin> set h) \<and>
     (\<forall>a \<in> set (assets c). asset_valid a) \<and> usdt_rate_sound (assets c)"

lemma Quote_not_Usdt: "q \<noteq> Usdt \<longleftrightarrow> q = Usd"
  by (cases q) auto

lemma has_usdt_iff: "\<not> has_usdt_quoted_source a \<longleftrightarrow> (\<forall>(n, m) \<in> set (sources a). map_quote m = Usd)"
  by (auto simp: has_usdt_quoted_source_def list_ex_iff Quote_not_Usdt[symmetric])

lemma check_hostnames_None:
  "check_hostnames hs = None \<longleftrightarrow> (\<forall>h \<in> set hs. h \<noteq> [] \<and> CHR ''/'' \<notin> set h \<and> CHR '' '' \<notin> set h)"
  by (induction hs) auto

lemma check_pairs_None: "check_pairs s ms = None \<longleftrightarrow> (\<forall>(n, m) \<in> set ms. map_pair m \<noteq> [])"
  by (induction ms) (auto split: if_splits)

lemma check_asset_None: "check_asset a = None \<longleftrightarrow> asset_valid a"
  by (auto simp: check_asset_def asset_valid_def check_pairs_None not_less)

lemma check_assets_None: "check_assets as = None \<longleftrightarrow> (\<forall>a \<in> set as. asset_valid a)"
  by (induction as) (auto simp: check_asset_None split: option.splits simp flip: check_asset_None)

lemma check_usdt_None: "check_usdt as = None \<longleftrightarrow> usdt_rate_sound as"
  unfolding check_usdt_def usdt_rate_sound_def Let_def list_ex_iff has_usdt_iff[symmetric]
  by (auto split: option.splits)

text \<open>
  The start-up check accepts exactly the valid tables, and returns the table it was
  given: a quorum of at least one that the mappings can meet, a deviation of at most 100 per
  cent, no empty pair, plain host names, and a USDT/USD conversion rate that exists whenever a
  source is quoted in USDT and never depends on itself.
\<close>

theorem load_assets_valid:
  "load_assets json = Inr c \<longleftrightarrow> json = Some c \<and> table_valid c"
  unfolding load_assets_def table_valid_def check_hostnames_None[symmetric]
    check_assets_None[symmetric] check_usdt_None[symmetric]
  by (auto split: option.splits if_splits)

end
