(* ===== verification/Aggregator.thy ===== *)
theory Aggregator
  imports Assets
begin

text \<open>
  \<open>src/aggregator/mod.rs\<close>: cleaning a sample set, the enclave clock, the volume-weighted
  median, outlier rejection, quote conversion and the fixed-point encoding.

  The two process-wide counters are passed explicitly. \<open>median_sorted\<close> indexes its argument,
  so on an empty slice it panics: the result type \<open>run\<close> makes that a value, and the theorems
  show that no caller reaches it.
\<close>

section \<open>Panics\<close>

datatype 'a run = Panic | Done 'a

fun run_bind :: "'a run \<Rightarrow> ('a \<Rightarrow> 'b run) \<Rightarrow> 'b run" where
  "run_bind Panic f = Panic"
| "run_bind (Done a) f = f a"

section \<open>Definitions\<close>

definition VOLUME_WEIGHT_CAP_FACTOR :: f64 where
  "VOLUME_WEIGHT_CAP_FACTOR = lit 5"

definition MAX_SANE_PRICE :: f64 where
  "MAX_SANE_PRICE = lit (10 ^ 20)"

definition MAX_TIME_DRIFT_SECS :: u64 where
  "MAX_TIME_DRIFT_SECS = 300"

datatype WeightingMode = VolumeWeighted | EqualFallback

definition sane_sample :: "PricePoint \<Rightarrow> bool" where
  "sane_sample p \<longleftrightarrow> is_finite (price p) \<and> 0 < price p \<and> 0 < server_time p"

definition fix_volume :: "PricePoint \<Rightarrow> PricePoint" where
  "fix_volume p = (if \<not> is_finite (volume p) \<or> volume p < 0 then p\<lparr>volume := 0\<rparr> else p)"

definition sanitize :: "PricePoint list \<Rightarrow> PricePoint list" where
  "sanitize prices = map fix_volume (filter sane_sample prices)"

definition median_server_time :: "PricePoint list \<Rightarrow> u64 option" where
  "median_server_time prices =
     (if prices = [] then None
      else let times = sort_by (\<le>) (map server_time prices); n = length times
           in Some (if even n then (times ! (n div 2 - 1) + times ! (n div 2)) div 2
                    else times ! (n div 2)))"

definition time_near :: "u64 \<Rightarrow> PricePoint \<Rightarrow> bool" where
  "time_near median p \<longleftrightarrow>
     max (server_time p) median - min (server_time p) median \<le> MAX_TIME_DRIFT_SECS"

definition reject_time_outliers :: "PricePoint list \<Rightarrow> PricePoint list \<times> u64 option" where
  "reject_time_outliers prices =
     (case median_server_time prices of None \<Rightarrow> (prices, None)
      | Some median \<Rightarrow> let kept = filter (time_near median) prices
                       in (kept, median_server_time kept))"

definition median_sorted :: "f64 list \<Rightarrow> (f64 list \<times> f64) run" where
  "median_sorted values =
     (let vs = sort_by f64_not_gt values; n = length vs
      in if n = 0 then Panic
         else Done (vs, if even n then (vs ! (n div 2 - 1) + vs ! (n div 2)) / lit 2
                        else vs ! (n div 2)))"

fun wm_pick :: "f64 \<Rightarrow> f64 \<Rightarrow> (f64 \<times> f64) list \<Rightarrow> f64 option" where
  "wm_pick half cumulative [] = None"
| "wm_pick half cumulative ((p, w) # rest) =
     (let c = cumulative + w in if half \<le> c then Some p else wm_pick half c rest)"

definition wm_weight :: "bool \<Rightarrow> f64 option \<Rightarrow> PricePoint \<Rightarrow> f64 \<times> f64" where
  "wm_weight use_volume cap p =
     (price p, case cap of Some c \<Rightarrow> if use_volume \<and> 0 < volume p then fmin (volume p) c else 1
                         | None \<Rightarrow> 1)"

definition wm_select :: "(f64 \<times> f64) list \<Rightarrow> f64" where
  "wm_select weighted =
     (let ws = sort_by (\<lambda>a b. f64_not_gt (fst a) (fst b)) weighted;
          total_weight = foldl (+) NZero (map snd ws);
          half = total_weight / lit 2
      in case wm_pick half 0 ws of Some p \<Rightarrow> p | None \<Rightarrow> fst (last ws))"

definition weighted_median ::
    "u64 \<Rightarrow> PricePoint list \<Rightarrow> ((f64 \<times> WeightingMode) option \<times> u64) run" where
  "weighted_median fallbacks prices =
     (case prices of
        [] \<Rightarrow> Done (None, fallbacks)
      | [p] \<Rightarrow> Done (Some (price p, VolumeWeighted), fallbacks)
      | _ \<Rightarrow>
         let pos_vols = filter (\<lambda>v. 0 < v) (map volume prices);
             use_volume = length prices < length pos_vols * 2;
             mode = (if use_volume then VolumeWeighted else EqualFallback);
             fallbacks' = (if use_volume then fallbacks else fallbacks + 1)
         in run_bind
              (if use_volume
               then run_bind (median_sorted pos_vols)
                      (\<lambda>(vs, med). Done (Some (med * VOLUME_WEIGHT_CAP_FACTOR)))
               else Done None)
              (\<lambda>cap. Done (Some (wm_select (map (wm_weight use_volume cap) prices), mode),
                           fallbacks')))"

definition reject_outliers_with_cap ::
    "PricePoint list \<Rightarrow> f64 \<Rightarrow> 16 word \<Rightarrow> PricePoint list run" where
  "reject_outliers_with_cap prices sigma cap_bps =
     (if length prices < 3 then Done prices
      else run_bind (median_sorted (map price prices)) (\<lambda>(prices_sorted, median).
           run_bind (median_sorted (map (\<lambda>p. \<bar>p - median\<bar>) prices_sorted)) (\<lambda>(_, mad).
           let cap = (if cap_bps = 0 then PInf
                      else \<bar>median\<bar> * f64_of_int (uint cap_bps) / lit 10000);
               mad_threshold = (if mad < lit (1 / 10 ^ 10) then PInf
                                else sigma * lit (14826 / 10000) * mad);
               threshold = fmin mad_threshold cap
           in if \<not> is_finite threshold then Done prices
              else Done (filter (\<lambda>p. \<bar>price p - median\<bar> \<le> threshold) prices))))"

definition reject_outliers :: "PricePoint list \<Rightarrow> f64 \<Rightarrow> PricePoint list run" where
  "reject_outliers prices sigma = reject_outliers_with_cap prices sigma 0"

definition convert_quotes_to_usd :: "PricePoint list \<Rightarrow> AssetConfig \<Rightarrow> f64 \<Rightarrow> PricePoint list" where
  "convert_quotes_to_usd prices asset usdt_usd =
     (if \<not> is_finite usdt_usd \<or> usdt_usd \<le> 0 then prices
      else map (\<lambda>p. if quote_of asset (source p) = Some Usdt
                    then p\<lparr>price := price p * usdt_usd\<rparr> else p) prices)"

datatype FixedPointError = NonFinitePrice | NonPositivePrice | AboveMaxSane | OverflowsU128

definition to_fixed_point :: "f64 \<Rightarrow> u8 \<Rightarrow> (FixedPointError, u256) res" where
  "to_fixed_point p decimals =
     (if \<not> is_finite p then Inl NonFinitePrice
      else if p \<le> 0 then Inl NonPositivePrice
      else if MAX_SANE_PRICE < p then Inl AboveMaxSane
      else let multiplier = f64_of_int (uint ((10 :: u64) ^ unat decimals));
               scaled = p * multiplier
           in if \<not> is_finite scaled \<or> scaled < 0 \<or> f64_of_int (2 ^ 128 - 1) < scaled
              then Inl OverflowsU128
              else Inr (word_of_int (f64_to_int 0 (2 ^ 128 - 1) (fround scaled))))"

text \<open>The assumed-peg counter of the health report.\<close>

definition note_usdt_rate_assumed :: "u64 \<Rightarrow> u64" where
  "note_usdt_rate_assumed n = n + 1"

definition sources_preimage :: "PricePoint list \<Rightarrow> bytes" where
  "sources_preimage prices =
     concat (map (\<lambda>p. string_bytes (source p) @ string_bytes ''|'' @ f64_to_be_bytes (price p)) prices)"

definition sources_hash :: "(bytes \<Rightarrow> bytes) \<Rightarrow> PricePoint list \<Rightarrow> bytes" where
  "sources_hash keccak256 prices = keccak256 (sources_preimage prices)"

section \<open>Cleaning a sample set\<close>

definition clean_sample :: "PricePoint \<Rightarrow> bool" where
  "clean_sample p \<longleftrightarrow>
     is_finite (price p) \<and> 0 < price p \<and> 0 < server_time p \<and> is_finite (volume p) \<and> 0 \<le> volume p"

lemma fix_volume_simps [simp]:
  "price (fix_volume p) = price p" "source (fix_volume p) = source p"
  "server_time (fix_volume p) = server_time p"
  by (simp_all add: fix_volume_def)

lemma fix_volume_clean: "sane_sample p \<Longrightarrow> clean_sample (fix_volume p)"
  using f64_not_lt[of "volume p" 0] f64_le_refl[of 0]
  by (auto simp: clean_sample_def sane_sample_def fix_volume_def is_finite_not_nan)

lemma clean_fix: "clean_sample p \<Longrightarrow> sane_sample p \<and> fix_volume p = p"
  using f64_le_lt_trans[of 0 "volume p" 0]
  by (auto simp: clean_sample_def sane_sample_def fix_volume_def)

lemma sanitize_fixed: "list_all clean_sample ps \<Longrightarrow> sanitize ps = ps"
  by (induction ps) (auto simp: sanitize_def clean_fix)

lemma sanitize_all_clean: "list_all clean_sample (sanitize ps)"
  by (auto simp: sanitize_def list_all_iff fix_volume_clean)

text \<open>
  Sanitising yields only samples with a finite positive price, a source clock, and a
  finite non-negative volume; it keeps every sample with a usable price and clock, in order
  and with its price, source and clock unchanged; and it is idempotent.
\<close>

theorem sanitize_correct:
  "list_all clean_sample (sanitize ps)
   \<and> map (\<lambda>p. (price p, source p, server_time p)) (sanitize ps)
     = map (\<lambda>p. (price p, source p, server_time p)) (filter sane_sample ps)
   \<and> sanitize (sanitize ps) = sanitize ps"
  using sanitize_fixed sanitize_all_clean by (auto simp: sanitize_def)

section \<open>The enclave clock\<close>

interpretation u64_sort: weak_order "(\<le>) :: u64 \<Rightarrow> u64 \<Rightarrow> bool" "\<lambda>_. True"
  by unfold_locales auto

lemma avg_u64_between:
  fixes a b lo hi :: u64
  assumes "lo \<le> a" "a \<le> hi" "lo \<le> b" "b \<le> hi" "hi < 2 ^ 63"
  shows "lo \<le> (a + b) div 2 \<and> (a + b) div 2 \<le> hi"
proof -
  have h: "unat hi < 2 ^ 63"
    using assms(5) by (simp add: word_less_nat_alt)
  have "unat a \<le> unat hi" "unat b \<le> unat hi"
    using assms(2,4) by (simp_all add: word_le_nat_alt)
  then have "unat (a + b) = unat a + unat b"
    using h by (subst unat_add_lem[THEN iffD1]) auto
  then have "unat ((a + b) div 2) = (unat a + unat b) div 2"
    by (simp add: unat_div)
  then show ?thesis using assms(1-4) by (simp add: word_le_nat_alt) linarith
qed

definition time_in :: "u64 \<Rightarrow> u64 \<Rightarrow> PricePoint \<Rightarrow> bool" where
  "time_in lo hi p \<longleftrightarrow> lo \<le> server_time p \<and> server_time p \<le> hi"

lemma median_server_time_majority:
  assumes maj: "length ps < 2 * length (filter (time_in lo hi) ps)" and hi: "hi < 2 ^ 63"
  shows "\<exists>m. median_server_time ps = Some m \<and> lo \<le> m \<and> m \<le> hi"
proof -
  let ?ts = "map server_time ps"
  have "length ?ts < 2 * length (filter (\<lambda>x. lo \<le> x \<and> x \<le> hi) ?ts)"
    using maj by (simp add: time_in_def[abs_def] filter_map comp_def)
  note mid = u64_sort.majority_middle[OF _ _ _ this]
  have ne: "ps \<noteq> []" using maj by auto
  have up: "lo \<le> sort_by (\<le>) ?ts ! (length ps div 2) \<and> sort_by (\<le>) ?ts ! (length ps div 2) \<le> hi"
    using mid[of "length ps div 2"] by simp
  show ?thesis
  proof (cases "even (length ps)")
    case True
    moreover have "0 < length ps div 2" using True ne by (cases ps) auto
    ultimately have "lo \<le> sort_by (\<le>) ?ts ! (length ps div 2 - 1) \<and>
        sort_by (\<le>) ?ts ! (length ps div 2 - 1) \<le> hi"
      using mid[of "length ps div 2 - 1"] by simp
    with up have "lo \<le> (sort_by (\<le>) ?ts ! (length ps div 2 - 1) + sort_by (\<le>) ?ts ! (length ps div 2)) div 2
        \<and> (sort_by (\<le>) ?ts ! (length ps div 2 - 1) + sort_by (\<le>) ?ts ! (length ps div 2)) div 2 \<le> hi"
      by (intro avg_u64_between) (use hi in auto)
    then show ?thesis
      using True ne by (simp add: median_server_time_def Let_def)
  qed (use up ne in \<open>simp add: median_server_time_def\<close>)
qed

lemma time_near_iff: "time_near m p \<longleftrightarrow> abs_diff (server_time p) m \<le> 300"
  by (auto simp: time_near_def abs_diff_def MAX_TIME_DRIFT_SECS_def max_def min_def)

lemma time_near_window:
  assumes m: "lo \<le> m" "m \<le> hi" and w: "hi - lo \<le> 300"
  shows "time_in lo hi p \<Longrightarrow> time_near m p"
    and "time_near m p \<Longrightarrow> unat lo \<le> unat (server_time p) + 300 \<and> unat (server_time p) \<le> unat hi + 300"
proof -
  have "unat lo \<le> unat m" "unat m \<le> unat hi" "unat hi - unat lo \<le> 300"
    using m w by (auto simp: word_le_nat_alt unat_sub)
  then show "time_in lo hi p \<Longrightarrow> time_near m p"
    and "time_near m p \<Longrightarrow> unat lo \<le> unat (server_time p) + 300 \<and> unat (server_time p) \<le> unat hi + 300"
    by (auto simp: time_near_iff time_in_def word_le_nat_alt unat_abs_diff_nat)
qed

lemma median_server_time_Some: "median_server_time ps = Some m \<Longrightarrow> ps \<noteq> []"
  by (auto simp: median_server_time_def)

text \<open>
  The clock cannot be dragged: when more than half of the samples carry a clock inside a
  window of at most 300 seconds, the time that will be signed lies in that window, no sample
  of the window is dropped, and no surviving sample is more than 300 seconds outside it.
\<close>

theorem reject_time_outliers_majority:
  assumes maj: "length ps < 2 * length (filter (time_in lo hi) ps)"
    and hi: "hi < 2 ^ 63" and w: "hi - lo \<le> 300"
  shows "\<exists>kept m. reject_time_outliers ps = (kept, Some m) \<and> lo \<le> m \<and> m \<le> hi
    \<and> filter (time_in lo hi) kept = filter (time_in lo hi) ps
    \<and> (\<forall>p \<in> set kept. p \<in> set ps \<and> unat lo \<le> unat (server_time p) + 300
                       \<and> unat (server_time p) \<le> unat hi + 300)"
proof -
  obtain m0 where m0: "median_server_time ps = Some m0" "lo \<le> m0" "m0 \<le> hi"
    using median_server_time_majority[OF maj hi] by blast
  let ?kept = "filter (time_near m0) ps"
  have eq: "filter (time_in lo hi) ?kept = filter (time_in lo hi) ps"
    using time_near_window(1)[OF m0(2,3) w] by (auto intro: filter_cong)
  have "length ?kept \<le> length ps" by (rule length_filter_le)
  then have "length ?kept < 2 * length (filter (time_in lo hi) ?kept)"
    unfolding eq using maj by linarith
  then obtain m where "median_server_time ?kept = Some m" "lo \<le> m" "m \<le> hi"
    using median_server_time_majority[OF _ hi] by blast
  then show ?thesis
    using m0 eq time_near_window(2)[OF m0(2,3) w]
    by (auto simp: reject_time_outliers_def Let_def simp del: filter_filter)
qed

definition sample_at :: "u64 \<Rightarrow> PricePoint" where
  "sample_at t = \<lparr>price = 1, volume = 0, source = ''x'', server_time = t\<rparr>"

theorem reject_time_outliers_majority_witness:
  "\<exists>kept m. reject_time_outliers [sample_at 1000, sample_at 9000, sample_at 1100] = (kept, Some m)
     \<and> 1000 \<le> m \<and> m \<le> (1100 :: u64)"
proof -
  have "length [sample_at 1000, sample_at 9000, sample_at 1100]
      < 2 * length (filter (time_in 1000 1100) [sample_at 1000, sample_at 9000, sample_at 1100])"
    by (simp add: sample_at_def time_in_def)
  from reject_time_outliers_majority[OF this] show ?thesis by auto
qed

section \<open>The median of a float sample\<close>

lemma median_sorted_Done: "values \<noteq> [] \<Longrightarrow> \<exists>m. median_sorted values = Done (sort_by f64_not_gt values, m)"
  by (simp add: median_sorted_def Let_def)

definition values_ok :: "PricePoint \<Rightarrow> bool" where
  "values_ok p \<longleftrightarrow> f64_ok (price p) \<and> f64_ok (volume p)"

lemma median_sorted_pos:
  assumes "values \<noteq> []" "\<forall>v \<in> set values. f64_ok v \<and> 0 < v"
  shows "\<exists>m. median_sorted values = Done (sort_by f64_not_gt values, m) \<and> f64_ok m \<and> 0 < m"
proof -
  let ?vs = "sort_by f64_not_gt values" and ?n = "length values"
  have v: "f64_ok (?vs ! i) \<and> 0 < ?vs ! i" if "i < ?n" for i
    using assms(2) that nth_mem[of i ?vs] by simp
  have n0: "?n div 2 < ?n" "?n div 2 - 1 < ?n" using assms(1) by (auto simp: less_imp_diff_less)
  show ?thesis
  proof (cases "even ?n")
    case True
    then have lt: "?n div 2 - 1 < ?n div 2" using assms(1) by (cases "values") auto
    have "sorted_wrt f64_not_gt ?vs"
      using assms(2) lt_not_nan by (intro f64_sort.sorted_sort_by) blast
    then have "f64_not_gt (?vs ! (?n div 2 - 1)) (?vs ! (?n div 2))"
      using lt n0 by (simp add: sorted_wrt_nth_less)
    moreover note a = v[OF n0(2)] and b = v[OF n0(1)]
    ultimately have "?vs ! (?n div 2 - 1) \<le> ?vs ! (?n div 2)"
      using f64_not_gt_le lt_not_nan by blast
    with a b have "?vs ! (?n div 2 - 1) \<le> (?vs ! (?n div 2 - 1) + ?vs ! (?n div 2)) / lit 2"
      using f64_midpoint_pos by blast
    with a have "0 < (?vs ! (?n div 2 - 1) + ?vs ! (?n div 2)) / lit 2"
      using f64_lt_le_trans by blast
    with True assms(1) show ?thesis by (simp add: median_sorted_def Let_def)
  qed (use v[OF n0(1)] assms(1) in \<open>simp add: median_sorted_def Let_def\<close>)
qed

section \<open>The weighted median\<close>

interpretation pair_sort: weak_order "\<lambda>a b. f64_not_gt (fst a) (fst b)" "\<lambda>a. fst a \<noteq> NaN"
  using f64_sort.total f64_sort.trans by (unfold_locales; blast)

definition running :: "(f64 \<times> f64) list \<Rightarrow> nat \<Rightarrow> f64" where
  "running ws k = foldl (+) 0 (map snd (take (Suc k) ws))"

lemma wm_pick_Some:
  "wm_pick half c ws = Some p \<Longrightarrow>
   \<exists>k < length ws. p = fst (ws ! k) \<and> half \<le> foldl (+) c (map snd (take (Suc k) ws))
     \<and> (\<forall>j < k. \<not> half \<le> foldl (+) c (map snd (take (Suc j) ws)))"
proof (induction half c ws rule: wm_pick.induct)
  case (2 half c p' w rest)
  show ?case
  proof (cases "half \<le> c + w")
    case True
    with 2(2) show ?thesis by (intro exI[of _ 0]) (auto simp: Let_def)
  next
    case False
    with 2(2) have "wm_pick half (c + w) rest = Some p" by (simp add: Let_def)
    from 2(1)[OF refl False this] obtain k where "k < length rest" "p = fst (rest ! k)"
      "half \<le> foldl (+) (c + w) (map snd (take (Suc k) rest))"
      "\<forall>j < k. \<not> half \<le> foldl (+) (c + w) (map snd (take (Suc j) rest))" by blast
    with False show ?thesis by (intro exI[of _ "Suc k"]) (auto simp: less_Suc_eq_0_disj)
  qed
qed simp

lemma wm_pick_None: "wm_pick half c ws = None \<Longrightarrow> ws \<noteq> [] \<Longrightarrow> \<not> half \<le> foldl (+) c (map snd ws)"
proof (induction half c ws rule: wm_pick.induct)
  case (2 half c p w rest)
  then show ?case by (cases rest) (auto simp: Let_def split: if_splits)
qed simp

lemma foldl_add_nonneg:
  "f64_ok c \<Longrightarrow> 0 \<le> c \<Longrightarrow> \<forall>w \<in> set ws. f64_ok w \<and> 0 \<le> w \<Longrightarrow>
   f64_ok (foldl (+) c ws) \<and> 0 \<le> foldl (+) c ws"
  by (induction ws arbitrary: c) (auto simp: f64_add_nonneg)

lemma NZero_add: "0 < w \<Longrightarrow> NZero + w = 0 + w"
  by (cases w) (auto simp: plus_f64_def zero_lt_iff)

definition weights_ok :: "(f64 \<times> f64) list \<Rightarrow> bool" where
  "weights_ok ws \<longleftrightarrow> list_all (\<lambda>(p, w). p \<noteq> NaN \<and> f64_ok w \<and> 0 < w) ws"

definition by_price :: "(f64 \<times> f64) list \<Rightarrow> (f64 \<times> f64) list" where
  "by_price ws = sort_by (\<lambda>a b. f64_not_gt (fst a) (fst b)) ws"

lemma total_running:
  assumes "weights_ok ws" "ws \<noteq> []"
  shows "foldl (+) NZero (map snd (by_price ws)) = running (by_price ws) (length ws - 1)"
    and "running (by_price ws) (length ws - 1) / lit 2 \<le> running (by_price ws) (length ws - 1)"
proof -
  have w: "\<forall>w \<in> set (map snd (by_price ws)). f64_ok w \<and> 0 < w"
    using assms(1) by (auto simp: weights_ok_def by_price_def list_all_iff)
  have l: "length (by_price ws) = length ws" by (simp add: by_price_def)
  obtain v vs where vs: "map snd (by_price ws) = v # vs"
    using assms(2) l by (cases "map snd (by_price ws)") auto
  have r: "running (by_price ws) (length ws - 1) = foldl (+) 0 (map snd (by_price ws))"
    using assms(2) l by (simp add: running_def Suc_diff_1)
  show "foldl (+) NZero (map snd (by_price ws)) = running (by_price ws) (length ws - 1)"
    using w unfolding r vs by (simp add: NZero_add)
  have "f64_ok (foldl (+) 0 (map snd (by_price ws))) \<and> 0 \<le> foldl (+) 0 (map snd (by_price ws))"
    using w f64_lt_imp_le by (intro foldl_add_nonneg) (auto simp: f64_le_refl)
  then show "running (by_price ws) (length ws - 1) / lit 2 \<le> running (by_price ws) (length ws - 1)"
    unfolding r using f64_half_le by blast
qed

lemma wm_select_least:
  assumes "weights_ok ws" "ws \<noteq> []"
  shows "\<exists>k < length ws. wm_select ws = fst (by_price ws ! k)
    \<and> running (by_price ws) (length ws - 1) / lit 2 \<le> running (by_price ws) k
    \<and> (\<forall>j < k. \<not> running (by_price ws) (length ws - 1) / lit 2 \<le> running (by_price ws) j)"
proof -
  let ?h = "running (by_price ws) (length ws - 1) / lit 2"
  have l: "length (by_price ws) = length ws" and ne: "by_price ws \<noteq> []"
    using assms(2) by (simp_all add: by_price_def)
  have t: "take (Suc (length ws - 1)) (by_price ws) = by_price ws"
    using l assms(2) by simp
  have "wm_pick ?h 0 (by_price ws) \<noteq> None"
    using wm_pick_None[OF _ ne, of ?h 0] total_running(2)[OF assms] t
    by (auto simp: running_def)
  then obtain p where p: "wm_pick ?h 0 (by_price ws) = Some p" by blast
  moreover have "wm_select ws = p"
    using p total_running(1)[OF assms] by (simp add: wm_select_def Let_def by_price_def)
  ultimately show ?thesis
    using wm_pick_Some[OF p] l by (simp add: running_def)
qed

definition volume_quorum :: "PricePoint list \<Rightarrow> bool" where
  "volume_quorum ps \<longleftrightarrow> length ps < 2 * length (filter (\<lambda>p. 0 < volume p) ps)"

lemma fmin_pos: "0 < a \<Longrightarrow> 0 < b \<Longrightarrow> f64_ok a \<Longrightarrow> f64_ok b \<Longrightarrow> 0 < fmin a b \<and> f64_ok (fmin a b)"
  by (simp add: fmin_def)

lemma lit_5: "is_finite (lit 5)" "fval (lit 5) = 5"
  using lit_small[of 5 False] rep_numeral[of "num.Bit1 (num.Bit0 num.One)"] by simp_all

text \<open>Past the two short cases the result is one selection over weights that are all positive.\<close>

lemma weighted_median_select:
  assumes "2 \<le> length ps" "list_all values_ok ps" "\<forall>p \<in> set ps. price p \<noteq> NaN"
  shows "\<exists>cap. weighted_median n ps =
        Done (Some (wm_select (map (wm_weight (volume_quorum ps) cap) ps),
                    if volume_quorum ps then VolumeWeighted else EqualFallback),
              if volume_quorum ps then n else n + 1)
      \<and> weights_ok (map (wm_weight (volume_quorum ps) cap) ps)
      \<and> (\<not> volume_quorum ps \<longrightarrow> cap = None)"
proof -
  obtain p q rs where ps: "ps = p # q # rs"
    using assms(1) by (cases ps; cases "tl ps") auto
  let ?pv = "filter (\<lambda>v. 0 < v) (map volume ps)"
  have q: "length ps < length ?pv * 2 \<longleftrightarrow> volume_quorum ps"
    by (simp add: volume_quorum_def filter_map comp_def mult.commute)
  have wm: "weighted_median n ps = run_bind
      (if volume_quorum ps then run_bind (median_sorted ?pv)
          (\<lambda>(vs, med). Done (Some (med * VOLUME_WEIGHT_CAP_FACTOR))) else Done None)
      (\<lambda>cap. Done (Some (wm_select (map (wm_weight (volume_quorum ps) cap) ps),
         if volume_quorum ps then VolumeWeighted else EqualFallback),
         if volume_quorum ps then n else n + 1))"
    unfolding q[symmetric] weighted_median_def by (simp add: ps Let_def)
  have one: "(0::f64) < 1" by (simp add: zero_lt_iff)
  show ?thesis
  proof (cases "volume_quorum ps")
    case False
    then show ?thesis
      using assms(3) one by (intro exI[of _ None])
        (auto simp: wm weights_ok_def wm_weight_def list_all_iff)
  next
    case True
    then have "length ?pv \<noteq> 0" using q by linarith
    then have ne: "?pv \<noteq> []" unfolding length_0_conv .
    have pos: "\<forall>v \<in> set ?pv. f64_ok v \<and> 0 < v"
      using assms(2) by (auto simp: list_all_iff values_ok_def)
    obtain m where m: "median_sorted ?pv = Done (sort_by f64_not_gt ?pv, m)" "f64_ok m" "0 < m"
      using median_sorted_pos[OF ne pos] by blast
    let ?c = "m * VOLUME_WEIGHT_CAP_FACTOR"
    have c: "f64_ok ?c" "0 < ?c"
      using f64_scale_pos[of m "lit 5"] m lit_5 f64_lt_le_trans
      by (auto simp: VOLUME_WEIGHT_CAP_FACTOR_def)
    have "weights_ok (map (wm_weight True (Some ?c)) ps)"
      using assms(2,3) one c fmin_pos
      by (auto simp: weights_ok_def wm_weight_def list_all_iff values_ok_def)
    with True m(1) show ?thesis by (intro exI[of _ "Some ?c"]) (simp add: wm)
  qed
qed

lemma wm_select_mem:
  assumes "weights_ok ws" "ws \<noteq> []"
  shows "wm_select ws \<in> fst ` set ws"
proof -
  obtain k where k: "k < length ws" "wm_select ws = fst (by_price ws ! k)"
    using wm_select_least[OF assms] by blast
  then have "by_price ws ! k \<in> set (by_price ws)" by (intro nth_mem) (simp add: by_price_def)
  then show ?thesis using k(2) by (auto simp: by_price_def)
qed


definition quoted :: "rat \<Rightarrow> rat \<Rightarrow> PricePoint" where
  "quoted p v = \<lparr>price = lit p, volume = lit v, source = ''x'', server_time = 1\<rparr>"


text \<open>
  The selection is the lower weighted median: with the observations in price order, it is
  the first one at which the running weight reaches half of the total, and the running weight
  always gets there, so the fall-through to the last observation is never taken.
\<close>

theorem wm_select_lower_median:
  assumes "weights_ok ws" "ws \<noteq> []"
  shows "sorted_wrt (\<lambda>a b. fst a \<le> fst b) (by_price ws) \<and> mset (by_price ws) = mset ws
    \<and> (\<exists>k < length ws. wm_select ws = fst (by_price ws ! k)
        \<and> running (by_price ws) (length ws - 1) / lit 2 \<le> running (by_price ws) k
        \<and> (\<forall>j < k. \<not> running (by_price ws) (length ws - 1) / lit 2 \<le> running (by_price ws) j))"
proof -
  have nn: "\<forall>a \<in> set ws. fst a \<noteq> NaN"
    using assms(1) by (auto simp: weights_ok_def list_all_iff)
  have "sorted_wrt (\<lambda>a b. f64_not_gt (fst a) (fst b)) (by_price ws)"
    unfolding by_price_def by (intro pair_sort.sorted_sort_by nn)
  then have "sorted_wrt (\<lambda>a b. fst a \<le> fst b) (by_price ws)"
    by (rule sorted_wrt_mono_rel[rotated]) (use nn f64_not_gt_le in \<open>auto simp: by_price_def\<close>)
  then show ?thesis using wm_select_least[OF assms] by (simp add: by_price_def)
qed

theorem wm_select_lower_median_witness:
  "wm_select [(lit 103, lit 1), (lit 100, lit 2), (lit 101, lit 4)] \<in> {lit 100, lit 101, lit 103}"
proof -
  let ?ws = "[(lit 103, lit 1), (lit 100, lit 2), (lit 101, lit 4)]"
  have "weights_ok ?ws" by code_simp
  from wm_select_lower_median[OF this] obtain k where
    k: "k < length ?ws" "wm_select ?ws = fst (by_price ?ws ! k)" by auto
  then have "by_price ?ws ! k \<in> set (by_price ?ws)" by (intro nth_mem) (simp add: by_price_def)
  then show ?thesis unfolding k(2) by (auto simp: by_price_def)
qed

lemma rep_half_nat: "n \<le> 2 ^ 53 \<Longrightarrow> rep (of_nat n / 2)"
  unfolding rep_def by (rule exI[of _ "int n"], rule exI[of _ "- 1"]) (simp add: power_int_minus)

lemma foldl_ones:
  "n \<le> 2 ^ 53 \<Longrightarrow> is_finite (foldl (+) 0 (replicate n 1)) \<and> fval (foldl (+) 0 (replicate n 1)) = of_nat n"
proof (induction n)
  case (Suc n)
  let ?f = "foldl (+) 0 (replicate n (1::f64))"
  have f: "is_finite ?f" "fval ?f = of_nat n" using Suc by auto
  have "rep (of_int (int (Suc n)))" using Suc.prems by (intro rep_of_int) simp
  then have r: "rep (of_nat n + 1)" by (simp add: add.commute)
  have "of_nat (Suc n) \<le> (of_nat (2 ^ 53) :: rat)" using Suc.prems of_nat_le_iff by blast
  then have b: "\<bar>of_nat n + 1\<bar> < (2 ^ 128 :: rat)" by simp
  have "replicate (Suc n) (1::f64) = replicate n 1 @ [1]" by (simp add: replicate_append_same)
  then have "foldl (+) 0 (replicate (Suc n) 1) = ?f + 1" by (simp only: foldl_append foldl.simps)
  also have "\<dots> = mkf False (of_nat n + 1)" using f by (simp add: fin_add)
  finally show ?case using lit_small[OF r b] by simp
qed simp

lemma ones_select:
  assumes n: "0 < n" "n \<le> 2 ^ 53"
    and ok: "weights_ok ws" "length ws = n" "\<forall>a \<in> set ws. snd a = 1"
  shows "\<exists>k. wm_select ws = fst (by_price ws ! k) \<and>
             (k = n div 2 \<and> odd n \<or> even n \<and> Suc k = n div 2)"
proof -
  have run: "running (by_price ws) k = foldl (+) 0 (replicate (Suc k) 1)" if "k < n" for k
  proof -
    have "map snd (by_price ws) = replicate n 1"
      using ok(2,3) by (intro replicate_eqI) (auto simp: by_price_def)
    then show ?thesis using that
      by (simp add: running_def take_map[symmetric] min_def del: replicate.simps take_Suc)
  qed
  define h where "h = running (by_price ws) (n - 1) / lit 2"
  have "is_finite (running (by_price ws) (n - 1)) \<and> fval (running (by_price ws) (n - 1)) = of_nat n"
    using run[of "n - 1"] foldl_ones[of n] n by simp
  moreover have "of_nat n / 2 < (2 ^ 128 :: rat)"
    using n(2) of_nat_le_iff[of n "2 ^ 53", where 'a = rat] by simp
  ultimately have h: "is_finite h" "fval h = of_nat n / 2"
    using lit_small[OF rep_half_nat[OF n(2)]] lit_2 by (simp_all add: h_def fin_div)
  have cmp: "h \<le> running (by_price ws) k \<longleftrightarrow> n \<le> 2 * Suc k" if "k < n" for k
  proof -
    have sk: "Suc k \<le> 2 ^ 53" using that n(2) by linarith
    have "h \<le> running (by_price ws) k \<longleftrightarrow> of_nat n / 2 \<le> (of_nat (Suc k) :: rat)"
      unfolding run[OF that] fin_le_iff[OF h(1) conjunct1[OF foldl_ones[OF sk]]] h(2)
        conjunct2[OF foldl_ones[OF sk]] ..
    also have "\<dots> \<longleftrightarrow> (of_nat n :: rat) \<le> of_nat (2 * Suc k)" by (simp add: field_simps)
    finally show ?thesis by (simp only: of_nat_le_iff)
  qed
  have ne: "ws \<noteq> []" using n(1) ok(2) by auto
  obtain k where k: "k < n" "wm_select ws = fst (by_price ws ! k)" "h \<le> running (by_price ws) k"
    "\<forall>j < k. \<not> h \<le> running (by_price ws) j"
    using wm_select_least[OF ok(1) ne] ok(2) by (auto simp: h_def)
  have "n \<le> 2 * Suc k" using k cmp by blast
  moreover have "k = 0 \<or> 2 * k < n"
    using k(1,4) cmp[of "k - 1"] by (cases k) auto
  ultimately have "k = n div 2 \<and> odd n \<or> even n \<and> Suc k = n div 2" using n(1) by presburger
  with k(2) show ?thesis by blast
qed

lemma filter_all_ones: "snd (wm_weight b None p) = 1" "fst (wm_weight b c p) = price p"
  by (simp_all add: wm_weight_def)

text \<open>
  C15. In the equal-weight fallback the answer is the (lower) median, so it resists a minority:
  when more than half of the samples lie between two bounds, so does the published price.
\<close>

theorem weighted_median_majority:
  assumes len: "2 \<le> length ps" "length ps \<le> 2 ^ 53" and ok: "list_all values_ok ps"
    and nn: "\<forall>p \<in> set ps. price p \<noteq> NaN"
    and fallback: "\<not> volume_quorum ps"
    and maj: "length ps < 2 * length (filter (\<lambda>p. lo \<le> price p \<and> price p \<le> hi) ps)"
  shows "\<exists>x. weighted_median n ps = Done (Some (x, EqualFallback), n + 1) \<and> lo \<le> x \<and> x \<le> hi"
proof -
  define ws where "ws = map (wm_weight False None) ps"
  have w: "weighted_median n ps = Done (Some (wm_select ws, EqualFallback), n + 1)" "weights_ok ws"
    using weighted_median_select[OF len(1) ok nn] fallback by (auto simp: ws_def)
  have "filter (\<lambda>p. lo \<le> price p \<and> price p \<le> hi) ps \<noteq> []" using maj by force
  then obtain p :: PricePoint where "lo \<le> price p" "price p \<le> hi" by (auto simp: filter_empty_conv)
  then have lh: "lo \<noteq> NaN" "hi \<noteq> NaN" using le_not_nan by blast+
  have l: "length ws = length ps" "\<forall>a \<in> set ws. snd a = 1" "\<forall>a \<in> set ws. fst a \<noteq> NaN"
    using nn by (auto simp: ws_def wm_weight_def)
  obtain k where k: "wm_select ws = fst (by_price ws ! k)"
    "k = length ps div 2 \<and> odd (length ps) \<or> even (length ps) \<and> Suc k = length ps div 2"
    using ones_select[OF _ len(2) w(2) l(1,2)] len(1) by fastforce
  have "filter (\<lambda>a. f64_not_gt (fst (lo, 1)) (fst a) \<and> f64_not_gt (fst a) (fst (hi, 1))) ws
      = filter (\<lambda>a. lo \<le> fst a \<and> fst a \<le> hi) ws"
    using l(3) lh by (intro filter_cong) (auto simp: f64_not_gt_le)
  moreover have "length (filter (\<lambda>a. lo \<le> fst a \<and> fst a \<le> hi) ws)
      = length (filter (\<lambda>p. lo \<le> price p \<and> price p \<le> hi) ps)"
    by (simp add: ws_def List.filter_map comp_def wm_weight_def)
  ultimately have "length ws < 2 * length (filter (\<lambda>a. f64_not_gt (fst (lo, 1)) (fst a)
      \<and> f64_not_gt (fst a) (fst (hi, 1 :: f64))) ws)"
    using maj l(1) by simp
  from pair_sort.majority_middle[OF l(3) _ _ this, of k]
  have "f64_not_gt lo (fst (by_price ws ! k)) \<and> f64_not_gt (fst (by_price ws ! k)) hi"
    using k(2) l(1) lh by (auto simp: by_price_def)
  moreover have "fst (by_price ws ! k) \<noteq> NaN"
    using l(3) wm_select_mem[OF w(2)] len(1) l(1) unfolding k(1) by force
  ultimately show ?thesis using w(1) k(1) lh by (simp add: f64_not_gt_le)
qed

theorem weighted_median_majority_witness:
  "\<exists>x. weighted_median 0 [quoted 100 0, quoted 5000 9, quoted 101 0] = Done (Some (x, EqualFallback), 1)
     \<and> lit 99 \<le> x \<and> x \<le> lit 102"
proof -
  let ?ps = "[quoted 100 0, quoted 5000 9, quoted 101 0]"
  have "list_all values_ok ?ps" by (simp add: values_ok_def quoted_def)
  moreover have "\<forall>p \<in> set ?ps. price p \<noteq> NaN" by (simp add: quoted_def)
  moreover have "\<not> volume_quorum ?ps" by code_simp
  moreover have "length ?ps < 2 * length (filter (\<lambda>p. lit 99 \<le> price p \<and> price p \<le> lit 102) ?ps)"
    by code_simp
  ultimately show ?thesis using weighted_median_majority[of ?ps "lit 99" "lit 102" 0] by simp
qed

text \<open>
  The volume cap alone does not stop one venue from deciding the price. With three venues,
  two honest ones trading a unit each and a third claiming a hundred, the capped weights are
  1, 1 and 5, and the published price is the third venue's.
\<close>

theorem capped_venue_decides:
  "weighted_median 0 [quoted 100 1, quoted 101 1, quoted 900 100]
   = Done (Some (lit 900, VolumeWeighted), 0)"
proof -
  let ?ps = "[quoted 100 1, quoted 101 1, quoted 900 100]"
  have v: "filter (\<lambda>v. 0 < v) (map volume ?ps) = [lit 1, lit 1, lit 100]" by code_simp
  have m: "median_sorted [lit 1, lit 1, lit 100] = Done ([lit 1, lit 1, lit 100], lit 1)" by code_simp
  have c: "lit 1 * VOLUME_WEIGHT_CAP_FACTOR = lit 5" by code_simp
  have w: "map (wm_weight True (Some (lit 5))) ?ps
      = [(lit 100, lit 1), (lit 101, lit 1), (lit 900, lit 5)]" by code_simp
  have s: "wm_select [(lit 100, lit 1), (lit 101, lit 1), (lit 900, lit 5)] = lit 900" by code_simp
  show ?thesis
    unfolding weighted_median_def Let_def list.case v by (simp add: m c w[simplified] s)
qed

section \<open>Outlier rejection\<close>

definition moderate :: "f64 \<Rightarrow> bool" where
  "moderate v \<longleftrightarrow> f64_ok v \<and> is_finite v \<and> \<bar>fval v\<bar> \<le> 2 ^ 100"

lemma moderate_not_nan: "moderate v \<Longrightarrow> v \<noteq> NaN"
  using is_finite_not_nan by (auto simp: moderate_def)

lemma moderate_midpoint:
  assumes "moderate a" "moderate b" "a \<le> b"
  shows "moderate ((a + b) / lit 2) \<and> a \<le> (a + b) / lit 2 \<and> (a + b) / lit 2 \<le> b"
proof -
  have "\<bar>fval a + fval b\<bar> \<le> 2 ^ 101"
    using assms(1,2) abs_triangle_ineq[of "fval a" "fval b"] by (simp add: moderate_def)
  then have "is_finite (a + b)"
    using assms(1,2) mkf_small(1)[of _ 101] by (simp add: moderate_def fin_add)
  then have m: "a \<le> (a + b) / lit 2 \<and> (a + b) / lit 2 \<le> b \<and> is_finite ((a + b) / lit 2)"
    using f64_midpoint assms by (auto simp: moderate_def)
  then have "fval a \<le> fval ((a + b) / lit 2)" "fval ((a + b) / lit 2) \<le> fval b"
    using assms(1,2) by (auto simp: moderate_def fin_le_iff[symmetric])
  then have "\<bar>fval ((a + b) / lit 2)\<bar> \<le> 2 ^ 100"
    using assms(1,2) by (auto simp: moderate_def abs_le_iff)
  with m show ?thesis by (simp add: moderate_def)
qed

text \<open>
  The median of moderate values exists, is moderate, has at least half of the values at or
  below it, and lies between any two bounds that hold a majority.
\<close>

lemma median_sorted_moderate:
  assumes ne: "values \<noteq> []" and ok: "\<forall>v \<in> set values. moderate v"
  obtains m where "median_sorted values = Done (sort_by f64_not_gt values, m)" "moderate m"
    "length values \<le> 2 * length (filter (\<lambda>v. v \<le> m) values)"
    "\<And>lo hi. length values < 2 * length (filter (\<lambda>v. lo \<le> v \<and> v \<le> hi) values) \<Longrightarrow> lo \<le> m \<and> m \<le> hi"
proof -
  let ?ys = "sort_by f64_not_gt values" and ?n = "length values"
  let ?a = "?ys ! ((?n - 1) div 2)" and ?b = "?ys ! (?n div 2)"
  define m where "m = (if even ?n then (?a + ?b) / lit 2 else ?b)"
  have nan: "\<forall>v \<in> set values. v \<noteq> NaN" using ok moderate_not_nan by blast
  have y: "moderate (?ys ! i)" if "i < ?n" for i using ok that nth_mem[of i ?ys] by simp
  have n0: "?n div 2 < ?n" "(?n - 1) div 2 < ?n" using length_greater_0_conv[of "values"] ne by linarith+
  have srt: "sorted_wrt f64_not_gt ?ys" using nan by (rule f64_sort.sorted_sort_by)
  have le: "?ys ! i \<le> ?ys ! j" if "i \<le> j" "j < ?n" for i j
  proof (cases "i = j")
    case False
    then have "f64_not_gt (?ys ! i) (?ys ! j)" using that srt by (simp add: sorted_wrt_nth_less)
    then show ?thesis using y that moderate_not_nan f64_not_gt_le by (metis le_less_trans)
  qed (use that y[of j] moderate_not_nan f64_le_refl in auto)
  have ab: "?a \<le> ?b" using le[of "(?n - 1) div 2" "?n div 2"] n0 by (simp add: div_le_mono)
  have am: "moderate m" "?a \<le> m" "m \<le> ?b"
    using moderate_midpoint[OF y[OF n0(2)] y[OF n0(1)] ab] y[OF n0(1)] ab moderate_not_nan f64_le_refl
    by (auto simp: m_def)
  have "(?n - 1) div 2 = ?n div 2 - 1" if "even ?n" using that ne by (auto elim!: evenE)
  then have "median_sorted values = Done (?ys, m)"
    using ne by (simp add: median_sorted_def Let_def m_def)
  moreover have "?n \<le> 2 * length (filter (\<lambda>v. v \<le> m) values)"
  proof -
    have "Suc ((?n - 1) div 2) \<le> length (filter (\<lambda>v. v \<le> m) ?ys)"
      using n0(2) am(2) le by (intro count_filter_prefix) (auto intro: f64_le_trans simp: less_Suc_eq_le)
    moreover have "length (filter (\<lambda>v. v \<le> m) ?ys) = length (filter (\<lambda>v. v \<le> m) values)"
      by (metis mset_filter mset_sort_by size_mset)
    ultimately show ?thesis by linarith
  qed
  moreover have "lo \<le> m \<and> m \<le> hi"
    if maj: "?n < 2 * length (filter (\<lambda>v. lo \<le> v \<and> v \<le> hi) values)" for lo hi
  proof -
    have "filter (\<lambda>v. lo \<le> v \<and> v \<le> hi) values \<noteq> []" using maj by force
    then obtain v where "lo \<le> v" "v \<le> hi" by (auto simp: filter_empty_conv)
    then have lh: "lo \<noteq> NaN" "hi \<noteq> NaN" using le_not_nan by blast+
    have "filter (\<lambda>v. lo \<le> v \<and> v \<le> hi) values
        = filter (\<lambda>v. f64_not_gt lo v \<and> f64_not_gt v hi) values"
      using nan lh by (intro filter_cong) (auto simp: f64_not_gt_le)
    with maj have "?n < 2 * length (filter (\<lambda>v. f64_not_gt lo v \<and> f64_not_gt v hi) values)" by simp
    note mid = f64_sort.majority_middle[OF nan lh this]
    have "(?n - 1) div 2 = ?n div 2 \<or> even ?n \<and> Suc ((?n - 1) div 2) = ?n div 2"
      using length_greater_0_conv[of "values"] ne by presburger
    then have "f64_not_gt lo ?a" "f64_not_gt ?b hi"
      using mid[of "(?n - 1) div 2"] mid[of "?n div 2"] by blast+
    then have "lo \<le> ?a" "?b \<le> hi"
      using y n0 lh f64_not_gt_le moderate_not_nan by blast+
    then show ?thesis using am f64_le_trans by blast
  qed
  ultimately show thesis using that am(1) by blast
qed

lemma run_bind_Done: "run_bind r f = Done b \<longleftrightarrow> (\<exists>a. r = Done a \<and> f a = Done b)"
  by (cases r) auto

lemma lit_mad_floor: "is_finite (lit (1 / 10 ^ 10))" "0 < lit (1 / 10 ^ 10)"
  by code_simp+

lemma mad_factor: "is_finite (lit 3 * lit (14826 / 10000))" "1 \<le> fval (lit 3 * lit (14826 / 10000))"
  by code_simp+

lemma mad_scaled:
  assumes "f64_ok mad" "\<not> mad < lit (1 / 10 ^ 10)" "mad \<noteq> NaN"
  shows "mad \<le> lit 3 * lit (14826 / 10000) * mad"
proof -
  have "0 < mad"
    using assms lit_mad_floor f64_not_lt f64_lt_le_trans lt_not_nan by blast
  then show ?thesis
    using f64_scale_pos[OF assms(1) _ mad_factor] f64_mult_commute by metis
qed

definition in_range :: "f64 \<Rightarrow> bool" where
  "in_range v \<longleftrightarrow> f64_ok v \<and> 0 \<le> v \<and> v \<le> MAX_SANE_PRICE"

lemma MAX_SANE_PRICE_val: "is_finite MAX_SANE_PRICE" "fval MAX_SANE_PRICE = 10 ^ 20"
  by code_simp+

lemma in_range_fval: "in_range v \<Longrightarrow> is_finite v \<and> 0 \<le> fval v \<and> fval v \<le> 10 ^ 20"
  using fin_between[of 0 v MAX_SANE_PRICE] MAX_SANE_PRICE_val
  by (auto simp: in_range_def fin_le_iff)

lemma in_range_moderate: "in_range v \<Longrightarrow> moderate v"
  using in_range_fval by (force simp: moderate_def in_range_def)

lemma in_range_dev: "in_range a \<Longrightarrow> in_range b \<Longrightarrow> moderate \<bar>a - b\<bar>"
proof -
  assume r: "in_range a" "in_range b"
  note v = in_range_fval[OF r(1)] in_range_fval[OF r(2)]
  then have "\<bar>fval a - fval b\<bar> \<le> 2 ^ 100" by auto
  then have "is_finite (a - b)" "\<bar>fval (a - b)\<bar> \<le> 2 ^ 100"
    using v mkf_small[of _ 100] by (simp_all add: fin_sub)
  then show ?thesis using r by (simp add: moderate_def in_range_def)
qed

text \<open>
  Rejection in a form the theorems below share: the median of the prices, the median of the
  deviations from it, and one threshold.
\<close>

definition mad_limit :: "f64 \<Rightarrow> f64 \<Rightarrow> f64" where
  "mad_limit sigma mad = (if mad < lit (1 / 10 ^ 10) then PInf else sigma * lit (14826 / 10000) * mad)"

definition cap_limit :: "f64 \<Rightarrow> 16 word \<Rightarrow> f64" where
  "cap_limit median cap_bps =
     (if cap_bps = 0 then PInf else \<bar>median\<bar> * f64_of_int (uint cap_bps) / lit 10000)"

definition outlier_threshold :: "f64 \<Rightarrow> f64 \<Rightarrow> f64 \<Rightarrow> 16 word \<Rightarrow> f64" where
  "outlier_threshold sigma median mad cap_bps = fmin (mad_limit sigma mad) (cap_limit median cap_bps)"

definition rejection_by :: "PricePoint list \<Rightarrow> f64 \<Rightarrow> f64 \<Rightarrow> bool" where
  "rejection_by ps median mad \<longleftrightarrow> in_range median \<and> moderate mad
     \<and> length ps \<le> 2 * length (filter (\<lambda>p. \<bar>price p - median\<bar> \<le> mad) ps)
     \<and> (\<forall>lo hi. length ps < 2 * length (filter (\<lambda>p. lo \<le> price p \<and> price p \<le> hi) ps) \<longrightarrow>
          lo \<le> median \<and> median \<le> hi)
     \<and> (\<forall>sigma cap. reject_outliers_with_cap ps sigma cap =
          Done (if is_finite (outlier_threshold sigma median mad cap)
                then filter (\<lambda>p. \<bar>price p - median\<bar> \<le> outlier_threshold sigma median mad cap) ps
                else ps))"

lemma rejection_by_exists:
  assumes "3 \<le> length ps" "list_all (\<lambda>p. in_range (price p)) ps"
  shows "\<exists>median mad. rejection_by ps median mad"
proof -
  have ne: "map price ps \<noteq> []" using assms(1) by auto
  have r: "\<forall>v \<in> set (map price ps). in_range v" using assms(2) by (auto simp: list_all_iff)
  then have mo: "\<forall>v \<in> set (map price ps). moderate v" using in_range_moderate by blast
  obtain median where m: "median_sorted (map price ps) = Done (sort_by f64_not_gt (map price ps), median)"
    "moderate median" "length (map price ps) \<le> 2 * length (filter (\<lambda>v. v \<le> median) (map price ps))"
    "\<And>lo hi. length (map price ps) < 2 * length (filter (\<lambda>v. lo \<le> v \<and> v \<le> hi) (map price ps)) \<Longrightarrow>
        lo \<le> median \<and> median \<le> hi"
    by (rule median_sorted_moderate[OF ne mo]) auto
  have "filter (\<lambda>v. 0 \<le> v \<and> v \<le> MAX_SANE_PRICE) (map price ps) = map price ps"
    using r by (intro filter_True) (auto simp: in_range_def)
  then have rm: "in_range median"
    using m(4)[of 0 MAX_SANE_PRICE] m(2) ne by (auto simp: in_range_def moderate_def)
  let ?devs = "map (\<lambda>p. \<bar>p - median\<bar>) (sort_by f64_not_gt (map price ps))"
  have dn: "?devs \<noteq> []" using ne by simp
  have dm: "\<forall>v \<in> set ?devs. moderate v" using r rm in_range_dev by auto
  obtain mad where d: "median_sorted ?devs = Done (sort_by f64_not_gt ?devs, mad)" "moderate mad"
    "length ?devs \<le> 2 * length (filter (\<lambda>v. v \<le> mad) ?devs)"
    by (rule median_sorted_moderate[OF dn dm]) auto
  have "mset ?devs = image_mset (\<lambda>p. \<bar>price p - median\<bar>) (mset ps)"
    by (simp add: image_mset.compositionality comp_def)
  then have "size (filter_mset (\<lambda>v. v \<le> mad) (mset ?devs))
      = size (filter_mset (\<lambda>p. \<bar>price p - median\<bar> \<le> mad) (mset ps))"
    by (simp add: filter_mset_image_mset)
  then have half: "length ps \<le> 2 * length (filter (\<lambda>p. \<bar>price p - median\<bar> \<le> mad) ps)"
    using d(3) unfolding mset_filter[symmetric] size_mset by simp
  have "reject_outliers_with_cap ps sigma cap =
       Done (if is_finite (outlier_threshold sigma median mad cap)
             then filter (\<lambda>p. \<bar>price p - median\<bar> \<le> outlier_threshold sigma median mad cap) ps
             else ps)" for sigma cap
    using assms(1) unfolding reject_outliers_with_cap_def outlier_threshold_def mad_limit_def cap_limit_def m(1)
    by (simp only: run_bind.simps prod.case d(1)) (simp add: Let_def)
  then have "rejection_by ps median mad"
    using rm d(2) half m(4) by (simp add: rejection_by_def List.filter_map comp_def)
  then show ?thesis by blast
qed

lemma fmin_le: "a \<noteq> NaN \<Longrightarrow> b \<noteq> NaN \<Longrightarrow> fmin a b \<le> a \<and> fmin a b \<le> b"
  using f64_not_lt[of b a] f64_le_refl f64_lt_imp_le by (auto simp: fmin_def)

lemma fmin_PInf: "fmin a PInf = (if a = NaN then PInf else a)"
  by (cases a) (auto simp: fmin_def less_f64_def)

lemma mad_limit_ge: "moderate mad \<Longrightarrow> mad \<le> mad_limit (lit 3) mad"
  using mad_scaled[of mad] moderate_not_nan[of mad]
  by (cases "mad < lit (1 / 10 ^ 10)") (auto simp: mad_limit_def moderate_def less_eq_f64_def is_finite_iff)

lemma mad_gate: "moderate mad \<Longrightarrow> mad \<le> outlier_threshold (lit 3) median mad 0"
  using mad_limit_ge[of mad] le_not_nan[of mad "mad_limit (lit 3) mad"]
  by (simp add: outlier_threshold_def cap_limit_def fmin_PInf)

text \<open>
  Without a cap, the gate the price loop uses (three scaled absolute deviations) never
  panics and never discards more than half of the samples.
\<close>

theorem reject_outliers_keeps_half:
  assumes "list_all (\<lambda>p. in_range (price p)) ps"
  shows "\<exists>qs. reject_outliers ps (lit 3) = Done qs \<and> length ps \<le> 2 * length qs \<and> set qs \<subseteq> set ps"
proof (cases "3 \<le> length ps")
  case True
  obtain median mad where f: "rejection_by ps median mad"
    using rejection_by_exists[OF True assms] by blast
  have "mad \<le> outlier_threshold (lit 3) median mad 0"
    using mad_gate[of mad] f
    by (simp add: rejection_by_def)
  then have "length (filter (\<lambda>p. \<bar>price p - median\<bar> \<le> mad) ps)
      \<le> length (filter (\<lambda>p. \<bar>price p - median\<bar> \<le> outlier_threshold (lit 3) median mad 0) ps)"
    by (intro length_filter_mono) (auto intro: f64_le_trans)
  with f show ?thesis by (auto simp: reject_outliers_def rejection_by_def)
qed (simp add: reject_outliers_def reject_outliers_with_cap_def)

theorem reject_outliers_keeps_half_witness:
  "\<exists>qs. reject_outliers [quoted 100 1, quoted 101 1, quoted 900 1] (lit 3) = Done qs
        \<and> 2 \<le> length qs"
proof -
  have "list_all (\<lambda>p. in_range (price p)) [quoted 100 1, quoted 101 1, quoted 900 1]" by code_simp
  from reject_outliers_keeps_half[OF this] show ?thesis by fastforce
qed

lemma cap_finite:
  assumes "in_range median" "0 \<le> u" "u < 2 ^ 16"
  shows "is_finite (\<bar>median\<bar> * f64_of_int u / lit 10000)"
proof -
  have r: "rep (of_int u)" using assms(2,3) by (intro rep_of_int) simp
  have u: "0 \<le> (of_int u :: rat)" "of_int u \<le> (of_int (2 ^ 16) :: rat)"
    using assms(2,3) by (simp, intro of_int_le_iff[THEN iffD2]) simp
  then have k: "is_finite (f64_of_int u)" "fval (f64_of_int u) = of_int u"
    unfolding f64_of_int_def using lit_small[OF r] by simp_all
  note m = in_range_fval[OF assms(1)]
  have "fval median * of_int u \<le> 10 ^ 20 * of_int (2 ^ 16)"
    using m u by (intro mult_mono) auto
  then have "\<bar>fval \<bar>median\<bar> * fval (f64_of_int u)\<bar> \<le> 2 ^ 100"
    using m u unfolding k(2) by (simp add: abs_mult)
  then have p: "is_finite (\<bar>median\<bar> * f64_of_int u)" "\<bar>fval (\<bar>median\<bar> * f64_of_int u)\<bar> \<le> 2 ^ 100"
    using mkf_small[of _ 100] m k(1) by (simp_all add: fin_mul)
  have t: "is_finite (lit 10000)" "fval (lit 10000) = 10000" by code_simp+
  have "\<bar>fval (\<bar>median\<bar> * f64_of_int u) / 10000\<bar> \<le> 2 ^ 100"
    using p(2) by simp
  then show ?thesis using mkf_small(1)[of _ 100] p(1) t by (simp add: fin_div)
qed

lemma cap_limit_finite: "in_range median \<Longrightarrow> cap \<noteq> 0 \<Longrightarrow> is_finite (cap_limit median cap)"
  unfolding cap_limit_def using cap_finite[of median "uint cap"] uint_bounded[of cap] by simp

lemma cap_lowers_threshold:
  assumes "in_range median" "is_finite (outlier_threshold sigma median mad 0)"
  shows "is_finite (outlier_threshold sigma median mad cap)
    \<and> outlier_threshold sigma median mad cap \<le> outlier_threshold sigma median mad 0"
proof (cases "cap = 0")
  case False
  note c = cap_limit_finite[OF assms(1) False]
  have "outlier_threshold sigma median mad 0 = mad_limit sigma mad" "is_finite (mad_limit sigma mad)"
    using assms(2) by (auto simp: outlier_threshold_def cap_limit_def fmin_PInf split: if_splits)
  with c show ?thesis
    using fmin_le[of "mad_limit sigma mad" "cap_limit median cap"] is_finite_not_nan
    by (auto simp: outlier_threshold_def fmin_def)
qed (use assms f64_le_refl is_finite_not_nan in auto)

text \<open>
  A cap can only reject more: whatever the scale and the cap, the samples kept with a cap
  are a selection of those kept without one.
\<close>

theorem cap_only_rejects_more:
  assumes "list_all (\<lambda>p. in_range (price p)) ps"
  shows "\<exists>rs P. reject_outliers ps sigma = Done rs
               \<and> reject_outliers_with_cap ps sigma cap = Done (filter P rs)"
proof (cases "3 \<le> length ps")
  case True
  obtain median mad where f: "rejection_by ps median mad"
    using rejection_by_exists[OF True assms] by blast
  let ?t = "outlier_threshold sigma median mad"
  have t: "is_finite (?t cap) \<and> ?t cap \<le> ?t 0" if "is_finite (?t 0)"
    using cap_lowers_threshold that f by (simp add: rejection_by_def)
  have e: "reject_outliers_with_cap ps sigma c = Done (if is_finite (?t c)
      then filter (\<lambda>p. \<bar>price p - median\<bar> \<le> ?t c) ps else ps)" for c
    using f unfolding rejection_by_def by blast
  show ?thesis
  proof (cases "is_finite (?t 0)")
    case True
    have "filter (\<lambda>p. \<bar>price p - median\<bar> \<le> ?t cap) ps
        = filter (\<lambda>p. \<bar>price p - median\<bar> \<le> ?t cap) (filter (\<lambda>p. \<bar>price p - median\<bar> \<le> ?t 0) ps)"
      using t[OF True] f64_le_trans unfolding filter_filter by (intro filter_cong) blast+
    then show ?thesis unfolding reject_outliers_def e if_P[OF True] if_P[OF conjunct1[OF t[OF True]]]
      by blast
  next
    case False
    show ?thesis unfolding reject_outliers_def e if_not_P[OF False]
      by (intro exI[of _ ps] exI[of _ "\<lambda>p. is_finite (?t cap) \<longrightarrow> \<bar>price p - median\<bar> \<le> ?t cap"]) simp
  qed
next
  case False
  then show ?thesis
    by (intro exI[of _ ps] exI[of _ "\<lambda>_. True"])
      (simp add: reject_outliers_def reject_outliers_with_cap_def)
qed

theorem cap_only_rejects_more_witness:
  "\<exists>rs P. reject_outliers [quoted 100 1, quoted 101 1, quoted 900 1] (lit 3) = Done rs
     \<and> reject_outliers_with_cap [quoted 100 1, quoted 101 1, quoted 900 1] (lit 3) 50 = Done (filter P rs)"
proof -
  have "list_all (\<lambda>p. in_range (price p)) [quoted 100 1, quoted 101 1, quoted 900 1]" by code_simp
  from cap_only_rejects_more[OF this] show ?thesis by blast
qed

lemma capped_threshold:
  assumes "in_range median" "moderate mad" "cap \<noteq> 0"
  shows "is_finite (outlier_threshold (lit 3) median mad cap)
    \<and> outlier_threshold (lit 3) median mad cap \<le> cap_limit median cap"
proof -
  note c = cap_limit_finite[OF assms(1,3)]
  have m: "mad \<le> mad_limit (lit 3) mad" "is_finite mad"
    using mad_limit_ge[OF assms(2)] assms(2) by (simp_all add: moderate_def)
  have n: "mad_limit (lit 3) mad \<noteq> NaN" using le_not_nan[OF m(1)] by simp
  have "is_finite (mad_limit (lit 3) mad)" if "\<not> cap_limit median cap < mad_limit (lit 3) mad"
    using fin_between[OF m(1) _ m(2) c] that f64_not_lt[OF is_finite_not_nan[OF c] n] by blast
  then show ?thesis
    using c n fmin_le[OF n is_finite_not_nan[OF c]] is_finite_not_nan[OF c]
    by (auto simp: outlier_threshold_def fmin_def)
qed

text \<open>
  With a cap, what survives stays near the majority: when more than half of at least three
  samples lie between two bounds, every surviving sample is within the configured basis
  points of one price between those bounds.
\<close>

theorem capped_survivors_near_majority:
  assumes len: "3 \<le> length ps" and rng: "list_all (\<lambda>p. in_range (price p)) ps" and cap: "cap \<noteq> 0"
    and maj: "length ps < 2 * length (filter (\<lambda>p. lo \<le> price p \<and> price p \<le> hi) ps)"
  shows "\<exists>median qs. reject_outliers_with_cap ps (lit 3) cap = Done qs \<and> lo \<le> median \<and> median \<le> hi
    \<and> (\<forall>p \<in> set qs. p \<in> set ps \<and> \<bar>price p - median\<bar> \<le> \<bar>median\<bar> * f64_of_int (uint cap) / lit 10000)"
proof -
  obtain median mad where f: "rejection_by ps median mad"
    using rejection_by_exists[OF len rng] by blast
  let ?t = "outlier_threshold (lit 3) median mad cap"
  have t: "is_finite ?t" "?t \<le> cap_limit median cap"
    using capped_threshold[OF _ _ cap] f by (auto simp: rejection_by_def)
  have m: "lo \<le> median" "median \<le> hi" using f maj unfolding rejection_by_def by blast+
  have r: "reject_outliers_with_cap ps (lit 3) cap = Done (filter (\<lambda>p. \<bar>price p - median\<bar> \<le> ?t) ps)"
    using f t(1) unfolding rejection_by_def by simp
  have "\<bar>price p - median\<bar> \<le> \<bar>median\<bar> * f64_of_int (uint cap) / lit 10000"
    if "\<bar>price p - median\<bar> \<le> ?t" for p :: PricePoint
    using f64_le_trans[OF that t(2)] cap by (simp add: cap_limit_def)
  with m r show ?thesis by (intro exI[of _ median] exI[of _ "filter (\<lambda>p. \<bar>price p - median\<bar> \<le> ?t) ps"]) auto
qed

theorem capped_survivors_near_majority_witness:
  "\<exists>median qs. reject_outliers_with_cap [quoted 100 1, quoted 101 1, quoted 900 1] (lit 3) 200 = Done qs
     \<and> lit 100 \<le> median \<and> median \<le> lit 101"
proof -
  let ?ps = "[quoted 100 1, quoted 101 1, quoted 900 1]"
  have "list_all (\<lambda>p. in_range (price p)) ?ps" by code_simp
  moreover have "length ?ps < 2 * length (filter (\<lambda>p. lit 100 \<le> price p \<and> price p \<le> lit 101) ?ps)"
    by code_simp
  ultimately show ?thesis using capped_survivors_near_majority[of ?ps 200 "lit 100" "lit 101"] by auto
qed

section \<open>Fixed point\<close>

lemma scale_8: "is_finite (f64_of_int 100000000)"
  "fval (f64_of_int 100000000) = 10 ^ 8"
  "\<not> signbit (f64_of_int 100000000)"
  by code_simp+

lemma u128_max: "is_finite (f64_of_int 340282366920938463463374607431768211455)" "fval (f64_of_int 340282366920938463463374607431768211455) = 2 ^ 128"
  by code_simp+

lemma uint_u256: "0 \<le> n \<Longrightarrow> n < 2 ^ 128 \<Longrightarrow> uint (word_of_int n :: u256) = n"
  by (simp add: uint_word_of_int)

lemma to_fixed_point_8:
  assumes "in_range p" "0 < p"
  shows "to_fixed_point p 8 = Inr (word_of_int \<lfloor>rnd (fval p * 10 ^ 8) + 1 / 2\<rfloor>)"
    and "uint (word_of_int \<lfloor>rnd (fval p * 10 ^ 8) + 1 / 2\<rfloor> :: u256) = \<lfloor>rnd (fval p * 10 ^ 8) + 1 / 2\<rfloor>"
proof -
  let ?m = "f64_of_int 100000000"
  define x where "x = fval p * 10 ^ 8"
  have p: "is_finite p" "0 < fval p" "fval p \<le> 10 ^ 20" "\<not> signbit p"
    using in_range_fval[OF assms(1)] assms(2) by (cases p; simp add: zero_lt_iff)+
  have x: "0 < x" "\<bar>x\<bar> \<le> 2 ^ 100" using p by (auto simp: x_def)
  have s: "p * ?m = mkf False x" using p scale_8 by (simp add: fin_mul x_def)
  note f = mkf_small[OF x(2), of False]
  have r: "0 \<le> rnd x" "rnd x \<le> 2 ^ 100" using f rnd_nonneg[of x] x(1) by auto
  have sc: "p * ?m = Fin (rnd x)"
    using x(1) f(1) unfolding s mkf_def Let_def by (auto simp: mkf_finite_iff mkf_def Let_def)
  have guards: "\<not> p \<le> 0" "\<not> MAX_SANE_PRICE < p"
    using assms f64_le_lt_trans[of p 0 p] f64_le_lt_trans[of p MAX_SANE_PRICE p]
    by (auto simp: in_range_def)
  have big: "\<not> p * ?m < 0" "\<not> f64_of_int 340282366920938463463374607431768211455 < p * ?m" "is_finite (p * ?m)"
    using r u128_max by (auto simp: sc fin_lt_iff)
  have fl: "0 \<le> \<lfloor>rnd x + 1 / 2\<rfloor>" "\<lfloor>rnd x + 1 / 2\<rfloor> < 2 ^ 128 - 1"
    using r by (auto simp: floor_less_iff)
  have "f64_to_int 0 (2 ^ 128 - 1) (fround (p * ?m)) = \<lfloor>rnd x + 1 / 2\<rfloor>"
    using r fl unfolding sc by (simp add: min_def)
  then show "to_fixed_point p 8 = Inr (word_of_int \<lfloor>rnd (fval p * 10 ^ 8) + 1 / 2\<rfloor>)"
    using p guards big by (simp add: to_fixed_point_def Let_def x_def)
  show "uint (word_of_int \<lfloor>rnd (fval p * 10 ^ 8) + 1 / 2\<rfloor> :: u256) = \<lfloor>rnd (fval p * 10 ^ 8) + 1 / 2\<rfloor>"
    unfolding x_def[symmetric] using fl by (intro uint_u256) linarith+
qed

lemma rnd_error_rel:
  assumes "1 \<le> x"
  shows "\<bar>rnd x - x\<bar> \<le> x / 2 ^ 53"
proof -
  have e: "p2 (rexp x) \<le> x" "x < p2 (rexp x + 1)" using rexp_bounds[of x] assms by auto
  have "p2 0 < p2 (rexp x + 1)" using e(2) assms by simp
  then have "0 \<le> rexp x" by (subst (asm) p2_less_iff) linarith
  then have u: "ulp_exp x = rexp x + (- 52)" by (simp add: ulp_exp_def)
  have "p2 (ulp_exp x) = p2 (rexp x) / 2 ^ 52"
    unfolding u p2_add by (simp add: power_int_minus divide_simps)
  then have "p2 (ulp_exp x) / 2 \<le> x / 2 ^ 53" using e(1) by simp
  then show ?thesis using rnd_error[of x] assms by simp
qed



text \<open>
  The encoding is monotone: of two encodable prices the larger never encodes to the
  smaller integer.
\<close>

theorem to_fixed_point_mono:
  assumes "f64_ok p" "f64_ok q" "p \<le> q" "to_fixed_point p 8 = Inr m" "to_fixed_point q 8 = Inr n"
  shows "m \<le> n"
proof -
  have g: "0 < r \<and> in_range r" if "to_fixed_point r 8 = Inr k" "f64_ok r" for r k
    using that f64_not_le[of r 0] f64_not_lt[of MAX_SANE_PRICE r] is_finite_not_nan[of r]
      MAX_SANE_PRICE_val is_finite_not_nan[of MAX_SANE_PRICE] f64_lt_imp_le[of 0 r]
    by (auto simp: to_fixed_point_def Let_def in_range_def split: if_splits)
  note p = g[OF assms(4,1)] and q = g[OF assms(5,2)]
  have "fval p \<le> fval q"
    using assms(3) p q in_range_fval by (simp add: fin_le_iff)
  then have "rnd (fval p * 10 ^ 8) \<le> rnd (fval q * 10 ^ 8)" by (intro rnd_mono) simp
  then have "\<lfloor>rnd (fval p * 10 ^ 8) + 1 / 2\<rfloor> \<le> \<lfloor>rnd (fval q * 10 ^ 8) + 1 / 2\<rfloor>"
    by (intro floor_mono) simp
  then show ?thesis
    using to_fixed_point_8[of p] to_fixed_point_8[of q] p q assms(4,5)
    by (simp only: word_le_def) auto
qed

theorem to_fixed_point_mono_witness:
  "the (res_ok (to_fixed_point (lit 100) 8)) \<le> the (res_ok (to_fixed_point (lit 101) 8))"
proof -
  have "to_fixed_point (lit 100) 8 = Inr 10000000000" "to_fixed_point (lit 101) 8 = Inr 10100000000"
    "lit 100 \<le> lit 101" by code_simp+
  with to_fixed_point_mono[of "lit 100" "lit 101"] show ?thesis by simp
qed

text \<open>
  A positive price below half a unit of the last decimal passes every check of the
  encoder and encodes to zero.
\<close>

theorem tiny_price_encodes_to_zero:
  "0 < lit (1 / 10 ^ 9) \<and> to_fixed_point (lit (1 / 10 ^ 9)) 8 = Inr 0"
  by code_simp

text \<open>
  The deviation setting of an asset can drop samples the statistical gate keeps: three
  venues at 100 and one at 103 are all kept without it, and the fourth is dropped at 200
  basis points.
\<close>

theorem deviation_setting_drops_more:
  "let ps = [quoted 100 1, quoted 100 1, quoted 100 1, quoted 103 1]
   in reject_outliers ps (lit 3) = Done ps
    \<and> reject_outliers_with_cap ps (lit 3) 200 = Done [quoted 100 1, quoted 100 1, quoted 100 1]"
proof -
  let ?ps = "[quoted 100 1, quoted 100 1, quoted 100 1, quoted 103 1]"
  have p: "map price ?ps = [lit 100, lit 100, lit 100, lit 103]" by code_simp
  have m: "median_sorted [lit 100, lit 100, lit 100, lit 103]
      = Done ([lit 100, lit 100, lit 100, lit 103], lit 100)" by code_simp
  have d: "map (\<lambda>p. \<bar>p - lit 100\<bar>) [lit 100, lit 100, lit 100, lit 103] = [0, 0, 0, lit 3]" by code_simp
  have n: "median_sorted [0, 0, 0, lit 3] = Done ([0, 0, 0, lit 3], 0)" by code_simp
  have z: "0 < lit (1 / 10 ^ 10)" and w: "(200 :: 16 word) \<noteq> 0" by code_simp+
  have c: "\<bar>lit 100\<bar> * f64_of_int (uint (200 :: 16 word)) / lit 10000 = lit 2" by code_simp
  have i: "fmin PInf PInf = PInf" "fmin PInf (lit 2) = lit 2" "is_finite (lit 2)" by code_simp+
  have f: "filter (\<lambda>p. \<bar>price p - lit 100\<bar> \<le> lit 2) ?ps = [quoted 100 1, quoted 100 1, quoted 100 1]"
    by code_simp
  show ?thesis
    unfolding Let_def reject_outliers_def reject_outliers_with_cap_def p m run_bind.simps prod.case d n c
      if_P[OF z] if_P[OF refl] if_not_P[OF w] i(1,2) f
    by (simp add: i(3))
qed

end
