(* ===== verification/Ordered_Map.thy ===== *)
theory Ordered_Map
  imports Prelude
begin

text \<open>
  The ordered maps of the standard library (\<open>BTreeMap\<close>) as lists of entries in ascending key
  order. The operations take the comparison as an argument, so the same definitions serve
  prices (floats under \<open>OrderedFloat\<close>) and grid keys (integers). The locale \<open>ordered_key\<close> is the
  contract of such a comparison; under it a map is determined by its lookups, every operation
  keeps the order and acts on the lookups as it should.
\<close>

fun bt_insert :: "('k \<Rightarrow> 'k \<Rightarrow> bool) \<Rightarrow> 'k \<Rightarrow> 'v \<Rightarrow> ('k \<times> 'v) list \<Rightarrow> ('k \<times> 'v) list" where
  "bt_insert lt k v [] = [(k, v)]"
| "bt_insert lt k v ((k', v') # m) =
     (if lt k k' then (k, v) # (k', v') # m
      else if lt k' k then (k', v') # bt_insert lt k v m
      else (k', v) # m)"

fun bt_remove :: "('k \<Rightarrow> 'k \<Rightarrow> bool) \<Rightarrow> 'k \<Rightarrow> ('k \<times> 'v) list \<Rightarrow> ('k \<times> 'v) list" where
  "bt_remove lt k [] = []"
| "bt_remove lt k ((k', v') # m) =
     (if lt k k' then (k', v') # m
      else if lt k' k then (k', v') # bt_remove lt k m
      else m)"

fun bt_get :: "('k \<Rightarrow> 'k \<Rightarrow> bool) \<Rightarrow> 'k \<Rightarrow> ('k \<times> 'v) list \<Rightarrow> 'v option" where
  "bt_get lt k [] = None"
| "bt_get lt k ((k', v') # m) =
     (if lt k k' then None else if lt k' k then bt_get lt k m else Some v')"

definition bt_last :: "'a list \<Rightarrow> 'a option" where
  "bt_last m = (if m = [] then None else Some (last m))"

lemma bt_last_simps [simp]: "bt_last [] = None" "bt_last (m @ [x]) = Some x" "bt_last m = None \<longleftrightarrow> m = []"
  by (simp_all add: bt_last_def)

lemma bt_last_Some: "bt_last m = Some x \<longleftrightarrow> m \<noteq> [] \<and> x = last m"
  by (auto simp: bt_last_def)

definition bt_inv :: "('k \<Rightarrow> 'k \<Rightarrow> bool) \<Rightarrow> ('k \<Rightarrow> bool) \<Rightarrow> ('k \<times> 'v) list \<Rightarrow> bool" where
  "bt_inv lt ok m \<longleftrightarrow> sorted_wrt lt (map fst m) \<and> (\<forall>k \<in> fst ` set m. ok k)"

lemma bt_inv_Nil [simp]: "bt_inv lt ok []"
  by (simp add: bt_inv_def)

lemma bt_inv_Cons [simp]:
  "bt_inv lt ok ((k, v) # m) \<longleftrightarrow> ok k \<and> (\<forall>k' \<in> fst ` set m. lt k k') \<and> bt_inv lt ok m"
  by (auto simp: bt_inv_def)

lemma bt_inv_append:
  "bt_inv lt ok (m @ m') \<longleftrightarrow> bt_inv lt ok m \<and> bt_inv lt ok m' \<and> (\<forall>k \<in> fst ` set m. \<forall>k' \<in> fst ` set m'. lt k k')"
  by (auto simp: bt_inv_def sorted_wrt_append)

lemma keys_insert: "x \<in> fst ` set (bt_insert lt k v m) \<Longrightarrow> x = k \<or> x \<in> fst ` set m"
  by (induction lt k v m rule: bt_insert.induct) (auto split: if_splits)

lemma entries_remove: "e \<in> set (bt_remove lt k m) \<Longrightarrow> e \<in> set m"
  by (induction lt k m rule: bt_remove.induct) (auto split: if_splits)

lemma entries_insert: "e \<in> set (bt_insert lt k v m) \<Longrightarrow> snd e = v \<or> e \<in> set m"
  by (induction lt k v m rule: bt_insert.induct) (auto split: if_splits)

locale ordered_key =
  fixes lt :: "'k \<Rightarrow> 'k \<Rightarrow> bool"
    and ok :: "'k \<Rightarrow> bool"
  assumes irrefl: "ok x \<Longrightarrow> \<not> lt x x"
    and trans: "ok x \<Longrightarrow> ok y \<Longrightarrow> ok z \<Longrightarrow> lt x y \<Longrightarrow> lt y z \<Longrightarrow> lt x z"
    and total: "ok x \<Longrightarrow> ok y \<Longrightarrow> x \<noteq> y \<Longrightarrow> lt x y \<or> lt y x"
begin

lemma asym: "ok x \<Longrightarrow> ok y \<Longrightarrow> lt x y \<Longrightarrow> \<not> lt y x"
  using irrefl trans by blast

lemma insert_inv:
  assumes "bt_inv lt ok m" "ok k"
  shows "bt_inv lt ok (bt_insert lt k v m)"
  using assms
proof (induction m)
  case (Cons e m)
  obtain k' v' where e: "e = (k', v')" by (cases e)
  have ok: "ok k'" "\<forall>x \<in> fst ` set m. lt k' x \<and> ok x" "bt_inv lt ok m"
    using Cons.prems e by (auto simp: bt_inv_def)
  consider "lt k k'" | "lt k' k" "\<not> lt k k'" | "k = k'" "\<not> lt k k'" using total[of k k'] Cons.prems ok(1) by blast
  then show ?case
  proof cases
    case 1
    then show ?thesis using ok Cons.prems e trans[of k k'] by auto
  next
    case 2
    have "lt k' x" if "x \<in> fst ` set (bt_insert lt k v m)" for x
      using keys_insert[OF that] ok(2) 2(1) by blast
    then show ?thesis using ok Cons e 2 by simp
  next
    case 3
    then show ?thesis using ok e irrefl by auto
  qed
qed simp

lemma remove_inv: "bt_inv lt ok m \<Longrightarrow> bt_inv lt ok (bt_remove lt k m)"
proof (induction m)
  case (Cons e m)
  then show ?case using entries_remove[of _ lt k m] by (cases e) (auto split: if_splits)
qed simp

lemma get_map_of:
  assumes "bt_inv lt ok m" "ok k"
  shows "bt_get lt k m = map_of m k"
  using assms
proof (induction m)
  case (Cons e m)
  obtain k' v' where e: "e = (k', v')" by (cases e)
  have ok: "ok k'" "\<forall>x \<in> fst ` set m. lt k' x \<and> ok x" using Cons.prems e by (auto simp: bt_inv_def)
  consider "k = k'" | "k \<noteq> k'" "lt k k'" | "k \<noteq> k'" "lt k' k" "\<not> lt k k'" using total[of k k'] Cons.prems ok(1) by blast
  then show ?case
  proof cases
    case 1
    then show ?thesis using e ok irrefl by simp
  next
    case 2
    then have "k \<notin> fst ` set m" using ok Cons.prems(2) asym by blast
    then have "map_of m k = None" by (simp add: map_of_eq_None_iff)
    then show ?thesis using e 2 by simp
  next
    case 3
    then show ?thesis using e Cons by simp
  qed
qed simp

lemma insert_map_of:
  assumes "bt_inv lt ok m" "ok k"
  shows "map_of (bt_insert lt k v m) = (map_of m)(k \<mapsto> v)"
  using assms
proof (induction m)
  case (Cons e m)
  obtain k' v' where e: "e = (k', v')" by (cases e)
  have ok: "ok k'" using Cons.prems e by simp
  then show ?case using Cons e total[of k k'] irrefl[of k] by (auto simp: fun_eq_iff)
qed simp

lemma remove_map_of:
  assumes "bt_inv lt ok m" "ok k"
  shows "map_of (bt_remove lt k m) = (map_of m)(k := None)"
  using assms
proof (induction m)
  case (Cons e m)
  obtain k' v' where e: "e = (k', v')" by (cases e)
  have ok: "ok k'" "\<forall>x \<in> fst ` set m. lt k' x \<and> ok x" "bt_inv lt ok m"
    using Cons.prems e by (auto simp: bt_inv_def)
  have gone: "map_of m x = None" if "x = k' \<or> lt x k'" "ok x" for x
  proof -
    have "x \<notin> fst ` set m" using that ok asym irrefl by blast
    then show ?thesis by (simp add: map_of_eq_None_iff)
  qed
  consider "k = k'" | "k \<noteq> k'" "lt k k'" | "k \<noteq> k'" "lt k' k" "\<not> lt k k'" using total[of k k'] Cons.prems ok(1) by blast
  then show ?case
  proof cases
    case 1
    then show ?thesis using e ok gone[of k'] irrefl by (auto simp: fun_eq_iff)
  next
    case 2
    then have "map_of m k = None" using gone[of k] Cons.prems(2) by blast
    then show ?thesis using e 2 by (auto simp: fun_eq_iff)
  next
    case 3
    then show ?thesis using e Cons by (auto simp: fun_eq_iff)
  qed
qed simp

lemma last_max: "bt_inv lt ok m \<Longrightarrow> bt_last m = Some (k, v) \<Longrightarrow> k' \<in> fst ` set m \<Longrightarrow> k' = k \<or> lt k' k"
proof (induction m rule: rev_induct)
  case (snoc e m)
  then show ?case by (auto simp: bt_inv_append)
qed simp

lemma first_min: "bt_inv lt ok m \<Longrightarrow> first m = Some (k, v) \<Longrightarrow> k' \<in> fst ` set m \<Longrightarrow> k' = k \<or> lt k k'"
  by (cases m) auto

lemma distinct_keys: "bt_inv lt ok m \<Longrightarrow> distinct (map fst m)"
  using irrefl by (induction m) force+

lemma insert_last: "bt_inv lt ok (m @ [(k, v')]) \<Longrightarrow> bt_insert lt k v (m @ [(k, v')]) = m @ [(k, v)]"
proof (induction m)
  case (Cons e m)
  then show ?case using asym by (cases e) (auto simp: bt_inv_def)
qed (use irrefl in auto)

lemma remove_last: "bt_inv lt ok (m @ [(k, v')]) \<Longrightarrow> bt_remove lt k (m @ [(k, v')]) = m"
proof (induction m)
  case (Cons e m)
  then show ?case using asym by (cases e) (auto simp: bt_inv_def)
qed (use irrefl in auto)

lemma insert_first: "bt_inv lt ok ((k, v') # m) \<Longrightarrow> bt_insert lt k v ((k, v') # m) = (k, v) # m"
  using irrefl by simp

lemma remove_first: "bt_inv lt ok ((k, v') # m) \<Longrightarrow> bt_remove lt k ((k, v') # m) = m"
  using irrefl by simp

lemma extensional:
  assumes "bt_inv lt ok m" "bt_inv lt ok m'" "map_of m = map_of m'"
  shows "m = m'"
  using assms
proof (induction m arbitrary: m')
  case Nil
  then show ?case by (cases m') (auto simp: fun_eq_iff split: if_splits)
next
  case (Cons e m)
  obtain k v where e: "e = (k, v)" by (cases e)
  have i: "ok k" "\<forall>x \<in> fst ` set m. lt k x \<and> ok x" "bt_inv lt ok m"
    using Cons.prems(1) e by (auto simp: bt_inv_def)
  have keys: "insert k (fst ` set m) = fst ` set m'"
    using Cons.prems(3) e by (metis dom_map_of_conv_image_fst image_insert list.simps(15) fst_conv)
  then obtain k2 v2 m2 where m': "m' = (k2, v2) # m2" by (cases m') auto
  have j: "ok k2" "\<forall>x \<in> fst ` set m2. lt k2 x \<and> ok x" "bt_inv lt ok m2"
    using Cons.prems(2) m' by (auto simp: bt_inv_def)
  have "k2 = k"
    using keys m' i(1,2) j(1,2) asym[of k k2] by (metis fst_conv image_insert insertCI insertE list.simps(15))
  have "v2 = v" using Cons.prems(3) e m' \<open>k2 = k\<close> by (metis map_of_Cons_code(2) option.inject)
  have "map_of m x = map_of m2 x" for x
  proof (cases "x = k")
    case True
    have "k \<notin> fst ` set m" "k \<notin> fst ` set m2" using i j \<open>k2 = k\<close> irrefl by blast+
    then show ?thesis using True by (metis map_of_eq_None_iff)
  next
    case False
    then show ?thesis using Cons.prems(3) e m' \<open>k2 = k\<close> by (metis map_of_Cons_code(2))
  qed
  then have "m = m2" using Cons.IH i(3) j(3) by blast
  then show ?case using e m' \<open>k2 = k\<close> \<open>v2 = v\<close> by simp
qed

end

end
