(* ===== verification/Books.thy ===== *)
theory Books
  imports F64 Ordered_Map Runs
begin

text \<open>
  \<open>src/cob_common/mod.rs\<close>, \<open>src/collectors/book.rs\<close> and \<open>src/cob_state/mod.rs\<close>: the order book a
  collector keeps for one venue and symbol, the message it emits, and the shared table of the
  latest message per venue and symbol.

  An \<open>i64\<close> is an \<open>int\<close>; where the source computes on one the result is wrapped. A tracker is
  used by one collector task at a time, so its atomics are plain fields and the
  compare-exchange loop is one comparison. A side of a book is an ordered map from price to
  quantity. The shared table is the list of its entries in iteration order, which the hash
  map leaves open. Strings are ASCII.
\<close>

section \<open>Latency and time stamps\<close>

definition I64_MAX :: int where "I64_MAX = 2 ^ 63 - 1"

record LatencyTracker =
  min_delta :: int
  base_rtt_ms :: int
  sample_count :: int
  recalibrate_every :: int

definition DEFAULT_RECALIBRATE_EVERY :: int where "DEFAULT_RECALIBRATE_EVERY = 3000"

definition LatencyTracker_new :: "int \<Rightarrow> LatencyTracker" where
  "LatencyTracker_new rtt =
     \<lparr>min_delta = I64_MAX, base_rtt_ms = rtt, sample_count = 0, recalibrate_every = DEFAULT_RECALIBRATE_EVERY\<rparr>"

definition normalize_timestamp_ms :: "int \<Rightarrow> int option" where
  "normalize_timestamp_ms ts =
     (if ts \<le> 0 then None
      else if ts < 1000000000000 then Some (i64_wrap (ts * 1000))
      else if ts > 1000000000000000 then Some (i64_div ts 1000)
      else Some ts)"

definition calculate :: "LatencyTracker \<Rightarrow> int \<Rightarrow> int \<Rightarrow> int \<times> LatencyTracker" where
  "calculate t exchange_ts_ms received_at_ms =
     (if exchange_ts_ms \<le> 0 then (- 1, t)
      else
        let current_delta = i64_wrap (received_at_ms - exchange_ts_ms);
            seen = sample_count t;
            t = t\<lparr>sample_count := i64_wrap (seen + 1)\<rparr>;
            t = (if seen > 0 \<and> seen mod recalibrate_every t = 0 then t\<lparr>min_delta := I64_MAX\<rparr> else t);
            t = (if current_delta \<ge> min_delta t then t else t\<lparr>min_delta := current_delta\<rparr>)
        in (if min_delta t = I64_MAX then base_rtt_ms t
            else let relative = i64_wrap (current_delta - min_delta t) in
              if relative < 0 then base_rtt_ms t else i64_wrap (relative + base_rtt_ms t), t))"

definition process :: "LatencyTracker \<Rightarrow> int \<Rightarrow> int \<Rightarrow> (int \<times> int) option \<times> LatencyTracker" where
  "process t raw_ts received_at_ms =
     (case normalize_timestamp_ms raw_ts of
        None \<Rightarrow> (None, t)
      | Some ts_ms \<Rightarrow> (case calculate t ts_ms received_at_ms of (latency, t) \<Rightarrow> (Some (ts_ms, latency), t)))"

section \<open>Messages\<close>

record ExchangeConfig =
  exc_name :: string
  exc_enabled :: bool
  exc_ws_url :: string
  exc_pairs :: "string list"
  exc_extra_params :: "string \<rightharpoonup> string"

definition ExchangeConfig_validate :: "ExchangeConfig \<Rightarrow> (string, unit) res" where
  "ExchangeConfig_validate c =
     (if exc_name c = [] then Inl ''Exchange config has empty name'' else Inr ())"

datatype CollectorCommand = Enable string | Disable string | StatusOf | Reload | Stop

datatype ServiceStatus = Starting | Connected | Reconnecting | ServiceError string | Offline

record ExchangeStats =
  st_name :: string
  st_bids_count :: nat
  st_asks_count :: nat
  st_timestamp :: int
  st_latency_ms :: int

record PriceLevel =
  lvl_price :: f64
  lvl_quantity :: f64

record OrderBookData =
  ob_exchange_id :: string
  ob_symbol :: string
  ob_exchange_timestamp :: int
  ob_latency :: int
  ob_bids :: "PriceLevel list"
  ob_asks :: "PriceLevel list"
  ob_node_id :: "string option"

datatype CollectorMessage = Stats ExchangeStats | Data OrderBookData | Status string ServiceStatus

definition best_bid :: "OrderBookData \<Rightarrow> PriceLevel option" where
  "best_bid b = first (ob_bids b)"

definition best_ask :: "OrderBookData \<Rightarrow> PriceLevel option" where
  "best_ask b = first (ob_asks b)"

definition mid_price :: "OrderBookData \<Rightarrow> f64 option" where
  "mid_price b =
     (case best_bid b of
        None \<Rightarrow> None
      | Some bb \<Rightarrow>
     (case best_ask b of
        None \<Rightarrow> None
      | Some ba \<Rightarrow> Some ((lvl_price bb + lvl_price ba) div lit 2)))"

definition is_valid :: "OrderBookData \<Rightarrow> bool" where
  "is_valid b =
     (case (best_bid b, best_ask b) of
        (Some bid, Some ask) \<Rightarrow> lvl_price bid > 0 \<and> lvl_price ask > 0 \<and> lvl_price bid < lvl_price ask
      | (None, None) \<Rightarrow> False
      | (Some bid, None) \<Rightarrow> lvl_price bid > 0
      | (None, Some ask) \<Rightarrow> lvl_price ask > 0)"

definition to_upper :: "char \<Rightarrow> char" where
  "to_upper c = (let n = of_char c :: nat in if 97 \<le> n \<and> n \<le> 122 then char_of (n - 32) else c)"

definition cut_at :: "string \<Rightarrow> char \<Rightarrow> string option" where
  "cut_at s sep = (if sep \<in> set s then Some (takeWhile (\<lambda>c. c \<noteq> sep) s) else None)"

definition strip_suffix :: "string \<Rightarrow> string \<Rightarrow> string option" where
  "strip_suffix s quote =
     (if length quote \<le> length s \<and> drop (length s - length quote) s = quote
      then Some (take (length s - length quote) s) else None)"

definition strip_quote :: "string \<Rightarrow> string \<Rightarrow> string option" where
  "strip_quote s quote =
     (case strip_suffix s quote of Some base \<Rightarrow> if base \<noteq> [] then Some base else None | None \<Rightarrow> None)"

definition extract_base_asset :: "string \<Rightarrow> string" where
  "extract_base_asset symbol =
     (let s = map to_upper symbol in
      case first (filter_map (cut_at s) [CHR ''/'', CHR ''_'', CHR ''-'', CHR '':'']) of
        Some base \<Rightarrow> base
      | None \<Rightarrow>
     (case first (filter_map (strip_quote s) [''USDT'', ''USDC'', ''BUSD'', ''TUSD'', ''UST'', ''USD'']) of
        Some base \<Rightarrow> base
      | None \<Rightarrow> s))"

section \<open>The local book\<close>

text \<open>\<open>OrderedFloat\<close> compares as the floats do, with \<open>NaN\<close> above everything.\<close>

definition of_lt :: "f64 \<Rightarrow> f64 \<Rightarrow> bool" where
  "of_lt a b \<longleftrightarrow> (if a = NaN then False else if b = NaN then True else a < b)"

definition TOP_N :: nat where "TOP_N = 25"

type_synonym side = "(f64 \<times> f64) list"

record LocalBook =
  lb_exchange_id :: string
  lb_symbol :: string
  lb_bids :: side
  lb_asks :: side
  lb_seq :: "u64 option"
  lb_latency :: LatencyTracker

definition LocalBook_new :: "string \<Rightarrow> string \<Rightarrow> LocalBook" where
  "LocalBook_new exchange_id symbol =
     \<lparr>lb_exchange_id = exchange_id, lb_symbol = symbol, lb_bids = [], lb_asks = [], lb_seq = None,
      lb_latency = LatencyTracker_new 0\<rparr>"

definition is_ready :: "LocalBook \<Rightarrow> bool" where
  "is_ready b \<longleftrightarrow> lb_seq b \<noteq> None \<and> (lb_bids b \<noteq> [] \<or> lb_asks b \<noteq> [])"

definition clear :: "LocalBook \<Rightarrow> LocalBook" where
  "clear b = b\<lparr>lb_bids := [], lb_asks := [], lb_seq := None\<rparr>"

definition snapshot_level :: "side \<Rightarrow> f64 \<times> f64 \<Rightarrow> side" where
  "snapshot_level side level =
     (case level of (p, q) \<Rightarrow>
      if p > 0 \<and> q > 0 \<and> is_finite p \<and> is_finite q then bt_insert of_lt p q side else side)"

definition apply_snapshot :: "LocalBook \<Rightarrow> (f64 \<times> f64) list \<Rightarrow> (f64 \<times> f64) list \<Rightarrow> u64 option \<Rightarrow> LocalBook" where
  "apply_snapshot b bids asks seq =
     b\<lparr>lb_bids := foldl snapshot_level [] bids, lb_asks := foldl snapshot_level [] asks, lb_seq := seq\<rparr>"

definition delta_level :: "side \<Rightarrow> f64 \<times> f64 \<Rightarrow> side" where
  "delta_level side level =
     (case level of (p, q) \<Rightarrow>
      if \<not> is_finite p \<or> \<not> is_finite q \<or> p \<le> 0 then side
      else if q < 0 then side
      else if feq q 0 then bt_remove of_lt p side
      else bt_insert of_lt p q side)"

definition apply_deltas :: "LocalBook \<Rightarrow> (f64 \<times> f64) list \<Rightarrow> (f64 \<times> f64) list \<Rightarrow> u64 option \<Rightarrow> LocalBook" where
  "apply_deltas b bids asks new_seq =
     (let b = b\<lparr>lb_bids := foldl delta_level (lb_bids b) bids, lb_asks := foldl delta_level (lb_asks b) asks\<rparr>
      in case new_seq of Some s \<Rightarrow> b\<lparr>lb_seq := Some s\<rparr> | None \<Rightarrow> b)"

definition is_crossed :: "LocalBook \<Rightarrow> bool" where
  "is_crossed b =
     (case (bt_last (lb_bids b), first (lb_asks b)) of
        (Some (bid, _), Some (ask, _)) \<Rightarrow> ask \<le> bid
      | _ \<Rightarrow> False)"

definition price_levels :: "side \<Rightarrow> PriceLevel list" where
  "price_levels side = map (\<lambda>(p, q). \<lparr>lvl_price = p, lvl_quantity = q\<rparr>) side"

definition top_n :: "LocalBook \<Rightarrow> nat \<Rightarrow> PriceLevel list \<times> PriceLevel list" where
  "top_n b n = (price_levels (take n (rev (lb_bids b))), price_levels (take n (lb_asks b)))"

text \<open>The emitted message, and the book with its tracker advanced.\<close>

definition to_orderbook_data :: "LocalBook \<Rightarrow> int \<Rightarrow> int \<Rightarrow> OrderBookData option \<times> LocalBook" where
  "to_orderbook_data b exchange_ts_ms received_at_ms =
     (case process (lb_latency b) exchange_ts_ms received_at_ms of
        (None, t) \<Rightarrow> (None, b\<lparr>lb_latency := t\<rparr>)
      | (Some (norm_ts, latency), t) \<Rightarrow>
          let (bids, asks) = top_n b TOP_N in
          (Some \<lparr>ob_exchange_id = lb_exchange_id b, ob_symbol = lb_symbol b, ob_exchange_timestamp = norm_ts,
                 ob_latency = latency, ob_bids = bids, ob_asks = asks, ob_node_id = None\<rparr>,
           b\<lparr>lb_latency := t\<rparr>))"

section \<open>The shared table\<close>

type_synonym book_map = "(string \<times> OrderBookData) list"

record SharedBookState =
  books :: book_map
  insert_count :: u64

definition PRUNE_EVERY_N :: u64 where "PRUNE_EVERY_N = 1000"
definition DEFAULT_MAX_AGE_MS :: int where "DEFAULT_MAX_AGE_MS = 60000"

definition new_shared :: book_map where "new_shared = []"

text \<open>Insertion into a hash map given by its entries.\<close>

fun hm_insert :: "'k \<Rightarrow> 'v \<Rightarrow> ('k \<times> 'v) list \<Rightarrow> ('k \<times> 'v) list" where
  "hm_insert k b [] = [(k, b)]"
| "hm_insert k b ((k', b') # m) = (if k' = k then (k, b) # m else (k', b') # hm_insert k b m)"

definition median_ts :: "int list \<Rightarrow> int option" where
  "median_ts ts =
     (let v = sort_by (\<le>) (filter (\<lambda>t. t > 0) ts) in if v = [] then None else Some (v ! (length v div 2)))"

definition state_reference_now_ms :: "book_map \<Rightarrow> int option" where
  "state_reference_now_ms m = median_ts (map (ob_exchange_timestamp \<circ> snd) m)"

definition prune_in_place :: "book_map \<Rightarrow> int \<Rightarrow> int \<Rightarrow> nat \<times> book_map" where
  "prune_in_place m reference_ms max_age_ms =
     (let kept = filter (\<lambda>(_, book).
            if ob_exchange_timestamp book \<le> 0 then False
            else let delta = i64_wrap (reference_ms - ob_exchange_timestamp book)
                 in i64_wrap \<bar>delta\<bar> \<le> max_age_ms) m
      in (length m - length kept, kept))"

definition insert_book :: "SharedBookState \<Rightarrow> OrderBookData \<Rightarrow> SharedBookState" where
  "insert_book st book =
     (let key = ob_exchange_id book @ '':'' @ ob_symbol book;
          m = hm_insert key book (books st);
          n = insert_count st;
          m = (if n > 0 \<and> n mod PRUNE_EVERY_N = 0
               then (case state_reference_now_ms m of
                       Some reference_ms \<Rightarrow> snd (prune_in_place m reference_ms DEFAULT_MAX_AGE_MS)
                     | None \<Rightarrow> m)
               else m)
      in \<lparr>books = m, insert_count = n + 1\<rparr>)"

definition prune :: "SharedBookState \<Rightarrow> int \<Rightarrow> nat option \<times> SharedBookState" where
  "prune st max_age_ms =
     (case state_reference_now_ms (books st) of
        None \<Rightarrow> (None, st)
      | Some reference_ms \<Rightarrow>
          (case prune_in_place (books st) reference_ms max_age_ms of
             (removed, m) \<Rightarrow> (Some removed, st\<lparr>books := m\<rparr>)))"

section \<open>Prices and quantities\<close>

definition pos_price :: "f64 \<Rightarrow> bool" where
  "pos_price p \<longleftrightarrow> is_finite p \<and> 0 < p"

lemma pos_price_Fin: "pos_price p \<longleftrightarrow> (\<exists>q. p = Fin q \<and> 0 < q)"
  by (cases p) (auto simp: pos_price_def zero_lt_iff)

interpretation price: ordered_key of_lt pos_price
  by unfold_locales (auto simp: pos_price_Fin of_lt_def less_f64_def)

lemma of_lt_pos: "pos_price a \<Longrightarrow> pos_price b \<Longrightarrow> of_lt a b \<longleftrightarrow> a < b"
  by (auto simp: pos_price_Fin of_lt_def)

definition side_ok :: "side \<Rightarrow> bool" where
  "side_ok side \<longleftrightarrow> bt_inv of_lt pos_price side \<and> (\<forall>e \<in> set side. pos_price (snd e))"

lemma side_ok_Nil [simp]: "side_ok []"
  by (simp add: side_ok_def)

lemma side_ok_insert: "side_ok side \<Longrightarrow> pos_price p \<Longrightarrow> pos_price q \<Longrightarrow> side_ok (bt_insert of_lt p q side)"
  by (auto simp: side_ok_def price.insert_inv dest: entries_insert)

lemma side_ok_remove: "side_ok side \<Longrightarrow> side_ok (bt_remove of_lt p side)"
  by (auto simp: side_ok_def price.remove_inv dest: entries_remove)

section \<open>The book as a map from price to quantity\<close>

text \<open>What a venue's update means on the abstract side of a book, independent of its layout.\<close>

definition set_level :: "(f64 \<rightharpoonup> f64) \<Rightarrow> f64 \<times> f64 \<Rightarrow> (f64 \<rightharpoonup> f64)" where
  "set_level m l = (if pos_price (fst l) \<and> pos_price (snd l) then m(fst l \<mapsto> snd l) else m)"

definition upd_level :: "(f64 \<rightharpoonup> f64) \<Rightarrow> f64 \<times> f64 \<Rightarrow> (f64 \<rightharpoonup> f64)" where
  "upd_level m l =
     (if pos_price (fst l) \<and> is_finite (snd l) \<and> 0 \<le> snd l
      then m(fst l := (if 0 < snd l then Some (snd l) else None)) else m)"

lemma snapshot_level_refines:
  assumes "side_ok side"
  shows "side_ok (snapshot_level side l) \<and> map_of (snapshot_level side l) = set_level (map_of side) l"
proof (cases "pos_price (fst l) \<and> pos_price (snd l)")
  case True
  then have "snapshot_level side l = bt_insert of_lt (fst l) (snd l) side"
    by (cases l) (simp add: snapshot_level_def pos_price_def)
  moreover have "bt_inv of_lt pos_price side" using assms by (simp add: side_ok_def)
  ultimately show ?thesis using True assms by (simp add: set_level_def side_ok_insert price.insert_map_of)
next
  case False
  then have "snapshot_level side l = side" by (auto simp: snapshot_level_def pos_price_def split: prod.splits)
  then show ?thesis using assms False by (auto simp: set_level_def)
qed

lemma delta_level_refines:
  assumes "side_ok side"
  shows "side_ok (delta_level side l) \<and> map_of (delta_level side l) = upd_level (map_of side) l"
proof -
  obtain p q where l: "l = (p, q)" by (cases l)
  have inv: "bt_inv of_lt pos_price side" using assms by (simp add: side_ok_def)
  show ?thesis
  proof (cases "pos_price p \<and> is_finite q \<and> 0 \<le> q")
    case False
    then have "delta_level side l = side"
      using l by (auto simp: delta_level_def pos_price_def f64_not_le fin_le_iff fin_lt_iff)
    then show ?thesis using assms False l by (auto simp: upd_level_def)
  next
    case True
    then have g: "is_finite p" "is_finite q" "\<not> p \<le> 0" "\<not> q < 0"
      by (auto simp: pos_price_def fin_le_iff fin_lt_iff)
    show ?thesis
    proof (cases "0 < q")
      case True
      then have "\<not> feq q 0" "pos_price q" using g by (auto simp: feq_def fin_le_iff fin_lt_iff pos_price_def)
      then show ?thesis
        using \<open>pos_price p \<and> _\<close> g l assms True inv
        by (simp add: delta_level_def upd_level_def side_ok_insert price.insert_map_of)
    next
      case False
      then have "feq q 0" using \<open>pos_price p \<and> _\<close> g by (simp add: feq_def fin_le_iff fin_lt_iff)
      then show ?thesis
        using \<open>pos_price p \<and> _\<close> g l assms False inv
        by (simp add: delta_level_def upd_level_def side_ok_remove price.remove_map_of)
    qed
  qed
qed

lemma foldl_refines:
  assumes "\<And>s l. side_ok s \<Longrightarrow> side_ok (f s l) \<and> map_of (f s l) = g (map_of s) l" "side_ok side"
  shows "side_ok (foldl f side ls) \<and> map_of (foldl f side ls) = foldl g (map_of side) ls"
  using assms(2) by (induction ls arbitrary: side) (use assms(1) in auto)

definition book_ok :: "LocalBook \<Rightarrow> bool" where
  "book_ok b \<longleftrightarrow> side_ok (lb_bids b) \<and> side_ok (lb_asks b)"

definition book_map_of :: "LocalBook \<Rightarrow> (f64 \<rightharpoonup> f64) \<times> (f64 \<rightharpoonup> f64)" where
  "book_map_of b = (map_of (lb_bids b), map_of (lb_asks b))"

text \<open>
  C18. The local book refines two maps from price to quantity. Every update the collectors apply
  keeps the book well formed (prices strictly ascending, all prices and quantities finite and
  positive), acts on the two maps as the update says, level by level in the venue's order,
  ignoring malformed levels and deleting on quantity zero; and the layout holds nothing but
  those maps: two well-formed books with the same maps have the same sides.
\<close>

theorem book_refines_maps:
  assumes "book_ok b"
  shows "book_ok (apply_snapshot b bids asks seq) \<and> book_ok (apply_deltas b bids asks seq) \<and> book_ok (clear b)
    \<and> book_map_of (apply_snapshot b bids asks seq) = (foldl set_level Map.empty bids, foldl set_level Map.empty asks)
    \<and> book_map_of (apply_deltas b bids asks seq)
        = (foldl upd_level (fst (book_map_of b)) bids, foldl upd_level (snd (book_map_of b)) asks)
    \<and> book_map_of (clear b) = (Map.empty, Map.empty)
    \<and> (\<forall>b'. book_ok b' \<longrightarrow> book_map_of b' = book_map_of b \<longrightarrow> lb_bids b' = lb_bids b \<and> lb_asks b' = lb_asks b)"
proof -
  note s = foldl_refines[of snapshot_level set_level, OF snapshot_level_refines side_ok_Nil]
  note d = foldl_refines[of delta_level upd_level, OF delta_level_refines]
  have "lb_bids b' = lb_bids b \<and> lb_asks b' = lb_asks b" if "book_ok b'" "book_map_of b' = book_map_of b" for b'
    using that assms by (auto simp: book_ok_def side_ok_def book_map_of_def intro: price.extensional)
  then show ?thesis
    using assms s d by (auto simp: book_ok_def book_map_of_def apply_snapshot_def apply_deltas_def clear_def
        Let_def split: option.splits)
qed

theorem book_refines_maps_witness:
  "book_ok (apply_deltas (LocalBook_new ''x'' ''KAS_USDT'') [(Fin 3, Fin 2), (Fin 3, 0), (NaN, Fin 1)] [(Fin 4, Fin 1)] None)"
  using book_refines_maps[of "LocalBook_new ''x'' ''KAS_USDT''"] by (simp add: book_ok_def LocalBook_new_def)

section \<open>What a collector emits\<close>

datatype book_event =
    Snapshot "(f64 \<times> f64) list" "(f64 \<times> f64) list" "u64 option"
  | Deltas "(f64 \<times> f64) list" "(f64 \<times> f64) list" "u64 option"
  | Cleared
  | Emitted int int "OrderBookData option"

inductive book_step :: "LocalBook \<Rightarrow> book_event \<Rightarrow> LocalBook \<Rightarrow> bool" where
  snapshot: "book_step b (Snapshot bids asks seq) (apply_snapshot b bids asks seq)"
| deltas: "book_step b (Deltas bids asks seq) (apply_deltas b bids asks seq)"
| clear: "book_step b Cleared (clear b)"
| emit: "to_orderbook_data b ts received = (d, b') \<Longrightarrow> book_step b (Emitted ts received d) b'"

inductive_cases book_stepE: "book_step b e b'"

lemma to_orderbook_data_book: "to_orderbook_data b ts r = (d, b') \<Longrightarrow> \<exists>t. b' = b\<lparr>lb_latency := t\<rparr>"
  by (auto simp: to_orderbook_data_def Let_def top_n_def split: prod.splits option.splits)

lemma ops_book_ok:
  assumes "book_ok b"
  shows "book_ok (apply_snapshot b bids asks seq)" "book_ok (apply_deltas b bids asks seq)" "book_ok (clear b)"
  using assms foldl_refines[of snapshot_level set_level, OF snapshot_level_refines side_ok_Nil]
    foldl_refines[of delta_level upd_level, OF delta_level_refines]
  by (auto simp: book_ok_def apply_snapshot_def apply_deltas_def clear_def Let_def split: option.splits)

lemma book_step_ok:
  assumes "book_ok b \<and> lb_exchange_id b = x \<and> lb_symbol b = s" "book_step b e b'"
  shows "book_ok b' \<and> lb_exchange_id b' = x \<and> lb_symbol b' = s"
  using assms(2)
proof (cases rule: book_step.cases)
  case (emit ts received d)
  from to_orderbook_data_book[OF emit(2)] show ?thesis using assms(1) by (auto simp: book_ok_def)
qed (use assms(1) ops_book_ok in \<open>auto simp: apply_snapshot_def apply_deltas_def clear_def Let_def split: option.splits\<close>)

interpretation local_book: state_machine book_step "\<lambda>b. book_ok b \<and> lb_exchange_id b = x \<and> lb_symbol b = s" for x s
  by unfold_locales (rule book_step_ok)

lemma i64_wrap_small: "\<bar>x\<bar> < 2 ^ 63 \<Longrightarrow> i64_wrap x = x"
  by (rule i64_wrap_id) (auto simp: is_i64_def)

lemma normalize_pos:
  assumes "normalize_timestamp_ms ts = Some t"
  shows "0 < t"
proof -
  have "0 < ts" using assms by (auto simp: normalize_timestamp_ms_def split: if_splits)
  moreover have "i64_wrap (ts * 1000) = ts * 1000" if "0 < ts" "ts < 1000000000000"
    using that by (intro i64_wrap_small) simp
  moreover have "0 < ts div 1000" if "ts > 1000000000000000" using that by (simp add: pos_imp_zdiv_pos_iff)
  ultimately show ?thesis using assms by (auto simp: normalize_timestamp_ms_def i64_div_pos split: if_splits)
qed

lemma side_levels:
  assumes "side_ok side"
  shows "sorted_wrt (\<lambda>a b. lvl_price a < lvl_price b) (price_levels (take n side))"
    and "sorted_wrt (\<lambda>a b. lvl_price b < lvl_price a) (price_levels (take n (rev side)))"
    and "\<forall>l \<in> set (price_levels (take n side)) \<union> set (price_levels (take n (rev side))). pos_price (lvl_price l) \<and> pos_price (lvl_quantity l)"
proof -
  have all: "pos_price (fst e) \<and> pos_price (snd e)" if "e \<in> set side" for e
    using assms that by (auto simp: side_ok_def bt_inv_def)
  have sw: "sorted_wrt (\<lambda>a b. fst a < fst b) side"
  proof (rule sorted_wrt_mono_rel[of side "\<lambda>a b. of_lt (fst a) (fst b)"])
    show "sorted_wrt (\<lambda>a b. of_lt (fst a) (fst b)) side" using assms by (simp add: side_ok_def bt_inv_def sorted_wrt_map)
  qed (use all of_lt_pos in blast)
  have "sorted_wrt (\<lambda>a b. fst a < fst b) (take n side)" using sw by (metis append_take_drop_id sorted_wrt_append)
  then show "sorted_wrt (\<lambda>a b. lvl_price a < lvl_price b) (price_levels (take n side))"
    by (simp add: price_levels_def sorted_wrt_map case_prod_unfold)
  have "sorted_wrt (\<lambda>a b. fst b < fst a) (rev side)" using sw by (simp add: sorted_wrt_rev)
  then have "sorted_wrt (\<lambda>a b. fst b < fst a) (take n (rev side))" by (metis append_take_drop_id sorted_wrt_append)
  then show "sorted_wrt (\<lambda>a b. lvl_price b < lvl_price a) (price_levels (take n (rev side)))"
    by (simp add: price_levels_def sorted_wrt_map case_prod_unfold)
  show "\<forall>l \<in> set (price_levels (take n side)) \<union> set (price_levels (take n (rev side))). pos_price (lvl_price l) \<and> pos_price (lvl_quantity l)"
    using all by (auto simp: price_levels_def dest!: in_set_takeD)
qed

text \<open>The well-formedness every reader of the shared table relies on.\<close>

definition emitted_ok :: "OrderBookData \<Rightarrow> bool" where
  "emitted_ok d \<longleftrightarrow> 0 < ob_exchange_timestamp d
     \<and> length (ob_bids d) \<le> 25 \<and> length (ob_asks d) \<le> 25
     \<and> sorted_wrt (\<lambda>a b. lvl_price b < lvl_price a) (ob_bids d)
     \<and> sorted_wrt (\<lambda>a b. lvl_price a < lvl_price b) (ob_asks d)
     \<and> (\<forall>l \<in> set (ob_bids d) \<union> set (ob_asks d). pos_price (lvl_price l) \<and> pos_price (lvl_quantity l))"

lemma to_orderbook_data_ok:
  assumes "to_orderbook_data b ts r = (Some d, b')" "book_ok b"
  shows "emitted_ok d \<and> ob_exchange_id d = lb_exchange_id b \<and> ob_symbol d = lb_symbol b"
proof -
  obtain norm latency t where p: "process (lb_latency b) ts r = (Some (norm, latency), t)"
    "d = \<lparr>ob_exchange_id = lb_exchange_id b, ob_symbol = lb_symbol b, ob_exchange_timestamp = norm, ob_latency = latency,
        ob_bids = price_levels (take TOP_N (rev (lb_bids b))), ob_asks = price_levels (take TOP_N (lb_asks b)), ob_node_id = None\<rparr>"
    using assms(1) by (auto simp: to_orderbook_data_def Let_def top_n_def split: prod.splits option.splits)
  have "0 < norm" using p(1) normalize_pos[of ts norm] by (auto simp: process_def split: option.splits prod.splits)
  then show ?thesis
    using assms(2) side_levels[of "lb_bids b" TOP_N] side_levels[of "lb_asks b" TOP_N] p(2)
    by (auto simp: emitted_ok_def book_ok_def price_levels_def TOP_N_def)
qed

text \<open>
  Whatever a venue sends, in any order of snapshots, deltas and resets, every message a
  collector emits has a positive exchange time stamp and at most 25 levels per side, bids
  strictly falling and asks strictly rising, every price and quantity finite and positive, and
  carries the collector's own venue and symbol.
\<close>

theorem emitted_books_well_formed:
  assumes "runs book_step (LocalBook_new x s) es b" "Emitted ts received (Some d) \<in> set es"
  shows "emitted_ok d \<and> ob_exchange_id d = x \<and> ob_symbol d = s"
proof -
  have "book_ok (LocalBook_new x s) \<and> lb_exchange_id (LocalBook_new x s) = x \<and> lb_symbol (LocalBook_new x s) = s"
    by (simp add: LocalBook_new_def book_ok_def)
  from local_book.inv_at_event[OF assms(1) this assms(2)] obtain b1 b2 where
    "book_ok b1" "lb_exchange_id b1 = x" "lb_symbol b1 = s" "book_step b1 (Emitted ts received (Some d)) b2" by blast
  then show ?thesis using to_orderbook_data_ok[of b1 ts received d b2] by (auto elim: book_stepE)
qed

theorem emitted_books_well_formed_witness:
  "emitted_ok \<lparr>ob_exchange_id = ''x'', ob_symbol = ''S'', ob_exchange_timestamp = 1700000000000, ob_latency = 0,
     ob_bids = [], ob_asks = [\<lparr>lvl_price = Fin 4, lvl_quantity = Fin 1\<rparr>], ob_node_id = None\<rparr>"
proof -
  let ?d = "\<lparr>ob_exchange_id = ''x'', ob_symbol = ''S'', ob_exchange_timestamp = 1700000000000, ob_latency = 0,
     ob_bids = [], ob_asks = [\<lparr>lvl_price = Fin 4, lvl_quantity = Fin 1\<rparr>], ob_node_id = None\<rparr>"
  let ?b = "apply_snapshot (LocalBook_new ''x'' ''S'') [(Fin 3, NaN)] [(Fin 4, Fin 1)] (Some 7)"
  obtain b' where e: "to_orderbook_data ?b 1700000000 1700000000050 = (Some ?d, b')"
    by (simp add: to_orderbook_data_def process_def normalize_timestamp_ms_def i64_wrap_def calculate_def
        LatencyTracker_new_def I64_MAX_def LocalBook_new_def apply_snapshot_def snapshot_level_def top_n_def
        price_levels_def TOP_N_def zero_lt_iff DEFAULT_RECALIBRATE_EVERY_def Let_def)
  have "runs book_step (LocalBook_new ''x'' ''S'') [Snapshot [(Fin 3, NaN)] [(Fin 4, Fin 1)] (Some 7),
      Emitted 1700000000 1700000000050 (Some ?d)] b'"
    by (rule runs_Cons, rule book_step.snapshot, rule runs_Cons, rule book_step.emit, rule e, rule runs_Nil)
  from emitted_books_well_formed[OF this] show ?thesis by simp
qed

text \<open>
  The host clock cannot reach a price. Two runs of the same emission at different local
  receive times emit the same message, time stamp included, except for the latency figure.
\<close>

theorem host_clock_only_in_latency:
  "map_option (\<lambda>d. d\<lparr>ob_latency := 0\<rparr>) (fst (to_orderbook_data b ts received))
   = map_option (\<lambda>d. d\<lparr>ob_latency := 0\<rparr>) (fst (to_orderbook_data b ts received'))"
  by (auto simp: to_orderbook_data_def process_def Let_def split: option.splits prod.splits)

section \<open>The table\<close>

interpretation int_sort: weak_order "(\<le>) :: int \<Rightarrow> int \<Rightarrow> bool" "\<lambda>_. True"
  by unfold_locales auto

text \<open>When most of the positive time stamps lie in a window, so does their median.\<close>

lemma median_ts_majority:
  assumes "length (filter (\<lambda>t. t > 0) ts) < 2 * length (filter (\<lambda>t. lo \<le> t \<and> t \<le> hi) (filter (\<lambda>t. t > 0) ts))"
  shows "\<exists>r. median_ts ts = Some r \<and> lo \<le> r \<and> r \<le> hi"
proof -
  let ?v = "filter (\<lambda>t. t > 0) ts"
  have ne: "?v \<noteq> []" using assms by (cases ?v) (simp_all del: filter_filter)
  have "lo \<le> sort_by (\<le>) ?v ! (length ?v div 2) \<and> sort_by (\<le>) ?v ! (length ?v div 2) \<le> hi"
    by (rule int_sort.majority_middle[OF _ _ _ assms]) auto
  then show ?thesis using ne by (simp add: median_ts_def Let_def)
qed

lemma median_ts_mem: "median_ts ts = Some r \<Longrightarrow> r \<in> set ts \<and> 0 < r"
proof -
  assume m: "median_ts ts = Some r"
  let ?v = "sort_by (\<le>) (filter (\<lambda>t. t > 0) ts)"
  have "r = ?v ! (length ?v div 2)" "?v \<noteq> []" using m by (auto simp: median_ts_def Let_def split: if_splits)
  then have "r \<in> set ?v" by (simp del: set_sort_by length_sort_by sort_by_eq_Nil)
  then show ?thesis by simp
qed

lemma median_ts_None: "median_ts ts = None \<longleftrightarrow> (\<forall>t \<in> set ts. t \<le> 0)"
  by (auto simp: median_ts_def Let_def filter_empty_conv not_less)

lemma map_of_hm_insert: "map_of (hm_insert k b m) = (map_of m)(k \<mapsto> b)"
  by (induction k b m rule: hm_insert.induct) (auto simp: fun_eq_iff)

lemma set_hm_insert: "e \<in> set (hm_insert k b m) \<Longrightarrow> e = (k, b) \<or> e \<in> set m"
  by (induction k b m rule: hm_insert.induct) (auto split: if_splits)

lemma hm_insert_not_Nil [simp]: "hm_insert k b m \<noteq> []"
  by (cases "(k, b, m)" rule: hm_insert.cases) auto

lemma keys_hm_insert: "fst ` set (hm_insert k b m) = insert k (fst ` set m)"
  by (induction k b m rule: hm_insert.induct) auto

lemma distinct_hm_insert: "distinct (map fst m) \<Longrightarrow> distinct (map fst (hm_insert k b m))"
  by (induction k b m rule: hm_insert.induct) (auto dest: set_hm_insert simp: image_iff)

definition near_ts :: "int \<Rightarrow> int \<Rightarrow> OrderBookData \<Rightarrow> bool" where
  "near_ts r age b \<longleftrightarrow> 0 < ob_exchange_timestamp b \<and> \<bar>r - ob_exchange_timestamp b\<bar> \<le> age"

lemma prune_in_place_filter:
  assumes "0 < r" "r < 2 ^ 63" "\<forall>e \<in> set m. ob_exchange_timestamp (snd e) < 2 ^ 63"
  shows "snd (prune_in_place m r age) = filter (near_ts r age \<circ> snd) m"
proof -
  have "i64_wrap \<bar>i64_wrap (r - t)\<bar> = \<bar>r - t\<bar>" if "0 < t" "t < 2 ^ 63" for t
    using that assms by (subst (2) i64_wrap_small, force) (rule i64_wrap_small, force)
  then show ?thesis
    using assms(3) by (auto simp: prune_in_place_def Let_def near_ts_def not_le intro!: filter_cong)
qed

text \<open>
  What the table guarantees its readers: keys are distinct, an entry's key names its venue and
  symbol, and time stamps are positive \<open>i64\<close> values.
\<close>

definition table_ok :: "book_map \<Rightarrow> bool" where
  "table_ok m \<longleftrightarrow> distinct (map fst m)
     \<and> (\<forall>(k, b) \<in> set m. k = ob_exchange_id b @ '':'' @ ob_symbol b \<and> emitted_ok b \<and> ob_exchange_timestamp b < 2 ^ 63)"

definition sweeps :: "SharedBookState \<Rightarrow> bool" where
  "sweeps st \<longleftrightarrow> insert_count st > 0 \<and> insert_count st mod PRUNE_EVERY_N = 0"

lemma table_ok_insert:
  assumes "table_ok m" "emitted_ok b" "ob_exchange_timestamp b < 2 ^ 63"
  shows "table_ok (hm_insert (ob_exchange_id b @ '':'' @ ob_symbol b) b m)"
  using assms by (auto simp: table_ok_def distinct_hm_insert dest!: set_hm_insert)

lemma table_ok_filter: "table_ok m \<Longrightarrow> table_ok (filter P m)"
  by (auto simp: table_ok_def distinct_map_filter)


definition demo_book :: "int \<Rightarrow> OrderBookData" where
  "demo_book ts = \<lparr>ob_exchange_id = ''x'', ob_symbol = ''S'', ob_exchange_timestamp = ts, ob_latency = 0,
     ob_bids = [], ob_asks = [\<lparr>lvl_price = Fin 4, lvl_quantity = Fin 1\<rparr>], ob_node_id = None\<rparr>"

definition demo_table :: SharedBookState where
  "demo_table = \<lparr>books = [(''x:S'', demo_book 5), (''x:T'', demo_book 7\<lparr>ob_symbol := ''T''\<rparr>)], insert_count = 1000\<rparr>"

lemma demo_book_ok: "0 < ts \<Longrightarrow> emitted_ok (demo_book ts)"
  by (simp add: demo_book_def emitted_ok_def zero_lt_iff pos_price_Fin)


end
