(* ===== verification/Cob.thy ===== *)
theory Cob
  imports Aggregator Books
begin

text \<open>
  \<open>src/cob.rs\<close>: the consolidated order book. Books of several venues are projected on a common
  price grid, crossing volume is cleared, and the mid price of what is left is the fair value.

  The two sides of the grid are ordered maps from \<open>i64\<close> keys to quantities. The clearing loop
  of the source has no bound and is a partial function: \<open>None\<close> means it does not return. The
  readers of the shared table take its entries in any order. Logging is left out.
\<close>

section \<open>Types\<close>

record Level =
  level_price :: f64
  level_quantity :: f64

record OrderBookSnapshot =
  snap_source :: string
  snap_base_asset :: string
  snap_bids :: "Level list"
  snap_asks :: "Level list"
  snap_tick_size :: f64
  snap_timestamp_ms :: int

record FairValue =
  fv_price :: f64
  fv_best_bid :: f64
  fv_best_ask :: f64
  fv_spread_bps :: f64
  fv_num_sources :: nat

section \<open>Tick sizes and the common grid\<close>

definition btc_venues :: "string list" where
  "btc_venues =
     [''binance'', ''bybit'', ''okx'', ''kucoin'', ''mexc'', ''kraken'', ''coinbase'', ''cryptocom'',
      ''htx'', ''gate'', ''gateio'', ''bingx'', ''bitmart'', ''whitebit'', ''poloniex'', ''ascendex'',
      ''xt'', ''phemex'', ''lbank'', ''weex'', ''orangex'', ''bitfinex'', ''biconomy'', ''coinstore'',
      ''coinw'', ''bitrue'']"

definition tick_size_for :: "string \<Rightarrow> string \<Rightarrow> f64" where
  "tick_size_for src base_asset =
     (if base_asset = ''BTC'' \<and> src \<in> set btc_venues then lit (1 / 100)
      else if base_asset = ''BTC'' \<and> src = ''bitget'' then lit (1 / 10)
      else if base_asset = ''ETH'' then lit (1 / 100)
      else if base_asset = ''KAS'' then lit (1 / 100000)
      else if base_asset = ''USDC'' then lit (1 / 10000)
      else if base_asset = ''TAO'' then
        (if src \<in> set [''binance'', ''gate'', ''gateio'', ''xt'', ''lbank'', ''whitebit'', ''coinw'']
         then lit (1 / 10) else lit (1 / 100))
      else if src \<in> set [''bybit'', ''okx'', ''bitget'', ''kucoin''] then lit (1 / 100000)
      else lit (1 / 1000000))"

function gcd_u64 :: "u64 \<Rightarrow> u64 \<Rightarrow> u64" where
  "gcd_u64 a b = (if b = 0 then a else gcd_u64 b (a mod b))"
  by auto
termination
proof (relation "measure (\<lambda>(a, b). unat b)")
  fix a b :: u64
  assume "b \<noteq> 0"
  then have "unat (a mod b) < unat b" by (simp add: unat_mod unat_gt_0)
  then show "((b, a mod b), (a, b)) \<in> measure (\<lambda>(a, b). unat b)" by simp
qed simp

declare gcd_u64.simps [simp del]

definition gcd_f64 :: "f64 \<Rightarrow> f64 \<Rightarrow> f64" where
  "gcd_f64 a b =
     (let scale = lit (10 ^ 10);
          ia = word_of_int (f64_to_int 0 (2 ^ 64 - 1) (fround (a * scale)));
          ib = word_of_int (f64_to_int 0 (2 ^ 64 - 1) (fround (b * scale)))
      in f64_of_int (uint (gcd_u64 ia ib)) / scale)"

definition grid_step :: "f64 \<Rightarrow> OrderBookSnapshot \<Rightarrow> f64" where
  "grid_step g book =
     (let tick = snap_tick_size book in
      if tick \<le> 0 then g else if feq g 0 then tick else gcd_f64 g tick)"

definition compute_common_grid :: "OrderBookSnapshot list \<Rightarrow> f64" where
  "compute_common_grid bks =
     (let g = foldl grid_step 0 bks in if g \<le> 0 then lit (1 / 10000) else g)"

section \<open>Consolidation\<close>

type_synonym grid_side = "(int \<times> f64) list"

definition grid_key :: "f64 \<Rightarrow> f64 \<Rightarrow> int" where
  "grid_key inv_grid p = f64_to_int (- (2 ^ 63)) (2 ^ 63 - 1) (fround (p * inv_grid))"

definition project :: "f64 \<Rightarrow> grid_side \<Rightarrow> Level \<Rightarrow> grid_side" where
  "project inv_grid side level =
     (if level_price level \<le> 0 \<or> level_quantity level \<le> 0 \<or> is_nan (level_price level) then side
      else let key = grid_key inv_grid (level_price level);
               held = (case bt_get (<) key side of None \<Rightarrow> 0 | Some v \<Rightarrow> v)
           in bt_insert (<) key (held + level_quantity level) side)"

partial_function (option) clear_loop :: "grid_side \<Rightarrow> grid_side \<Rightarrow> (grid_side \<times> grid_side) option" where
  "clear_loop global_bids global_asks =
     (case (bt_last global_bids, first global_asks) of
        (Some (kb, vb), Some (ka, va)) \<Rightarrow>
          if kb \<ge> ka then
            let v = fmin vb va;
                global_bids = (if \<bar>vb - v\<bar> < lit (1 / 10 ^ 15) then bt_remove (<) kb global_bids
                               else bt_insert (<) kb (vb - v) global_bids);
                global_asks = (if \<bar>va - v\<bar> < lit (1 / 10 ^ 15) then bt_remove (<) ka global_asks
                               else bt_insert (<) ka (va - v) global_asks)
            in clear_loop global_bids global_asks
          else Some (global_bids, global_asks)
      | _ \<Rightarrow> Some (global_bids, global_asks))"

definition fair_value :: "f64 \<Rightarrow> nat \<Rightarrow> grid_side \<Rightarrow> grid_side \<Rightarrow> FairValue option" where
  "fair_value grid n global_bids global_asks =
     (case bt_last global_bids of
        None \<Rightarrow> None
      | Some (best_bid_key, _) \<Rightarrow>
     (case first global_asks of
        None \<Rightarrow> None
      | Some (best_ask_key, _) \<Rightarrow>
          let bid = f64_of_int best_bid_key * grid;
              ask = f64_of_int best_ask_key * grid;
              mid = (bid + ask) / lit 2;
              spread_bps = (if mid > 0 then (ask - bid) / mid * lit 10000 else 0)
          in Some \<lparr>fv_price = mid, fv_best_bid = bid, fv_best_ask = ask, fv_spread_bps = spread_bps, fv_num_sources = n\<rparr>))"

definition global_sides :: "f64 \<Rightarrow> OrderBookSnapshot list \<Rightarrow> grid_side \<times> grid_side" where
  "global_sides inv_grid bks =
     (foldl (project inv_grid) [] (concat (map snap_bids bks)),
      foldl (project inv_grid) [] (concat (map snap_asks bks)))"

text \<open>The outer \<open>None\<close> means that the call does not return.\<close>

definition consolidated_order_book :: "OrderBookSnapshot list \<Rightarrow> FairValue option option" where
  "consolidated_order_book bks =
     (if bks = [] then Some None
      else
        let grid = compute_common_grid bks in
        if grid \<le> 0 then Some None
        else
          let inv_grid = 1 / grid; (global_bids, global_asks) = global_sides inv_grid bks in
          (case clear_loop global_bids global_asks of
             None \<Rightarrow> None
           | Some (global_bids, global_asks) \<Rightarrow> Some (fair_value grid (length bks) global_bids global_asks)))"

section \<open>The gate on mid prices\<close>

definition COB_MID_OUTLIER_SIGMA :: f64 where "COB_MID_OUTLIER_SIGMA = lit 3"

definition book_mid :: "OrderBookSnapshot \<Rightarrow> PricePoint option" where
  "book_mid b =
     (case (first (snap_bids b), first (snap_asks b)) of
        (Some bid, Some ask) \<Rightarrow>
          Some \<lparr>price = (level_price bid + level_price ask) / lit 2, volume = 0, source = snap_source b,
            server_time = word_of_int (max (i64_div (snap_timestamp_ms b) 1000) 0)\<rparr>
      | _ \<Rightarrow> None)"

definition gated_consolidated_order_book :: "OrderBookSnapshot list \<Rightarrow> nat \<Rightarrow> FairValue option run option" where
  "gated_consolidated_order_book bks min_srcs =
     (if length bks < min_srcs then Some (Done None)
      else
        let mids = filter_map book_mid bks; cleaned = sanitize mids in
        (case reject_outliers cleaned COB_MID_OUTLIER_SIGMA of
           Panic \<Rightarrow> Some Panic
         | Done cleaned \<Rightarrow>
             if length cleaned < min_srcs then Some (Done None)
             else
               let surviving = set (map source cleaned);
                   kept = filter (\<lambda>b. snap_source b \<in> surviving) bks
               in map_option Done (consolidated_order_book kept)))"

section \<open>Usable bks\<close>

definition MIN_BOOK_DEPTH :: nat where "MIN_BOOK_DEPTH = 3"
definition MAX_SPREAD_BPS_DEFAULT :: f64 where "MAX_SPREAD_BPS_DEFAULT = lit 500"

definition max_spread_bps_for :: "string \<Rightarrow> f64" where
  "max_spread_bps_for base =
     (if base = ''BTC'' \<or> base = ''ETH'' then lit 30
      else if base = ''USDC'' then lit 20
      else if base = ''KAS'' \<or> base = ''TAO'' then lit 100
      else MAX_SPREAD_BPS_DEFAULT)"

definition is_book_usable :: "OrderBookSnapshot \<Rightarrow> bool" where
  "is_book_usable book =
     (if length (snap_bids book) < MIN_BOOK_DEPTH \<or> length (snap_asks book) < MIN_BOOK_DEPTH then False
      else
        let bid = level_price (snap_bids book ! 0); ask = level_price (snap_asks book ! 0) in
        if \<not> (bid > 0 \<and> ask > 0) then False
        else if bid \<ge> ask then False
        else
          let mid = (bid + ask) / lit 2; spread_bps = (ask - bid) / mid * lit 10000 in
          \<not> spread_bps > max_spread_bps_for (snap_base_asset book))"

section \<open>Reading the shared table\<close>

definition MAX_BOOK_AGE_MS :: int where "MAX_BOOK_AGE_MS = 5000"

definition reference_now_ms :: "int list \<Rightarrow> int option" where
  "reference_now_ms timestamps = (if timestamps = [] then None else median_ts timestamps)"

definition fresh_book_age_ms :: "int \<Rightarrow> int \<Rightarrow> bool" where
  "fresh_book_age_ms reference_ms book_ts_ms =
     (let delta = i64_wrap (reference_ms - book_ts_ms) in i64_wrap \<bar>delta\<bar> \<le> MAX_BOOK_AGE_MS)"

definition is_candidate :: "string \<Rightarrow> OrderBookData \<Rightarrow> bool" where
  "is_candidate symbol_filter book \<longleftrightarrow>
     extract_base_asset (ob_symbol book) = symbol_filter \<and> ob_bids book \<noteq> [] \<and> ob_asks book \<noteq> []
     \<and> ob_exchange_timestamp book > 0"

definition to_levels :: "PriceLevel list \<Rightarrow> Level list" where
  "to_levels ls = map (\<lambda>l. \<lparr>level_price = lvl_price l, level_quantity = lvl_quantity l\<rparr>) ls"

definition to_snapshot :: "OrderBookData \<Rightarrow> OrderBookSnapshot" where
  "to_snapshot book =
     (let base = extract_base_asset (ob_symbol book) in
      \<lparr>snap_source = ob_exchange_id book, snap_base_asset = base, snap_bids = to_levels (ob_bids book),
       snap_asks = to_levels (ob_asks book), snap_tick_size = tick_size_for (ob_exchange_id book) base,
       snap_timestamp_ms = ob_exchange_timestamp book\<rparr>)"

fun str_le :: "string \<Rightarrow> string \<Rightarrow> bool" where
  "str_le [] ys = True"
| "str_le (x # xs) [] = False"
| "str_le (x # xs) (y # ys) = ((of_char x :: nat) < of_char y \<or> x = y \<and> str_le xs ys)"

definition read_books_filtered :: "string \<Rightarrow> book_map \<Rightarrow> OrderBookSnapshot list" where
  "read_books_filtered symbol_filter st =
     (let candidate_ts = map ob_exchange_timestamp (filter (is_candidate symbol_filter) (map snd st)) in
      case reference_now_ms candidate_ts of
        None \<Rightarrow> []
      | Some reference_ms \<Rightarrow>
          sort_by (\<lambda>a b. str_le (snap_source a) (snap_source b))
            (filter is_book_usable
              (map to_snapshot
                (filter (\<lambda>book. is_candidate symbol_filter book
                          \<and> fresh_book_age_ms reference_ms (ob_exchange_timestamp book)) (map snd st)))))"

definition asset_to_collector_symbol :: "AssetConfig \<Rightarrow> string" where
  "asset_to_collector_symbol asset =
     (if symbol asset = ''BTC/USD'' then ''BTC''
      else if symbol asset = ''ETH/USD'' then ''ETH''
      else if symbol asset = ''KAS/USD'' then ''KAS''
      else if symbol asset = ''USDC/USD'' then ''USDC''
      else if symbol asset = ''TAO/USD'' then ''TAO''
      else '''')"

definition is_cob_asset :: "AssetConfig \<Rightarrow> bool" where
  "is_cob_asset asset \<longleftrightarrow> asset_to_collector_symbol asset \<noteq> []"

definition read_books_from_state :: "AssetConfig \<Rightarrow> book_map \<Rightarrow> OrderBookSnapshot list" where
  "read_books_from_state asset st =
     (let symbol_filter = asset_to_collector_symbol asset in
      if symbol_filter = [] then [] else read_books_filtered symbol_filter st)"

section \<open>The peg probe\<close>

definition MAX_USDT_DEPEG_BPS :: f64 where "MAX_USDT_DEPEG_BPS = lit 50"

definition probe_usdc_mid :: "book_map \<Rightarrow> nat \<Rightarrow> f64 option option" where
  "probe_usdc_mid st min_srcs =
     (let bks = read_books_filtered ''USDC'' st in
      if length bks < min_srcs then Some None
      else map_option (map_option fv_price) (consolidated_order_book bks))"

definition usdt_peg_ok :: "book_map \<Rightarrow> nat \<Rightarrow> (f64, f64) res option option" where
  "usdt_peg_ok st min_srcs =
     map_option (map_option (\<lambda>mid.
       let drift_bps = \<bar>mid - 1\<bar> * lit 10000 in
       if drift_bps \<le> MAX_USDT_DEPEG_BPS then Inr mid else Inl mid)) (probe_usdc_mid st min_srcs)"

section \<open>Clearing\<close>

interpretation grid: ordered_key "(<) :: int \<Rightarrow> int \<Rightarrow> bool" "\<lambda>_. True"
  by unfold_locales auto

definition clear_eps :: f64 where "clear_eps = lit (1 / 10 ^ 15)"

lemma clear_eps_val: "is_finite clear_eps" "0 < fval clear_eps"
  by code_simp+

lemma fin_sub_self: "is_finite a \<Longrightarrow> \<bar>a - a\<bar> < clear_eps"
  using clear_eps_val by (simp add: fin_sub fin_lt_iff mkf_finite_iff mkf_fin)

lemma fin_sub_rest:
  assumes "f64_ok a" "is_finite a" "is_finite b" "0 < b" "b \<le> a"
  shows "is_finite (a - b)" "a - b \<le> a" "0 \<le> fval (a - b)"
proof -
  have v: "0 < fval b" "fval b \<le> fval a" using assms by (auto simp: fin_lt_iff fin_le_iff)
  have r: "rnd (fval a - fval b) \<le> fval a" "0 \<le> rnd (fval a - fval b)"
    using v f64_ok_fval[OF assms(1)] by (auto intro: rnd_le rnd_nonneg)
  then have "\<not> overflows (rnd (fval a - fval b))"
    using f64_ok_fval[OF assms(1)] v overflows_mono[of "rnd (fval a - fval b)" "fval a"] by force
  then show fin: "is_finite (a - b)" and "0 \<le> fval (a - b)"
    using assms r mkf_fin by (simp_all add: fin_sub mkf_finite_iff)
  then show "a - b \<le> a"
    using assms r mkf_fin \<open>\<not> overflows _\<close> by (simp add: fin_le_iff) (simp add: fin_sub)
qed

text \<open>The smaller of two crossing quantities is used up; what is left of the larger one is positive.\<close>

lemma rest_pos:
  assumes "f64_ok a" "0 < b" "b \<le> a" "is_finite b" "\<not> \<bar>a - b\<bar> < clear_eps" "f64_ok b"
  shows "0 < a - b \<and> a - b \<le> a \<and> f64_ok (a - b) \<and> (is_finite a \<longrightarrow> is_finite (a - b))"
proof (cases "is_finite a")
  case True
  note r = fin_sub_rest[OF assms(1) True assms(4,2,3)]
  then have "fval clear_eps \<le> fval (a - b)" using assms(5) clear_eps_val by (simp add: fin_lt_iff)
  then show ?thesis using r clear_eps_val assms by (simp add: zero_lt_iff)
next
  case False
  have "0 < a" using assms(2,3) by (rule f64_lt_le_trans)
  then have "a = PInf" using False by (simp add: zero_lt_iff)
  moreover have "PInf - b = PInf" using assms(4) by (cases b) (simp_all add: minus_f64_def plus_f64_def)
  ultimately show ?thesis by (simp add: zero_lt_iff less_eq_f64_def)
qed

lemma clear_step:
  assumes "f64_ok a" "f64_ok b" "0 < a" "0 < b" "is_finite a \<or> is_finite b"
  defines "v \<equiv> fmin a b"
  shows "\<bar>a - v\<bar> < clear_eps \<or> \<bar>b - v\<bar> < clear_eps"
    and "\<not> \<bar>a - v\<bar> < clear_eps \<Longrightarrow> 0 < a - v \<and> a - v \<le> a \<and> f64_ok (a - v) \<and> (is_finite a \<longrightarrow> is_finite (a - v))"
    and "\<not> \<bar>b - v\<bar> < clear_eps \<Longrightarrow> 0 < b - v \<and> b - v \<le> b \<and> f64_ok (b - v) \<and> (is_finite b \<longrightarrow> is_finite (b - v))"
proof -
  have n: "a \<noteq> NaN" "b \<noteq> NaN" using assms lt_not_nan by blast+
  consider "v = b" "b < a" "is_finite b" | "v = a" "a \<le> b" "is_finite a"
    using assms(3-5) n f64_not_lt[of b a] f64_le_cases[OF f64_lt_imp_le, of b a] f64_le_cases[of a b] f64_lt_imp_le[of 0]
    by (auto simp: v_def fmin_def)
  then have "(\<bar>a - v\<bar> < clear_eps \<or> \<bar>b - v\<bar> < clear_eps)
    \<and> (\<not> \<bar>a - v\<bar> < clear_eps \<longrightarrow> 0 < a - v \<and> a - v \<le> a \<and> f64_ok (a - v) \<and> (is_finite a \<longrightarrow> is_finite (a - v)))
    \<and> (\<not> \<bar>b - v\<bar> < clear_eps \<longrightarrow> 0 < b - v \<and> b - v \<le> b \<and> f64_ok (b - v) \<and> (is_finite b \<longrightarrow> is_finite (b - v)))"
    using fin_sub_self rest_pos assms(1-4) f64_lt_imp_le[of b a] by cases auto
  then show "\<bar>a - v\<bar> < clear_eps \<or> \<bar>b - v\<bar> < clear_eps"
    and "\<not> \<bar>a - v\<bar> < clear_eps \<Longrightarrow> 0 < a - v \<and> a - v \<le> a \<and> f64_ok (a - v) \<and> (is_finite a \<longrightarrow> is_finite (a - v))"
    and "\<not> \<bar>b - v\<bar> < clear_eps \<Longrightarrow> 0 < b - v \<and> b - v \<le> b \<and> f64_ok (b - v) \<and> (is_finite b \<longrightarrow> is_finite (b - v))"
    by blast+
qed

definition qty_ok :: "f64 \<Rightarrow> bool" where
  "qty_ok q \<longleftrightarrow> f64_ok q \<and> 0 < q"

definition grid_ok :: "grid_side \<Rightarrow> bool" where
  "grid_ok m \<longleftrightarrow> bt_inv (<) (\<lambda>_. True) m \<and> (\<forall>q \<in> snd ` set m. qty_ok q)"

definition all_finite :: "grid_side \<Rightarrow> bool" where
  "all_finite m \<longleftrightarrow> (\<forall>q \<in> snd ` set m. is_finite q)"

definition uncrossed :: "grid_side \<Rightarrow> grid_side \<Rightarrow> bool" where
  "uncrossed b a \<longleftrightarrow> (\<forall>kb \<in> fst ` set b. \<forall>ka \<in> fst ` set a. kb < ka)"

text \<open>\<open>shrinks P m m'\<close>: \<open>m'\<close> has no new levels and no larger ones, and levels at a key in \<open>P\<close> are unchanged.\<close>

definition shrinks :: "(int \<Rightarrow> bool) \<Rightarrow> grid_side \<Rightarrow> grid_side \<Rightarrow> bool" where
  "shrinks P m m' \<longleftrightarrow> (\<forall>k q'. map_of m' k = Some q' \<longrightarrow> (\<exists>q. map_of m k = Some q \<and> q' \<le> q))
     \<and> (\<forall>k. P k \<longrightarrow> map_of m' k = map_of m k)"

lemma shrinks_trans:
  "shrinks P m m' \<Longrightarrow> shrinks Q m' m'' \<Longrightarrow> (\<And>k. P k \<Longrightarrow> Q k) \<Longrightarrow> shrinks P m m''"
  unfolding shrinks_def by (metis f64_le_trans)

lemma shrinks_refl: "grid_ok m \<Longrightarrow> shrinks P m m"
  unfolding shrinks_def grid_ok_def qty_ok_def
  by (metis f64_le_refl lt_not_nan map_of_SomeD image_eqI snd_conv)

lemma shrinks_keys: "shrinks P m m' \<Longrightarrow> fst ` set m' \<subseteq> fst ` set m"
  unfolding shrinks_def dom_map_of_conv_image_fst[symmetric] dom_def by fast

lemma take_last:
  assumes "grid_ok (m @ [(k, q)])" "\<not> P k" "\<not> small \<Longrightarrow> qty_ok r \<and> r \<le> q"
  defines "m' \<equiv> if small then bt_remove (<) k (m @ [(k, q)]) else bt_insert (<) k r (m @ [(k, q)])"
  shows "grid_ok m' \<and> shrinks P (m @ [(k, q)]) m' \<and> length m' = (if small then length m else Suc (length m))
    \<and> (all_finite (m @ [(k, q)]) \<longrightarrow> (\<not> small \<longrightarrow> is_finite r) \<longrightarrow> all_finite m')"
proof -
  have i: "bt_inv (<) (\<lambda>_. True) (m @ [(k, q)])" using assms(1) by (simp add: grid_ok_def)
  have m': "m' = (if small then m else m @ [(k, r)])"
    unfolding m'_def using grid.insert_last[OF i] grid.remove_last[OF i] by simp
  have "map_of m' = (if small then (map_of (m @ [(k, q)]))(k := None) else (map_of (m @ [(k, q)]))(k \<mapsto> r))"
    unfolding m'_def using grid.insert_map_of[OF i] grid.remove_map_of[OF i] by simp
  moreover have "map_of (m @ [(k, q)]) k = Some q" using i by (intro map_of_is_SomeI grid.distinct_keys) auto
  ultimately have "shrinks P (m @ [(k, q)]) m'"
    using shrinks_refl[OF assms(1), of P] assms(2,3) unfolding shrinks_def by (auto split: if_splits)
  moreover have "grid_ok m'" using assms(1,3) unfolding m' by (auto simp: grid_ok_def bt_inv_append)
  ultimately show ?thesis unfolding m' by (auto simp: all_finite_def)
qed

lemma take_first:
  assumes "grid_ok ((k, q) # m)" "\<not> P k" "\<not> small \<Longrightarrow> qty_ok r \<and> r \<le> q"
  defines "m' \<equiv> if small then bt_remove (<) k ((k, q) # m) else bt_insert (<) k r ((k, q) # m)"
  shows "grid_ok m' \<and> shrinks P ((k, q) # m) m' \<and> length m' = (if small then length m else Suc (length m))
    \<and> (all_finite ((k, q) # m) \<longrightarrow> (\<not> small \<longrightarrow> is_finite r) \<longrightarrow> all_finite m')"
proof -
  have m': "m' = (if small then m else (k, r) # m)" unfolding m'_def by simp
  have "map_of m k = None" using assms(1) by (auto simp: grid_ok_def map_of_eq_None_iff)
  then have "shrinks P ((k, q) # m) m'"
    using shrinks_refl[OF assms(1), of P] assms(2,3) unfolding m' shrinks_def by (auto split: if_splits)
  moreover have "grid_ok m'" using assms(1,3) unfolding m' by (auto simp: grid_ok_def)
  ultimately show ?thesis unfolding m' by (auto simp: all_finite_def)
qed

lemma clear_loop_done:
  assumes "grid_ok b" "grid_ok a" "\<not> (\<exists>kb vb ka va. bt_last b = Some (kb, vb) \<and> first a = Some (ka, va) \<and> ka \<le> kb)"
  shows "clear_loop b a = Some (b, a) \<and> uncrossed b a"
proof (cases "b = [] \<or> a = []")
  case True
  then show ?thesis by (subst clear_loop.simps) (auto simp: uncrossed_def split: option.splits)
next
  case False
  then obtain kb vb ka va where l: "bt_last b = Some (kb, vb)" "first a = Some (ka, va)"
    by (cases a; cases "last b") (auto simp: bt_last_def)
  then have lt: "kb < ka" using assms(3) by force
  have "x \<le> kb" if "x \<in> fst ` set b" for x
    using grid.last_max[OF _ l(1) that] assms(1) by (force simp: grid_ok_def)
  moreover have "ka \<le> x" if "x \<in> fst ` set a" for x
    using grid.first_min[OF _ l(2) that] assms(2) by (force simp: grid_ok_def)
  ultimately have "uncrossed b a" using lt by (force simp: uncrossed_def)
  then show ?thesis using l lt by (subst clear_loop.simps) simp
qed

text \<open>One round of the loop: it calls itself on smaller sides that keep the invariant.\<close>

lemma clear_loop_round:
  assumes "grid_ok b" "grid_ok a" "all_finite b \<or> all_finite a"
    and l: "bt_last b = Some (kb, vb)" "first a = Some (ka, va)" "ka \<le> kb"
  shows "\<exists>b' a'. clear_loop b a = clear_loop b' a' \<and> grid_ok b' \<and> grid_ok a' \<and> (all_finite b' \<or> all_finite a')
    \<and> length b' + length a' < length b + length a \<and> shrinks (\<lambda>k. k \<noteq> kb) b b' \<and> shrinks (\<lambda>k. k \<noteq> ka) a a'"
proof -
  obtain bs where b: "b = bs @ [(kb, vb)]"
    using l(1) by (cases b rule: rev_cases) auto
  obtain as where a: "a = (ka, va) # as" using l(2) by (cases a) auto
  let ?v = "fmin vb va"
  let ?sb = "\<bar>vb - ?v\<bar> < clear_eps" and ?sa = "\<bar>va - ?v\<bar> < clear_eps"
  let ?b = "if ?sb then bt_remove (<) kb b else bt_insert (<) kb (vb - ?v) b"
  let ?a = "if ?sa then bt_remove (<) ka a else bt_insert (<) ka (va - ?v) a"
  have q: "f64_ok vb" "f64_ok va" "0 < vb" "0 < va" "is_finite vb \<or> is_finite va"
    using assms(1-3) a b by (auto simp: grid_ok_def qty_ok_def all_finite_def)
  note s = clear_step[OF q]
  have tb: "grid_ok ?b \<and> shrinks (\<lambda>k. k \<noteq> kb) b ?b \<and> length ?b = (if ?sb then length bs else Suc (length bs))
      \<and> (all_finite b \<longrightarrow> (\<not> ?sb \<longrightarrow> is_finite (vb - ?v)) \<longrightarrow> all_finite ?b)"
    unfolding b by (rule take_last) (use assms(1) b s(2) in \<open>auto simp: qty_ok_def\<close>)
  have ta: "grid_ok ?a \<and> shrinks (\<lambda>k. k \<noteq> ka) a ?a \<and> length ?a = (if ?sa then length as else Suc (length as))
      \<and> (all_finite a \<longrightarrow> (\<not> ?sa \<longrightarrow> is_finite (va - ?v)) \<longrightarrow> all_finite ?a)"
    unfolding a by (rule take_first) (use assms(2) a s(3) in \<open>auto simp: qty_ok_def\<close>)
  have "all_finite b \<Longrightarrow> is_finite vb" "all_finite a \<Longrightarrow> is_finite va" using a b by (auto simp: all_finite_def)
  then have "all_finite ?b \<or> all_finite ?a" using assms(3) s(2,3) ta tb by blast
  moreover have "clear_loop b a = clear_loop ?b ?a"
    using l by (subst clear_loop.simps) (simp add: Let_def clear_eps_def)
  moreover have "length ?b + length ?a < length b + length a"
    using s(1) ta tb by (simp only: a b) auto
  ultimately show ?thesis using ta tb by blast
qed

lemma clear_loop_total:
  "grid_ok b \<Longrightarrow> grid_ok a \<Longrightarrow> all_finite b \<or> all_finite a \<Longrightarrow>
   \<exists>b' a'. clear_loop b a = Some (b', a') \<and> grid_ok b' \<and> grid_ok a' \<and> uncrossed b' a'
     \<and> shrinks (\<lambda>k. \<forall>ka \<in> fst ` set a. k < ka) b b' \<and> shrinks (\<lambda>k. \<forall>kb \<in> fst ` set b. kb < k) a a'"
proof (induction "length b + length a" arbitrary: b a rule: less_induct)
  case less
  show ?case
  proof (cases "\<exists>kb vb ka va. bt_last b = Some (kb, vb) \<and> first a = Some (ka, va) \<and> ka \<le> kb")
    case False
    then show ?thesis using clear_loop_done[OF less.prems(1,2)] less.prems shrinks_refl by blast
  next
    case True
    then obtain kb vb ka va where l: "bt_last b = Some (kb, vb)" "first a = Some (ka, va)" "ka \<le> kb" by blast
    from clear_loop_round[OF less.prems l] obtain b1 a1 where
      r: "clear_loop b a = clear_loop b1 a1" "grid_ok b1" "grid_ok a1" "all_finite b1 \<or> all_finite a1"
        "length b1 + length a1 < length b + length a" and
      s: "shrinks (\<lambda>k. k \<noteq> kb) b b1" "shrinks (\<lambda>k. k \<noteq> ka) a a1" by blast
    from less.hyps[OF r(5) r(2-4)] obtain b' a' where
      f: "clear_loop b1 a1 = Some (b', a')" "grid_ok b'" "grid_ok a'" "uncrossed b' a'" and
      t: "shrinks (\<lambda>k. \<forall>ka \<in> fst ` set a1. k < ka) b1 b'" "shrinks (\<lambda>k. \<forall>kb \<in> fst ` set b1. kb < k) a1 a'" by blast
    have m: "kb \<in> fst ` set b" using l(1) by (cases b rule: rev_cases) force+
    have m': "ka \<in> fst ` set a" using l(2) by (cases a) force+
    have "shrinks (\<lambda>k. \<forall>ka \<in> fst ` set a. k < ka) b b1" "shrinks (\<lambda>k. \<forall>kb \<in> fst ` set b. kb < k) a a1"
      using s m m' l(3) unfolding shrinks_def by (metis leD)+
    note one = this
    have "shrinks (\<lambda>k. \<forall>ka \<in> fst ` set a. k < ka) b b'"
      by (rule shrinks_trans[OF one(1) t(1)]) (use shrinks_keys[OF s(2)] in blast)
    moreover have "shrinks (\<lambda>k. \<forall>kb \<in> fst ` set b. kb < k) a a'"
      by (rule shrinks_trans[OF one(2) t(2)]) (use shrinks_keys[OF s(1)] in blast)
    ultimately show ?thesis using r(1) f by auto
  qed
qed

lemma clear_loop_keys:
  assumes "grid_ok b" "grid_ok a" "all_finite b \<or> all_finite a"
  shows "\<exists>b' a'. clear_loop b a = Some (b', a') \<and> uncrossed b' a' \<and> fst ` set b' \<subseteq> fst ` set b \<and> fst ` set a' \<subseteq> fst ` set a"
  using clear_loop_total[OF assms] by (elim exE conjE) (intro exI conjI, assumption+, (rule shrinks_keys, assumption)+)

section \<open>Projection\<close>

lemma qty_add:
  assumes "a = 0 \<or> qty_ok a" "qty_ok q"
  shows "qty_ok (a + q)"
proof (cases "is_finite a \<and> is_finite q")
  case True
  then have v: "0 \<le> fval a" "0 < fval q" using assms by (auto simp: qty_ok_def fin_lt_iff)
  have "fval q \<le> rnd (fval a + fval q)"
    using v f64_ok_fval[of q] assms(2) by (intro le_rnd) (auto simp: qty_ok_def)
  then have "0 < mkf s (fval a + fval q)" for s
    using v by (cases "overflows (rnd (fval a + fval q))") (auto simp: zero_lt_iff mkf_inf mkf_finite_iff mkf_fin)
  then show ?thesis using True by (simp add: qty_ok_def fin_add)
next
  case False
  have "a = PInf \<or> is_finite a" "q = PInf \<or> is_finite q" using assms by (auto simp: qty_ok_def zero_lt_iff)
  then have "a + q = PInf" using False by (cases a; cases q) (simp_all add: plus_f64_def)
  then show ?thesis by (simp add: qty_ok_def zero_lt_iff)
qed

lemma project_ok:
  assumes "grid_ok m" "f64_ok (level_quantity l)" "level_quantity l \<noteq> NaN"
  shows "grid_ok (project inv_grid m l)"
proof (cases "level_price l \<le> 0 \<or> level_quantity l \<le> 0 \<or> is_nan (level_price l)")
  case False
  let ?k = "grid_key inv_grid (level_price l)"
  let ?h = "case bt_get (<) ?k m of None \<Rightarrow> 0 | Some v \<Rightarrow> v"
  have i: "bt_inv (<) (\<lambda>_. True) m" using assms(1) by (simp add: grid_ok_def)
  have "qty_ok (level_quantity l)" using False assms(2,3) by (auto simp: qty_ok_def f64_not_le)
  moreover have "?h = 0 \<or> qty_ok ?h"
    using assms(1) grid.get_map_of[OF i, of ?k]
    by (auto simp: grid_ok_def split: option.splits dest!: map_of_SomeD)
  ultimately have q: "qty_ok (?h + level_quantity l)" by (rule qty_add[rotated])
  have "qty_ok (snd e)" if "e \<in> set (bt_insert (<) ?k (?h + level_quantity l) m)" for e
    using entries_insert[OF that] q assms(1) by (auto simp: grid_ok_def)
  then show ?thesis using False grid.insert_inv[OF i] by (simp add: project_def grid_ok_def Let_def)
qed (use assms in \<open>simp add: project_def\<close>)

text \<open>Sums of quantities up to \<open>2^70\<close> stay finite for as many levels as a run can hold.\<close>

definition grid_bound :: "nat \<Rightarrow> grid_side \<Rightarrow> bool" where
  "grid_bound n m \<longleftrightarrow> grid_ok m \<and> (\<forall>q \<in> snd ` set m. is_finite q \<and> fval q \<le> of_nat n * 2 ^ 70)"

lemma rep_levels: "n \<le> 2 ^ 53 \<Longrightarrow> rep (of_nat n * 2 ^ 70)"
  unfolding rep_def by (rule exI[of _ "int n"], rule exI[of _ 70]) simp

lemma add_bound:
  assumes "is_finite a" "is_finite q" "0 \<le> fval a" "fval a \<le> of_nat n * 2 ^ 70" "0 \<le> fval q" "fval q \<le> 2 ^ 70" "n < 2 ^ 53"
  shows "is_finite (a + q) \<and> fval (a + q) \<le> of_nat (Suc n) * 2 ^ 70"
proof -
  have le: "fval a + fval q \<le> of_nat (Suc n) * 2 ^ 70" using assms(4,6) by (simp add: distrib_right)
  have "(of_nat (Suc n) :: rat) \<le> of_nat (2 ^ 53)" using assms(7) of_nat_mono by (metis Suc_leI)
  then have "of_nat (Suc n) * 2 ^ 70 \<le> (2 ^ 123 :: rat)" by simp
  then have "\<bar>fval a + fval q\<bar> \<le> 2 ^ 123" using le assms(3,5) by linarith
  note s = mkf_small[OF this]
  have "rnd (fval a + fval q) \<le> of_nat (Suc n) * 2 ^ 70" by (rule rnd_le[OF rep_levels le]) (use assms(7) in simp)
  then show ?thesis using s by (simp only: fin_add[OF assms(1,2)])
qed

lemma project_bound:
  assumes "grid_bound n m" "n < 2 ^ 53" "f64_ok (level_quantity l)" "is_finite (level_quantity l)" "fval (level_quantity l) \<le> 2 ^ 70"
  shows "grid_bound (Suc n) (project inv_grid m l)"
proof -
  let ?k = "grid_key inv_grid (level_price l)"
  let ?h = "case bt_get (<) ?k m of None \<Rightarrow> 0 | Some v \<Rightarrow> v"
  have ok: "grid_ok (project inv_grid m l)"
    using assms is_finite_not_nan by (intro project_ok) (auto simp: grid_bound_def)
  have i: "bt_inv (<) (\<lambda>_. True) m" using assms(1) by (simp add: grid_bound_def grid_ok_def)
  have h: "is_finite ?h \<and> 0 \<le> fval ?h \<and> fval ?h \<le> of_nat n * 2 ^ 70"
    using assms(1) grid.get_map_of[OF i, of ?k]
    by (force simp: grid_bound_def grid_ok_def qty_ok_def fin_lt_iff split: option.splits dest!: map_of_SomeD)
  have old: "fval q \<le> of_nat (Suc n) * 2 ^ 70" if "fval q \<le> of_nat n * 2 ^ 70" for q using that by (simp add: distrib_right)
  have "is_finite (snd e) \<and> fval (snd e) \<le> of_nat (Suc n) * 2 ^ 70" if "e \<in> set (project inv_grid m l)" for e
  proof (cases "level_price l \<le> 0 \<or> level_quantity l \<le> 0 \<or> is_nan (level_price l)")
    case True
    then show ?thesis using that assms(1) old by (auto simp: project_def grid_bound_def)
  next
    case False
    then have "0 \<le> fval (level_quantity l)" using assms(4) by (auto simp: fin_le_iff)
    then have "is_finite (?h + level_quantity l) \<and> fval (?h + level_quantity l) \<le> of_nat (Suc n) * 2 ^ 70"
      using h assms by (intro add_bound) simp_all
    moreover have "snd e = ?h + level_quantity l \<or> e \<in> set m"
      using that False by (intro entries_insert[of e "(<)" ?k]) (simp add: project_def Let_def)
    ultimately show ?thesis using assms(1) old by (auto simp: grid_bound_def)
  qed
  then show ?thesis using ok by (auto simp: grid_bound_def)
qed

lemma foldl_project_ok:
  "grid_ok m \<Longrightarrow> \<forall>l \<in> set ls. f64_ok (level_quantity l) \<and> level_quantity l \<noteq> NaN \<Longrightarrow> grid_ok (foldl (project inv_grid) m ls)"
  by (induction ls arbitrary: m) (simp_all add: project_ok)

definition level_bounded :: "Level \<Rightarrow> bool" where
  "level_bounded l \<longleftrightarrow> f64_ok (level_quantity l) \<and> is_finite (level_quantity l) \<and> fval (level_quantity l) \<le> 2 ^ 70"

lemma foldl_project_bound:
  "grid_bound n m \<Longrightarrow> \<forall>l \<in> set ls. level_bounded l \<Longrightarrow> n + length ls \<le> 2 ^ 53 \<Longrightarrow>
   grid_bound (n + length ls) (foldl (project inv_grid) m ls)"
proof (induction ls arbitrary: n m)
  case (Cons l ls)
  have "grid_bound (Suc n) (project inv_grid m l)"
    using Cons.prems by (intro project_bound) (auto simp: level_bounded_def)
  then show ?case using Cons.IH[of "Suc n" "project inv_grid m l"] Cons.prems by simp
qed simp

lemma grid_bound_all_finite: "grid_bound n m \<Longrightarrow> all_finite m"
  by (simp add: grid_bound_def all_finite_def)

lemma grid_Nil [simp]: "grid_ok []" "grid_bound 0 []"
  by (simp_all add: grid_ok_def grid_bound_def)

section \<open>The fair value\<close>

lemma f64_of_int_i64:
  assumes "\<bar>n\<bar> \<le> 2 ^ 63"
  shows "is_finite (f64_of_int n)" "\<bar>fval (f64_of_int n)\<bar> \<le> 2 ^ 63" "fval (f64_of_int n) = rnd (of_int n)"
proof -
  have "\<bar>of_int n\<bar> \<le> (2 ^ 63 :: rat)" using assms of_int_le_iff[of "\<bar>n\<bar>" "2 ^ 63", where 'a = rat] by simp
  note mkf_small[OF this]
  then show "is_finite (f64_of_int n)" "\<bar>fval (f64_of_int n)\<bar> \<le> 2 ^ 63" "fval (f64_of_int n) = rnd (of_int n)"
    by (simp_all add: f64_of_int_def)
qed

lemma grid_key_range: "\<bar>grid_key g p\<bar> \<le> 2 ^ 63"
  unfolding grid_key_def by (cases "fround (p * g)") auto

lemma grid_key_image: "k \<in> grid_key g ` A \<Longrightarrow> \<bar>k\<bar> \<le> 2 ^ 63"
  by (elim imageE) (simp only: grid_key_range)

lemma scaled_key:
  assumes "\<bar>n\<bar> \<le> 2 ^ 63" "is_finite g" "\<bar>fval g\<bar> \<le> 2 ^ 60"
  shows "is_finite (f64_of_int n * g)" "\<bar>fval (f64_of_int n * g)\<bar> \<le> 2 ^ 123"
    "fval (f64_of_int n * g) = rnd (rnd (of_int n) * fval g)"
proof -
  note k = f64_of_int_i64[OF assms(1)]
  have "\<bar>fval (f64_of_int n) * fval g\<bar> \<le> 2 ^ 63 * 2 ^ 60"
    unfolding abs_mult by (rule mult_mono) (use k assms in auto)
  then have "\<bar>fval (f64_of_int n) * fval g\<bar> \<le> 2 ^ 123" by simp
  note mkf_small[OF this]
  then show "is_finite (f64_of_int n * g)" "\<bar>fval (f64_of_int n * g)\<bar> \<le> 2 ^ 123"
    "fval (f64_of_int n * g) = rnd (rnd (of_int n) * fval g)"
    using k assms(2) by (simp_all add: fin_mul)
qed

lemma scaled_key_mono:
  assumes "kb \<le> ka" "\<bar>kb\<bar> \<le> 2 ^ 63" "\<bar>ka\<bar> \<le> 2 ^ 63" "is_finite g" "0 < fval g" "fval g \<le> 2 ^ 60"
  shows "f64_of_int kb * g \<le> f64_of_int ka * g"
proof -
  have "rnd (of_int kb) * fval g \<le> rnd (of_int ka) * fval g"
    using assms by (intro mult_right_mono rnd_mono) auto
  then show ?thesis
    using scaled_key[of kb g] scaled_key[of ka g] assms by (simp add: fin_le_iff rnd_mono)
qed

lemma project_keys: "fst ` set (project g m l) \<subseteq> insert (grid_key g (level_price l)) (fst ` set m)"
  by (auto simp: project_def Let_def dest!: imageI[of _ _ fst, THEN keys_insert])

lemma foldl_project_keys: "fst ` set (foldl (project g) m ls) \<subseteq> fst ` set m \<union> grid_key g ` level_price ` set ls"
proof (induction ls arbitrary: m)
  case (Cons l ls)
  then show ?case using Cons.IH[of "project g m l"] project_keys[of g m l] by simp blast
qed simp

definition tick_ok :: "f64 \<Rightarrow> bool" where
  "tick_ok g \<longleftrightarrow> is_finite g \<and> fval g \<le> 2 ^ 60"

lemma grid_scale: "is_finite (lit (10 ^ 10))" "fval (lit (10 ^ 10)) = 10 ^ 10" "is_finite (lit (1 / 10000))"
  "0 < fval (lit (1 / 10000))" "fval (lit (1 / 10000)) \<le> 1"
  by code_simp+

lemma gcd_f64_tick: "tick_ok (gcd_f64 a b) \<and> 0 \<le> fval (gcd_f64 a b)"
proof -
  obtain n where g: "gcd_f64 a b = f64_of_int n / lit (10 ^ 10)" and n: "0 \<le> n" "n < 2 ^ 64"
  proof -
    define w where "w = gcd_u64 (word_of_int (f64_to_int 0 (2 ^ 64 - 1) (fround (a * lit (10 ^ 10)))))
      (word_of_int (f64_to_int 0 (2 ^ 64 - 1) (fround (b * lit (10 ^ 10)))))"
    have "gcd_f64 a b = f64_of_int (uint w) / lit (10 ^ 10)" by (simp only: gcd_f64_def w_def Let_def)
    then show thesis using that[of "uint w"] uint_bounded[of w] by simp
  qed
  have w: "\<bar>of_int n\<bar> \<le> (2 ^ 64 :: rat)"
    using n of_int_le_iff[of n "2 ^ 64", where 'a = rat] by simp
  note k = mkf_small[OF w]
  have r: "0 \<le> rnd (of_int n)" by (rule rnd_nonneg) (use n in simp)
  have u: "rnd (of_int n) \<le> 2 ^ 64" by (rule rnd_le[OF rep_pow2]) (use w in simp)
  have "\<bar>rnd (of_int n) / 10 ^ 10\<bar> \<le> 2 ^ 60" using r u by simp
  note q = mkf_small[OF this]
  have "0 \<le> rnd (rnd (of_int n) / 10 ^ 10)" using r by (intro rnd_nonneg) simp
  then show ?thesis
    using k q grid_scale(1,2) unfolding g tick_ok_def by (simp add: fin_div f64_of_int_def)
qed

lemma common_grid_tick:
  assumes "\<forall>b \<in> set bks. tick_ok (snap_tick_size b)"
  shows "tick_ok (compute_common_grid bks) \<and> 0 < fval (compute_common_grid bks)"
proof -
  have "tick_ok g \<and> 0 \<le> fval g \<Longrightarrow> tick_ok (foldl grid_step g bks) \<and> 0 \<le> fval (foldl grid_step g bks)" for g
    using assms
  proof (induction bks arbitrary: g)
    case (Cons b bks)
    have "tick_ok (grid_step g b) \<and> 0 \<le> fval (grid_step g b)"
      using Cons.prems gcd_f64_tick by (auto simp: grid_step_def Let_def tick_ok_def fin_le_iff)
    then show ?case using Cons by simp
  qed simp
  from this[of 0] have "tick_ok (foldl grid_step 0 bks)" by (simp add: tick_ok_def)
  then show ?thesis using grid_scale by (auto simp: compute_common_grid_def Let_def tick_ok_def fin_le_iff)
qed

lemma fair_value_between:
  assumes "uncrossed b a" "\<forall>k \<in> fst ` set b \<union> fst ` set a. \<bar>k\<bar> \<le> 2 ^ 63" "tick_ok g" "0 < fval g"
    and fv: "fair_value g n b a = Some fv"
  shows "fv_best_bid fv \<le> fv_price fv \<and> fv_price fv \<le> fv_best_ask fv \<and> is_finite (fv_price fv) \<and> fv_num_sources fv = n
    \<and> (\<exists>k \<in> fst ` set b. fv_best_bid fv = f64_of_int k * g) \<and> (\<exists>k \<in> fst ` set a. fv_best_ask fv = f64_of_int k * g)"
proof -
  obtain kb vb ka va where l: "bt_last b = Some (kb, vb)" "first a = Some (ka, va)"
    using fv by (auto simp: fair_value_def split: option.splits prod.splits)
  have kb: "kb \<in> fst ` set b" using l(1) by (cases b rule: rev_cases) force+
  have ka: "ka \<in> fst ` set a" using l(2) by (cases a) force+
  have r: "kb < ka" "\<bar>kb\<bar> \<le> 2 ^ 63" "\<bar>ka\<bar> \<le> 2 ^ 63" using assms(1,2) kb ka by (auto simp: uncrossed_def)
  have g: "is_finite g" "\<bar>fval g\<bar> \<le> 2 ^ 60" using assms(3,4) by (auto simp: tick_ok_def)
  note b = scaled_key[OF r(2) g] and a = scaled_key[OF r(3) g]
  have "\<bar>fval (f64_of_int kb * g) + fval (f64_of_int ka * g)\<bar> \<le> 2 ^ 124" using b(2) a(2) by simp
  note s = mkf_small(1)[OF this]
  have "f64_of_int kb * g \<le> f64_of_int ka * g"
    using r g assms(4) by (intro scaled_key_mono) auto
  with b(1) a(1) s have "f64_of_int kb * g \<le> (f64_of_int kb * g + f64_of_int ka * g) / lit 2
    \<and> (f64_of_int kb * g + f64_of_int ka * g) / lit 2 \<le> f64_of_int ka * g \<and> is_finite ((f64_of_int kb * g + f64_of_int ka * g) / lit 2)"
    by (intro f64_midpoint) (simp_all add: fin_mul fin_add f64_of_int_def)
  moreover have "fv_best_bid fv = f64_of_int kb * g" "fv_best_ask fv = f64_of_int ka * g" "fv_num_sources fv = n"
    "fv_price fv = (f64_of_int kb * g + f64_of_int ka * g) / lit 2"
    using fv l by (auto simp: fair_value_def Let_def)
  ultimately show ?thesis using kb ka by auto
qed

section \<open>Properties of the consolidation\<close>

lemma gcd_u64_uint: "uint (gcd_u64 a b) = gcd (uint a) (uint b)"
proof (induction a b rule: gcd_u64.induct)
  case (1 a b)
  have "b \<noteq> 0 \<Longrightarrow> gcd (uint a) (uint b) = gcd (uint b) (uint (a mod b))"
    by (simp add: uint_mod gcd.commute gcd_red_int[of "uint a" "uint b"])
  then show ?case using 1 by (subst gcd_u64.simps) simp
qed

definition gcd_grid :: "f64 \<Rightarrow> f64 \<Rightarrow> f64" where
  "gcd_grid a b = f64_of_int (gcd (f64_to_int 0 (2 ^ 64 - 1) (fround (a * lit (10 ^ 10))))
     (f64_to_int 0 (2 ^ 64 - 1) (fround (b * lit (10 ^ 10))))) / lit (10 ^ 10)"

lemma f64_to_int_range: "lo \<le> 0 \<Longrightarrow> 0 \<le> hi \<Longrightarrow> lo \<le> f64_to_int lo hi x \<and> f64_to_int lo hi x \<le> hi"
  by (cases x) auto

lemma gcd_f64_grid: "gcd_f64 a b = gcd_grid a b"
proof -
  have "uint (word_of_int (f64_to_int 0 (2 ^ 64 - 1) x) :: u64) = f64_to_int 0 (2 ^ 64 - 1) x" for x
    using f64_to_int_range[of 0 "2 ^ 64 - 1" x] by (simp add: uint_word_of_int take_bit_int_eq_self)
  then show ?thesis by (simp only: gcd_f64_def gcd_grid_def Let_def gcd_u64_uint)
qed

definition ticks :: "f64 list" where
  "ticks = [lit (1 / 10), lit (1 / 100), lit (1 / 10000), lit (1 / 100000), lit (1 / 1000000)]"

definition unit_tick :: "nat \<Rightarrow> f64" where
  "unit_tick k = f64_of_int (10 ^ k) / lit (10 ^ 10)"

definition tick_units :: "f64 \<Rightarrow> int" where
  "tick_units t = f64_to_int 0 (2 ^ 64 - 1) (fround (t * lit (10 ^ 10)))"

lemma unit_ticks: "ticks = map unit_tick [9, 8, 6, 5, 4]"
  by code_simp

lemma tick_units_unit: "list_all (\<lambda>k. tick_units (unit_tick k) = 10 ^ k) [9, 8, 6, 5, 4]"
  by code_simp

lemma gcd_pow10: "gcd (10 ^ i) (10 ^ j) = (10 ^ min i j :: int)"
  by (simp add: gcd_proj1_iff gcd_proj2_iff le_imp_power_dvd min_def)

lemma unit_tick_mono: "i \<le> j \<Longrightarrow> j \<le> 9 \<Longrightarrow> unit_tick i \<le> unit_tick j"
proof -
  assume ij: "i \<le> j" "j \<le> 9"
  have le: "(10::int) ^ i \<le> 10 ^ j" "(10::int) ^ j \<le> 10 ^ 9" using ij power_increasing[of j 9 "10::int"] by (auto intro: power_increasing)
  have fin: "\<bar>10 ^ i\<bar> \<le> (2 ^ 63 :: int)" "\<bar>10 ^ j\<bar> \<le> (2 ^ 63 :: int)"
    using order_trans[OF le] le(2) by simp_all
  have "rnd (of_int (10 ^ i)) \<le> rnd (of_int (10 ^ j))" using le by (intro rnd_mono) (metis of_int_le_iff)
  then show ?thesis
    unfolding unit_tick_def using f64_of_int_i64[OF fin(1)] f64_of_int_i64[OF fin(2)] grid_scale(1,2)
    by (simp add: fin_div mkf_mono divide_right_mono)
qed

lemma gcd_ticks:
  assumes "a \<in> set ticks" "b \<in> set ticks"
  shows "gcd_f64 a b \<in> {a, b}" "gcd_f64 a b \<le> a" "gcd_f64 a b \<le> b"
proof -
  obtain i j where u: "a = unit_tick i" "i \<in> set [9, 8, 6, 5, 4]" "b = unit_tick j" "j \<in> set [9, 8, 6, 5, 4]"
    using assms unfolding unit_ticks by auto
  have t: "tick_units a = 10 ^ i" "tick_units b = 10 ^ j"
    using tick_units_unit u unfolding list_all_iff by blast+
  have g: "gcd_f64 a b = unit_tick (min i j)"
    unfolding gcd_f64_grid gcd_grid_def tick_units_def[symmetric] t gcd_pow10 unit_tick_def ..
  show "gcd_f64 a b \<in> {a, b}" unfolding g by (simp add: min_def u(1,3))
  have "i \<le> 9" "j \<le> 9" using u(2,4) by auto
  then show "gcd_f64 a b \<le> a" "gcd_f64 a b \<le> b" unfolding g by (auto intro!: unit_tick_mono simp: u(1,3))
qed

lemma ticks_ok: "list_all (\<lambda>a. f64_ok a \<and> is_finite a \<and> 0 < fval a \<and> fval a \<le> 1) ticks"
  by code_simp

lemma tick_size_for_ticks: "tick_size_for src base \<in> set ticks"
  by (simp add: tick_size_for_def ticks_def)

text \<open>
  The common grid of any non-empty set of snapshots the reader builds is the finest tick
  among them, bit for bit: the scaled integer gcd introduces no rounding for the ticks of the
  table.
\<close>

theorem common_grid_is_finest_tick:
  assumes "bks \<noteq> []" "set bks \<subseteq> range to_snapshot"
  shows "(\<exists>b \<in> set bks. compute_common_grid bks = snap_tick_size b)
    \<and> (\<forall>b \<in> set bks. compute_common_grid bks \<le> snap_tick_size b)"
proof -
  have t: "snap_tick_size b \<in> set ticks" if "b \<in> set bks" for b
    using that assms(2) tick_size_for_ticks by (auto simp: to_snapshot_def Let_def)
  have pos: "is_finite g \<and> 0 < fval g" if "g \<in> set ticks" for g using ticks_ok that by (auto simp: list_all_iff)
  have step: "foldl grid_step g cs \<in> insert g (snap_tick_size ` set cs) \<and> foldl grid_step g cs \<le> g
      \<and> (\<forall>b \<in> set cs. foldl grid_step g cs \<le> snap_tick_size b)"
    if "g \<in> set ticks" "set cs \<subseteq> set bks" for g cs
    using that
  proof (induction cs arbitrary: g)
    case Nil
    then show ?case using pos is_finite_not_nan f64_le_refl by auto
  next
    case (Cons c cs)
    have c: "snap_tick_size c \<in> set ticks" using Cons.prems t by auto
    have g: "grid_step g c = gcd_f64 g (snap_tick_size c)"
      using pos[OF c] pos[OF Cons.prems(1)] by (simp add: grid_step_def Let_def fin_le_iff feq_def)
    note gt = gcd_ticks[OF Cons.prems(1) c, folded g]
    then have "grid_step g c \<in> set ticks" using c Cons.prems(1) by auto
    then have ih: "foldl grid_step (grid_step g c) cs \<in> insert (grid_step g c) (snap_tick_size ` set cs)"
      "foldl grid_step (grid_step g c) cs \<le> grid_step g c"
      "\<forall>b \<in> set cs. foldl grid_step (grid_step g c) cs \<le> snap_tick_size b"
      using Cons.IH Cons.prems(2) by simp_all
    show ?case
      using ih(1,3) gt(1) f64_le_trans[OF ih(2) gt(2)] f64_le_trans[OF ih(2) gt(3)] by auto
  qed
  obtain c cs where bks: "bks = c # cs" using assms(1) by (cases bks) auto
  have c: "snap_tick_size c \<in> set ticks" using t bks by simp
  have "grid_step 0 c = snap_tick_size c"
    using pos[OF c] by (simp add: grid_step_def fin_le_iff feq_def)
  then have f: "foldl grid_step 0 bks = foldl grid_step (snap_tick_size c) cs" by (simp add: bks)
  have "set cs \<subseteq> set bks" using bks by auto
  note s = step[OF c this]
  have "foldl grid_step 0 bks \<in> set ticks" using s t f bks by auto
  from pos[OF this] have "compute_common_grid bks = foldl grid_step (snap_tick_size c) cs"
    using f by (simp add: compute_common_grid_def Let_def fin_le_iff)
  then show ?thesis using s bks by auto
qed

definition venue_book :: "string \<Rightarrow> rat \<Rightarrow> OrderBookData" where
  "venue_book x p = \<lparr>ob_exchange_id = x, ob_symbol = ''TAOUSDT'', ob_exchange_timestamp = 1700000000000, ob_latency = 0,
     ob_bids = map (\<lambda>k. \<lparr>lvl_price = Fin (p - of_nat k / 8), lvl_quantity = Fin 2\<rparr>) [1, 2, 3],
     ob_asks = map (\<lambda>k. \<lparr>lvl_price = Fin (p + of_nat k / 8), lvl_quantity = Fin 1\<rparr>) [1, 2, 3], ob_node_id = None\<rparr>"

theorem common_grid_is_finest_tick_witness:
  "compute_common_grid (map to_snapshot [venue_book ''binance'' 200, venue_book ''kucoin'' 201]) \<le> lit (1 / 100)"
proof -
  have "snap_tick_size (to_snapshot (venue_book ''kucoin'' 201)) = lit (1 / 100)"
    by (simp add: to_snapshot_def venue_book_def extract_base_asset_def cut_at_def strip_quote_def strip_suffix_def
        to_upper_def tick_size_for_def Let_def)
  then show ?thesis
    using common_grid_is_finest_tick[of "map to_snapshot [venue_book ''binance'' 200, venue_book ''kucoin'' 201]"] by simp
qed



definition all_bids :: "OrderBookSnapshot list \<Rightarrow> Level list" where
  "all_bids bks = concat (map snap_bids bks)"

definition all_asks :: "OrderBookSnapshot list \<Rightarrow> Level list" where
  "all_asks bks = concat (map snap_asks bks)"

definition on_grid :: "f64 \<Rightarrow> f64 \<Rightarrow> f64" where
  "on_grid g p = f64_of_int (grid_key (1 / g) p) * g"

definition book_bounded :: "OrderBookSnapshot \<Rightarrow> bool" where
  "book_bounded b \<longleftrightarrow> tick_ok (snap_tick_size b) \<and> (\<forall>l \<in> set (snap_bids b @ snap_asks b). level_bounded l)"

lemma consolidated_total:
  assumes "\<forall>b \<in> set bks. book_bounded b" "length (all_bids bks) \<le> 2 ^ 53" "length (all_asks bks) \<le> 2 ^ 53"
  shows "\<exists>r. consolidated_order_book bks = Some r \<and> (\<forall>fv. r = Some fv \<longrightarrow>
    fv_best_bid fv \<le> fv_price fv \<and> fv_price fv \<le> fv_best_ask fv \<and> is_finite (fv_price fv) \<and> fv_num_sources fv = length bks
    \<and> fv_best_bid fv \<in> on_grid (compute_common_grid bks) ` level_price ` set (all_bids bks)
    \<and> fv_best_ask fv \<in> on_grid (compute_common_grid bks) ` level_price ` set (all_asks bks))"
proof (cases "bks = []")
  case False
  let ?g = "compute_common_grid bks"
  have g: "tick_ok ?g" "0 < fval ?g" using common_grid_tick[of bks] assms(1) by (auto simp: book_bounded_def)
  let ?b = "foldl (project (1 / ?g)) [] (all_bids bks)" and ?a = "foldl (project (1 / ?g)) [] (all_asks bks)"
  have lb: "\<forall>l \<in> set (all_bids bks). level_bounded l" "\<forall>l \<in> set (all_asks bks). level_bounded l"
    using assms(1) by (auto simp: book_bounded_def all_bids_def all_asks_def)
  have "grid_bound (length (all_bids bks)) ?b" "grid_bound (length (all_asks bks)) ?a"
    using foldl_project_bound[of 0 "[]" "all_bids bks" "1 / ?g"] foldl_project_bound[of 0 "[]" "all_asks bks" "1 / ?g"] assms(2,3) lb
    by simp_all
  then have ok: "grid_ok ?b" "grid_ok ?a" "all_finite ?b \<or> all_finite ?a"
    using grid_bound_all_finite by (auto simp: grid_bound_def)
  have kb: "fst ` set ?b \<subseteq> grid_key (1 / ?g) ` level_price ` set (all_bids bks)"
    and ka: "fst ` set ?a \<subseteq> grid_key (1 / ?g) ` level_price ` set (all_asks bks)"
    using foldl_project_keys[of "1 / ?g" "[]"] by (simp_all del: foldl_Cons)
  from clear_loop_keys[OF ok] obtain b a where
    c: "clear_loop ?b ?a = Some (b, a)" "uncrossed b a" and s: "fst ` set b \<subseteq> fst ` set ?b" "fst ` set a \<subseteq> fst ` set ?a"
    by (elim exE conjE)
  have keys: "fst ` set b \<subseteq> grid_key (1 / ?g) ` level_price ` set (all_bids bks)"
    "fst ` set a \<subseteq> grid_key (1 / ?g) ` level_price ` set (all_asks bks)"
    by (rule subset_trans[OF s(1) kb], rule subset_trans[OF s(2) ka])
  then have range: "\<forall>k \<in> fst ` set b \<union> fst ` set a. \<bar>k\<bar> \<le> 2 ^ 63" using grid_key_image by (meson UnE subsetD)
  have pos: "\<not> ?g \<le> 0" using g by (simp add: tick_ok_def fin_le_iff)
  have gs: "global_sides (1 / ?g) bks = (?b, ?a)" by (simp only: global_sides_def all_bids_def all_asks_def)
  have "consolidated_order_book bks = Some (fair_value ?g (length bks) b a)"
    unfolding consolidated_order_book_def Let_def gs prod.case c(1) option.case using False pos by (simp only: if_False)
  moreover have "fv_best_bid fv \<le> fv_price fv \<and> fv_price fv \<le> fv_best_ask fv \<and> is_finite (fv_price fv) \<and> fv_num_sources fv = length bks
    \<and> fv_best_bid fv \<in> on_grid ?g ` level_price ` set (all_bids bks)
    \<and> fv_best_ask fv \<in> on_grid ?g ` level_price ` set (all_asks bks)"
    if "fair_value ?g (length bks) b a = Some fv" for fv
  proof -
    note fb = fair_value_between[OF c(2) range g that]
    have "fv_best_bid fv \<in> on_grid ?g ` level_price ` set (all_bids bks)" using fb keys(1) unfolding on_grid_def by auto
    moreover have "fv_best_ask fv \<in> on_grid ?g ` level_price ` set (all_asks bks)" using fb keys(2) unfolding on_grid_def by auto
    ultimately show ?thesis using fb by simp
  qed
  ultimately show ?thesis by blast
qed (simp add: consolidated_order_book_def)

text \<open>
  C17. Consolidation returns. When the venues' ticks and quantities are of any plausible size
  (up to \<open>2^60\<close> and \<open>2^70\<close>), the call ends, and a fair value it gives is a finite number between the
  best bid and the best ask that clearing leaves, each of which is the grid image of a bid,
  respectively an ask, of one of the books.
\<close>

theorem consolidated_order_book_returns:
  assumes "\<forall>b \<in> set bks. book_bounded b" "length (all_bids bks) \<le> 2 ^ 53" "length (all_asks bks) \<le> 2 ^ 53"
  shows "\<exists>r. consolidated_order_book bks = Some r \<and> (\<forall>fv. r = Some fv \<longrightarrow>
    fv_best_bid fv \<le> fv_price fv \<and> fv_price fv \<le> fv_best_ask fv \<and> is_finite (fv_price fv) \<and> fv_num_sources fv = length bks
    \<and> fv_best_bid fv \<in> on_grid (compute_common_grid bks) ` level_price ` set (all_bids bks)
    \<and> fv_best_ask fv \<in> on_grid (compute_common_grid bks) ` level_price ` set (all_asks bks))"
  by (rule consolidated_total[OF assms])

lemma ticks_tick_ok: "g \<in> set ticks \<Longrightarrow> tick_ok g"
  using ticks_ok unfolding list_all_iff tick_ok_def by force

lemma venue_book_bounded: "book_bounded (to_snapshot (venue_book x p))"
proof -
  have "f64_ok (Fin 1)" "f64_ok (Fin 2)" by code_simp+
  then show ?thesis
    using ticks_tick_ok[OF tick_size_for_ticks]
    by (auto simp: book_bounded_def to_snapshot_def to_levels_def venue_book_def level_bounded_def Let_def)
qed

theorem consolidated_order_book_returns_witness:
  "\<exists>r. consolidated_order_book (map to_snapshot [venue_book ''binance'' 200, venue_book ''kucoin'' 201]) = Some r"
proof -
  let ?bks = "map to_snapshot [venue_book ''binance'' 200, venue_book ''kucoin'' 201]"
  have "length (all_bids ?bks) = 6" "length (all_asks ?bks) = 6"
    by (simp_all add: all_bids_def all_asks_def to_snapshot_def to_levels_def venue_book_def Let_def)
  moreover have "\<forall>b \<in> set ?bks. book_bounded b" using venue_book_bounded by simp
  ultimately show ?thesis using consolidated_order_book_returns[of ?bks] by (simp only:) auto
qed

section \<open>Properties of the readers\<close>

lemma str_le_total: "str_le xs ys \<or> str_le ys xs"
  by (induction xs ys rule: str_le.induct) auto

lemma str_le_trans: "str_le xs ys \<Longrightarrow> str_le ys zs \<Longrightarrow> str_le xs zs"
proof (induction xs ys arbitrary: zs rule: str_le.induct)
  case (3 x xs y ys)
  then show ?case by (cases zs) auto
qed (auto elim: str_le.elims)

interpretation by_source: weak_order "\<lambda>a b. str_le (snap_source a) (snap_source b)" "\<lambda>_. True"
  using str_le_total str_le_trans by unfold_locales blast+

definition candidate_times :: "string \<Rightarrow> book_map \<Rightarrow> int list" where
  "candidate_times base st = map ob_exchange_timestamp (filter (is_candidate base) (map snd st))"

lemma fresh_window:
  assumes "0 < r" "r < 2 ^ 63" "0 < t" "t < 2 ^ 63"
  shows "fresh_book_age_ms r t \<longleftrightarrow> \<bar>r - t\<bar> \<le> 5000"
proof -
  have "i64_wrap (r - t) = r - t" "i64_wrap \<bar>r - t\<bar> = \<bar>r - t\<bar>" using assms by (auto intro!: i64_wrap_small)
  then show ?thesis by (simp add: fresh_book_age_ms_def MAX_BOOK_AGE_MS_def Let_def)
qed

lemma read_books_set:
  assumes "\<forall>e \<in> set st. ob_exchange_timestamp (snd e) < 2 ^ 63" "median_ts (candidate_times base st) = Some r"
  shows "set (read_books_filtered base st)
    = {to_snapshot b |b. b \<in> snd ` set st \<and> is_candidate base b \<and> \<bar>r - ob_exchange_timestamp b\<bar> \<le> 5000 \<and> is_book_usable (to_snapshot b)}"
proof -
  note r = median_ts_mem[OF assms(2)]
  then have "0 < r" "r < 2 ^ 63" using assms(1) by (auto simp: candidate_times_def)
  then have "fresh_book_age_ms r (ob_exchange_timestamp b) \<longleftrightarrow> \<bar>r - ob_exchange_timestamp b\<bar> \<le> 5000"
    if "b \<in> snd ` set st" "is_candidate base b" for b
    using that assms(1) by (intro fresh_window) (auto simp: is_candidate_def)
  moreover have "reference_now_ms (candidate_times base st) = Some r"
    using assms(2) r by (auto simp: reference_now_ms_def)
  ultimately show ?thesis
    unfolding read_books_filtered_def Let_def candidate_times_def[symmetric] by auto
qed

text \<open>
  C29. A majority of venues decides what is fresh. When most of the candidate books of a base asset
  carry time stamps in a window of at most 5 s, the reader returns every usable one of them, and
  nothing dated more than 5 s outside the window, future-dated books included. What it returns is usable,
  of the asset asked for, and in the order of the venues' names.
\<close>

theorem read_books_majority:
  assumes "\<forall>e \<in> set st. ob_exchange_timestamp (snd e) < 2 ^ 63" "hi - lo \<le> 5000"
    "length (candidate_times base st) < 2 * length (filter (\<lambda>t. lo \<le> t \<and> t \<le> hi) (candidate_times base st))"
  shows "(\<forall>b \<in> snd ` set st. is_candidate base b \<longrightarrow> lo \<le> ob_exchange_timestamp b \<longrightarrow> ob_exchange_timestamp b \<le> hi \<longrightarrow>
      is_book_usable (to_snapshot b) \<longrightarrow> to_snapshot b \<in> set (read_books_filtered base st))
    \<and> (\<forall>s \<in> set (read_books_filtered base st). lo - 5000 \<le> snap_timestamp_ms s \<and> snap_timestamp_ms s \<le> hi + 5000
        \<and> is_book_usable s \<and> snap_base_asset s = base)
    \<and> sorted_wrt (\<lambda>a b. str_le (snap_source a) (snap_source b)) (read_books_filtered base st)"
proof -
  have pos: "filter (\<lambda>t. t > 0) (candidate_times base st) = candidate_times base st"
    by (auto simp: candidate_times_def is_candidate_def filter_id_conv)
  obtain r where r: "median_ts (candidate_times base st) = Some r" "lo \<le> r" "r \<le> hi"
    using median_ts_majority[of "candidate_times base st" lo hi] assms(3) unfolding pos by blast
  note s = read_books_set[OF assms(1) r(1)]
  have "sorted_wrt (\<lambda>a b. str_le (snap_source a) (snap_source b)) (read_books_filtered base st)"
    unfolding read_books_filtered_def Let_def by (auto split: option.split intro: by_source.sorted_sort_by)
  moreover have "lo - 5000 \<le> snap_timestamp_ms s \<and> snap_timestamp_ms s \<le> hi + 5000 \<and> is_book_usable s \<and> snap_base_asset s = base"
    if "s \<in> set (read_books_filtered base st)" for s
    using that r(2,3) unfolding s by (auto simp: to_snapshot_def is_candidate_def Let_def)
  moreover have "to_snapshot b \<in> set (read_books_filtered base st)"
    if "b \<in> snd ` set st" "is_candidate base b" "lo \<le> ob_exchange_timestamp b" "ob_exchange_timestamp b \<le> hi" "is_book_usable (to_snapshot b)" for b
    using that r(2,3) assms(2) unfolding s by auto
  ultimately show ?thesis by blast
qed

lemma venue_book_usable: "is_book_usable (to_snapshot (venue_book ''a'' 200))"
  by code_simp

lemma venue_book_candidate: "is_candidate ''TAO'' (venue_book x p\<lparr>ob_exchange_timestamp := t\<rparr>) \<longleftrightarrow> 0 < t"
  by (simp add: is_candidate_def venue_book_def extract_base_asset_def cut_at_def strip_quote_def strip_suffix_def to_upper_def Let_def)

theorem read_books_majority_witness:
  "to_snapshot (venue_book ''a'' 200) \<in> set (read_books_filtered ''TAO''
     [(''a:TAOUSDT'', venue_book ''a'' 200), (''b:TAOUSDT'', venue_book ''b'' 201),
      (''c:TAOUSDT'', venue_book ''c'' 200\<lparr>ob_exchange_timestamp := 2000000000000\<rparr>)])"
proof -
  let ?st = "[(''a:TAOUSDT'', venue_book ''a'' 200), (''b:TAOUSDT'', venue_book ''b'' 201),
      (''c:TAOUSDT'', venue_book ''c'' 200\<lparr>ob_exchange_timestamp := 2000000000000\<rparr>)]"
  have t: "ob_exchange_timestamp (venue_book x p) = 1700000000000" for x p by (simp add: venue_book_def)
  have c: "is_candidate ''TAO'' (venue_book x p)" for x p
    using venue_book_candidate[where x = x and p = p and t = 1700000000000] by (simp add: venue_book_def)
  have "candidate_times ''TAO'' ?st = [1700000000000, 1700000000000, 2000000000000]"
    by (simp add: candidate_times_def venue_book_candidate c t)
  then show ?thesis
    using read_books_majority[of ?st 1700000000000 1700000000000 "''TAO''"] venue_book_usable c t by simp
qed

section \<open>The gate\<close>

lemma reject_outliers_bounds:
  assumes "list_all (\<lambda>p. in_range (price p)) ps"
  shows "\<exists>P. reject_outliers ps COB_MID_OUTLIER_SIGMA = Done (filter P ps) \<and> length ps \<le> 2 * length (filter P ps)"
proof (cases "length ps < 3")
  case True
  then have "reject_outliers ps COB_MID_OUTLIER_SIGMA = Done (filter (\<lambda>_. True) ps)"
    by (simp add: reject_outliers_def reject_outliers_with_cap_def)
  then show ?thesis by (intro exI[of _ "\<lambda>_. True"]) simp
next
  case False
  then obtain median mad where r: "rejection_by ps median mad" using rejection_by_exists[of ps] assms by force
  let ?t = "outlier_threshold (lit 3) median mad 0"
  let ?P = "\<lambda>p. is_finite ?t \<longrightarrow> \<bar>price p - median\<bar> \<le> ?t"
  have "reject_outliers ps COB_MID_OUTLIER_SIGMA = Done (filter ?P ps)"
    using r unfolding rejection_by_def by (simp add: reject_outliers_def COB_MID_OUTLIER_SIGMA_def)
  moreover have "length (filter (\<lambda>p. \<bar>price p - median\<bar> \<le> mad) ps) \<le> length (filter ?P ps)"
    using mad_gate[of mad median] r f64_le_trans by (intro length_filter_mono) (auto simp: rejection_by_def)
  moreover have "length ps \<le> 2 * length (filter (\<lambda>p. \<bar>price p - median\<bar> \<le> mad) ps)"
    using r by (simp add: rejection_by_def)
  ultimately show ?thesis by (intro exI[of _ ?P]) linarith
qed

definition sane_mid :: "OrderBookSnapshot \<Rightarrow> bool" where
  "sane_mid b \<longleftrightarrow> (\<exists>p. book_mid b = Some p \<and> sane_sample p \<and> in_range (price p))"

lemma book_mid_source: "book_mid b = Some p \<Longrightarrow> source p = snap_source b \<and> volume p = 0"
  by (auto simp: book_mid_def split: option.splits)

lemma sanitize_mids:
  assumes "\<forall>b \<in> set bks. sane_mid b"
  shows "sanitize (filter_map book_mid bks) = map (the \<circ> book_mid) bks"
  using assms
proof (induction bks)
  case (Cons b bks)
  obtain p where p: "book_mid b = Some p" "sane_sample p" using Cons.prems by (auto simp: sane_mid_def)
  then have "fix_volume p = p" using book_mid_source[OF p(1)] by (simp add: fix_volume_def)
  then show ?case using Cons p by (simp add: sanitize_def)
qed (simp add: sanitize_def)

text \<open>
  The mid-price gate cannot be starved by a minority. For books of distinct venues whose mid prices
  are sane, and twice the required quorum of them, the gate keeps at least half of the books, so it never loses its
  quorum, and the outcome is that of consolidating just those books, which returns.
\<close>

theorem gate_keeps_quorum:
  assumes "distinct (map snap_source bks)" "\<forall>b \<in> set bks. sane_mid b \<and> book_bounded b" "2 * min_srcs \<le> length bks"
    "length (all_bids bks) \<le> 2 ^ 53" "length (all_asks bks) \<le> 2 ^ 53"
  shows "\<exists>P r. gated_consolidated_order_book bks min_srcs = Some (Done r) \<and> consolidated_order_book (filter P bks) = Some r
    \<and> length bks \<le> 2 * length (filter P bks) \<and> min_srcs \<le> length (filter P bks)"
proof -
  let ?mid = "the \<circ> book_mid"
  have src: "source (?mid b) = snap_source b" "in_range (price (?mid b))" if "b \<in> set bks" for b
    using that assms(2) book_mid_source by (force simp: sane_mid_def)+
  obtain P where P: "reject_outliers (map ?mid bks) COB_MID_OUTLIER_SIGMA = Done (filter P (map ?mid bks))"
    "length (map ?mid bks) \<le> 2 * length (filter P (map ?mid bks))"
    using reject_outliers_bounds[of "map ?mid bks"] src(2) by (auto simp: list_all_iff)
  let ?Q = "P \<circ> ?mid"
  have len: "length bks \<le> 2 * length (filter ?Q bks)" using P(2) by (simp add: filter_map)
  then have q: "min_srcs \<le> length (filter ?Q bks)" "\<not> length bks < min_srcs" using assms(3) by linarith+
  have "snap_source b \<in> source ` ?mid ` set (filter ?Q bks) \<longleftrightarrow> ?Q b" if "b \<in> set bks" for b
    using that src(1) assms(1) by (auto simp: distinct_map inj_on_def image_iff)
  then have kept: "filter (\<lambda>b. snap_source b \<in> set (map source (filter P (map ?mid bks)))) bks = filter ?Q bks"
    by (intro filter_cong) (auto simp: filter_map)
  have gated: "gated_consolidated_order_book bks min_srcs = map_option Done (consolidated_order_book (filter ?Q bks))"
    unfolding gated_consolidated_order_book_def Let_def kept[symmetric]
    using q P(1) assms(2) by (simp add: sanitize_mids filter_map)
  have "length (all_bids (filter ?Q bks)) \<le> length (all_bids bks)" "length (all_asks (filter ?Q bks)) \<le> length (all_asks bks)"
    unfolding all_bids_def all_asks_def by (induction bks) auto
  then obtain r where "consolidated_order_book (filter ?Q bks) = Some r"
    using consolidated_total[of "filter ?Q bks"] assms(2,4,5) by (auto simp del: length_greater_0_conv)
  then show ?thesis using gated len q(1) by (intro exI[of _ ?Q] exI[of _ r]) simp
qed

lemma venue_mid: "book_mid (to_snapshot (venue_book x 200)) = Some \<lparr>price = Fin 200, volume = 0, source = x, server_time = 1700000000\<rparr>"
proof -
  have "(Fin (200 - 1 / 8) + Fin (200 + 1 / 8)) / lit 2 = Fin 200" by code_simp
  then show ?thesis
    by (simp add: book_mid_def to_snapshot_def to_levels_def venue_book_def i64_div_pos Let_def)
qed

lemma venue_sane: "sane_mid (to_snapshot (venue_book x 200))"
proof -
  have "in_range (Fin 200)" by code_simp
  then show ?thesis unfolding sane_mid_def venue_mid by (simp add: sane_sample_def zero_lt_iff)
qed

theorem gate_keeps_quorum_witness:
  "\<exists>r. gated_consolidated_order_book (map to_snapshot [venue_book ''a'' 200, venue_book ''b'' 200]) 1 = Some (Done r)"
proof -
  let ?bks = "map to_snapshot [venue_book ''a'' 200, venue_book ''b'' 200]"
  have "length (all_bids ?bks) = 6" "length (all_asks ?bks) = 6" "distinct (map snap_source ?bks)"
    by (simp_all add: all_bids_def all_asks_def to_snapshot_def to_levels_def venue_book_def Let_def)
  moreover have "\<forall>b \<in> set ?bks. sane_mid b \<and> book_bounded b" using venue_book_bounded venue_sane by simp
  ultimately show ?thesis using gate_keeps_quorum[of ?bks 1] by (simp only:) auto
qed

section \<open>Clearing does not always return\<close>

definition stuck :: "grid_side \<Rightarrow> grid_side \<Rightarrow> bool" where
  "stuck b a \<longleftrightarrow> (\<exists>k. b = [(k, NaN)] \<and> a = [(k, NaN)])"

lemma nan_minus: "NaN - x = NaN" "\<not> NaN < x" "\<bar>NaN\<bar> = NaN"
  by (simp_all add: minus_f64_def plus_f64_def less_f64_def)

lemma stuck_hangs: "clear_loop b a = Some r \<Longrightarrow> \<not> stuck b a"
proof (rule clear_loop.raw_induct[of "\<lambda>b a r. \<not> stuck b a"])
  fix loop :: "grid_side \<Rightarrow> grid_side \<Rightarrow> (grid_side \<times> grid_side) option" and b a r
  assume IH: "\<And>b a r. loop b a = Some r \<Longrightarrow> \<not> stuck b a"
    and step: "(case (bt_last b, first a) of
        (Some (kb, vb), Some (ka, va)) \<Rightarrow>
          if kb \<ge> ka then
            let v = fmin vb va;
                b = (if \<bar>vb - v\<bar> < lit (1 / 10 ^ 15) then bt_remove (<) kb b else bt_insert (<) kb (vb - v) b);
                a = (if \<bar>va - v\<bar> < lit (1 / 10 ^ 15) then bt_remove (<) ka a else bt_insert (<) ka (va - v) a)
            in loop b a
          else Some (b, a)
      | _ \<Rightarrow> Some (b, a)) = Some r"
  show "\<not> stuck b a"
  proof
    assume s: "stuck b a"
    then obtain k where "b = [(k, NaN)]" "a = [(k, NaN)]" by (auto simp: stuck_def)
    with step have "loop b a = Some r" by (simp add: fmin_def nan_minus bt_last_def)
    then show False using IH s by blast
  qed
qed

lemma infinite_hangs: "clear_loop [(k, PInf)] [(k, PInf)] = None"
proof -
  have "fmin PInf PInf = PInf" "PInf - PInf = NaN" by (simp_all add: fmin_def minus_f64_def plus_f64_def)
  then have "clear_loop [(k, PInf)] [(k, PInf)] = clear_loop [(k, NaN)] [(k, NaN)]"
    by (subst clear_loop.simps) (simp add: nan_minus bt_last_def)
  then show ?thesis using stuck_hangs[of "[(k, NaN)]" "[(k, NaN)]"] by (cases "clear_loop [(k, NaN)] [(k, NaN)]") (auto simp: stuck_def)
qed

definition huge :: rat where "huge = 2 ^ 1023"

lemma huge_sums: "0 + Fin huge = Fin huge" "Fin huge + Fin huge = PInf" "PInf + Fin huge = PInf"
proof -
  have rep: "rep huge" "rep (huge + huge)"
    using rep_pow2[of 1023] rep_pow2[of 1024] unfolding huge_def by (simp_all only: mult_2[symmetric] power_Suc[symmetric]) simp
  have "overflows (huge + huge)" "\<not> overflows huge" "0 < huge"
    unfolding overflows_def f64_limit_def huge_def by simp_all
  then show "0 + Fin huge = Fin huge" "Fin huge + Fin huge = PInf" "PInf + Fin huge = PInf"
    using rep by (simp_all add: plus_f64_def mkf_def rnd_exact)
qed

definition flood_book :: OrderBookData where
  "flood_book = \<lparr>ob_exchange_id = ''a'', ob_symbol = ''TAOUSDT'', ob_exchange_timestamp = 1700000000000, ob_latency = 0,
     ob_bids = map (\<lambda>k. \<lparr>lvl_price = Fin (200 + of_nat k / 2048), lvl_quantity = Fin huge\<rparr>) [4, 3, 2],
     ob_asks = map (\<lambda>k. \<lparr>lvl_price = Fin (200 + of_nat k / 2048), lvl_quantity = Fin huge\<rparr>) [7, 8, 9], ob_node_id = None\<rparr>"

lemma flood_grid: "compute_common_grid [to_snapshot flood_book] = lit (1 / 100)" "1 / lit (1 / 100) = Fin 100"
  by code_simp+

lemma flood_keys: "\<forall>k \<in> set [2, 3, 4, 7, 8, 9]. grid_key (Fin 100) (Fin (200 + of_nat k / 2048)) = 20000"
proof -
  have "list_all (\<lambda>k. grid_key (Fin 100) (Fin (200 + of_nat k / 2048)) = 20000) [2, 3, 4, 7, 8, 9]" by code_simp
  then show ?thesis by (simp only: list_all_iff)
qed

lemma flood_level:
  assumes "k \<in> set [2, 3, 4, 7, 8, 9]"
  defines "l \<equiv> \<lparr>level_price = Fin (200 + of_nat k / 2048), level_quantity = Fin huge\<rparr>"
  shows "project (Fin 100) [] l = [(20000, Fin huge)]" "project (Fin 100) [(20000, Fin huge)] l = [(20000, PInf)]"
    "project (Fin 100) [(20000, PInf)] l = [(20000, PInf)]"
proof -
  have "\<not> Fin (200 + of_nat k / 2048) \<le> 0" "\<not> Fin huge \<le> 0"
    using of_nat_0_le_iff[of k, where 'a = rat] by (simp_all add: fin_le_iff huge_def del: of_nat_0_le_iff)
  moreover have "grid_key (Fin 100) (Fin (200 + of_nat k / 2048)) = 20000" using flood_keys assms(1) by blast
  ultimately show "project (Fin 100) [] l = [(20000, Fin huge)]" "project (Fin 100) [(20000, Fin huge)] l = [(20000, PInf)]"
    "project (Fin 100) [(20000, PInf)] l = [(20000, PInf)]"
    by (simp_all add: project_def l_def huge_sums is_nan_def)
qed

lemma flood_sides: "global_sides (Fin 100) [to_snapshot flood_book] = ([(20000, PInf)], [(20000, PInf)])"
  unfolding global_sides_def flood_book_def to_snapshot_def to_levels_def Let_def
  by (simp add: flood_level del: of_nat_numeral of_nat_1)

text \<open>
  C30. One venue can make consolidation run forever. This book passes every check of the collector and of the reader:
  all prices and quantities are finite and positive, it is not crossed and its spread is tight.
  Its levels fall on one grid point, where the quantities of either side add up to infinity.
\<close>

theorem consolidation_can_hang:
  "emitted_ok flood_book \<and> is_candidate ''TAO'' flood_book \<and> is_book_usable (to_snapshot flood_book)
   \<and> consolidated_order_book [to_snapshot flood_book] = None"
proof -
  have "emitted_ok flood_book"
    by (simp add: emitted_ok_def flood_book_def pos_price_def zero_lt_iff less_f64_def huge_def)
  moreover have "is_candidate ''TAO'' flood_book" "is_book_usable (to_snapshot flood_book)" by code_simp+
  moreover have "\<not> lit (1 / 100) \<le> 0" by code_simp
  then have "consolidated_order_book [to_snapshot flood_book] = None"
    unfolding consolidated_order_book_def Let_def flood_grid flood_sides by (simp add: infinite_hangs)
  ultimately show ?thesis by blast
qed

end
