(* ===== verification/Oracle.thy ===== *)
theory Oracle
  imports Cob Runs
begin

text \<open>
  \<open>src/main.rs\<close>: one cycle of the oracle loop, and the tasks around it. A cycle walks over the
  assets, takes the price of each from the order books when they make quorum and from the REST
  samples otherwise, and stores it for the price server to sign.

  What a cycle reads from outside is its argument: for every asset the table of books at the
  moment it is read and the answers of the REST venues. A result is \<open>None\<close> when the code does not
  return, and \<open>Panic\<close> when it panics. The price store is the list of the entries of its hash map.
\<close>

section \<open>State\<close>

record PriceState =
  ps_store :: "(string \<times> CachedPrice) list"
  ps_fallbacks :: u64
  ps_rate_assumed :: u64

definition ORACLE_DECIMALS :: u8 where "ORACLE_DECIMALS = 8"
definition USDT_RATE_MAX_AGE_SECS :: u64 where "USDT_RATE_MAX_AGE_SECS = 900"
definition USDT_PEG_MIN_SOURCES :: nat where "USDT_PEG_MIN_SOURCES = 2"

section \<open>Inputs\<close>

text \<open>The answer of a venue: an error, no support for the asset, or a sample.\<close>

type_synonym answer = "string + PricePoint option"

definition fetch_all_sources :: "answer list \<Rightarrow> PricePoint list" where
  "fetch_all_sources answers = filter_map (\<lambda>a. case a of Inr (Some pp) \<Rightarrow> Some pp | _ \<Rightarrow> None) answers"

definition fan_in :: "SharedBookState \<Rightarrow> CollectorMessage \<Rightarrow> SharedBookState" where
  "fan_in st msg = (case msg of Data book \<Rightarrow> insert_book st book | _ \<Rightarrow> st)"

definition ordered_assets :: "AssetConfig list \<Rightarrow> AssetConfig list" where
  "ordered_assets v = sort_by (\<lambda>a b. (symbol a \<noteq> USDT_USD_SYMBOL) \<le> (symbol b \<noteq> USDT_USD_SYMBOL)) v"

section \<open>The conversion rate\<close>

definition saturating_sub :: "u64 \<Rightarrow> u64 \<Rightarrow> u64" where
  "saturating_sub a b = (if b \<le> a then a - b else 0)"

definition usdt_rate :: "f64 option \<Rightarrow> PriceState \<Rightarrow> u64 \<Rightarrow> u64 \<Rightarrow> f64 \<times> PriceState" where
  "usdt_rate cycle st ref_ts max_age_secs =
     (let assumed = (1, st\<lparr>ps_rate_assumed := note_usdt_rate_assumed (ps_rate_assumed st)\<rparr>) in
      case cycle of
        Some r \<Rightarrow> (r, st)
      | None \<Rightarrow>
     (case map_of (ps_store st) USDT_USD_SYMBOL of
        Some c \<Rightarrow>
          let age = saturating_sub ref_ts (signed_timestamp c) in
          if age \<le> max_age_secs \<and> is_finite (price_human c) \<and> price_human c > 0
          then (price_human c, st) else assumed
      | None \<Rightarrow> assumed))"

section \<open>The order-book path\<close>

definition cob_signed_ts :: "OrderBookSnapshot list \<Rightarrow> u64 option" where
  "cob_signed_ts bks =
     map_option (\<lambda>t. word_of_int (max (i64_div t 1000) 0)) (median_ts (map snap_timestamp_ms bks))"

definition hash_points :: "OrderBookSnapshot list \<Rightarrow> u64 \<Rightarrow> PricePoint list" where
  "hash_points bks ts =
     map (\<lambda>b. \<lparr>price = (case first (snap_bids b) of Some l \<Rightarrow> level_price l | None \<Rightarrow> 0), volume = 0,
               source = snap_source b, server_time = ts\<rparr>) bks"

type_synonym cob_quote = "f64 \<times> u64 \<times> nat \<times> PricePoint list"

definition cob_raw :: "AssetConfig \<Rightarrow> book_map \<Rightarrow> cob_quote option run option" where
  "cob_raw asset book_state =
     (if is_cob_asset asset then
        let bks = read_books_from_state asset book_state in
        (case gated_consolidated_order_book bks (min_sources asset) of
           None \<Rightarrow> None
         | Some Panic \<Rightarrow> Some Panic
         | Some (Done None) \<Rightarrow> Some (Done None)
         | Some (Done (Some fair)) \<Rightarrow>
             (case cob_signed_ts bks of
                None \<Rightarrow> Some (Done None)
              | Some ts \<Rightarrow> Some (Done (Some (fv_price fair, ts, fv_num_sources fair, hash_points bks ts)))))
      else Some (Done None))"

definition cached_price :: "(bytes \<Rightarrow> bytes) \<Rightarrow> AssetConfig \<Rightarrow> u256 \<Rightarrow> f64 \<Rightarrow> nat \<Rightarrow> PricePoint list \<Rightarrow> u64 \<Rightarrow> CachedPrice" where
  "cached_price keccak256 asset fixed human n points ts =
     \<lparr>asset_symbol = symbol asset, asset_id = asset_id_of keccak256 asset, price_fixed = fixed, price_human = human,
      num_sources = word_of_nat n, sources_hash_of = sources_hash keccak256 points, signed_timestamp = ts\<rparr>"

definition cob_cached ::
    "(bytes \<Rightarrow> bytes) \<Rightarrow> AssetConfig \<Rightarrow> f64 option \<Rightarrow> cob_quote option \<Rightarrow> PriceState \<Rightarrow> CachedPrice option \<times> PriceState" where
  "cob_cached keccak256 asset usdt_usd raw st =
     (case raw of
        None \<Rightarrow> (None, st)
      | Some (mid_usdt, ts, n, points) \<Rightarrow>
          (case usdt_rate usdt_usd st ts USDT_RATE_MAX_AGE_SECS of (rate, st) \<Rightarrow>
             let mid = mid_usdt * rate in
             (case to_fixed_point mid ORACLE_DECIMALS of
                Inl _ \<Rightarrow> None
              | Inr fixed \<Rightarrow> Some (cached_price keccak256 asset fixed mid n points ts), st)))"

section \<open>The REST path\<close>

definition rest_samples :: "AssetConfig \<Rightarrow> f64 option \<Rightarrow> PricePoint list \<Rightarrow> PriceState \<Rightarrow> PricePoint list \<times> PriceState" where
  "rest_samples asset usdt_usd raw_prices st =
     (let prices = sanitize raw_prices in
      if has_usdt_quoted_source asset then
        let ref_ts = (case median_server_time prices of Some t \<Rightarrow> t | None \<Rightarrow> 0) in
        (case usdt_rate usdt_usd st ref_ts USDT_RATE_MAX_AGE_SECS of (rate, st) \<Rightarrow>
           (convert_quotes_to_usd prices asset rate, st))
      else (prices, st))"

definition rest_median ::
    "AssetConfig \<Rightarrow> PricePoint list \<Rightarrow> u64 \<Rightarrow> ((f64 \<times> u64 \<times> PricePoint list) option \<times> u64) run" where
  "rest_median asset prices fallbacks =
     (if length prices < min_sources asset then Done (None, fallbacks)
      else
        run_bind (reject_outliers_with_cap prices (lit 3) (deviation_threshold_bps asset)) (\<lambda>prices.
        case reject_time_outliers prices of
          (_, None) \<Rightarrow> Done (None, fallbacks)
        | (prices, Some signed_ts) \<Rightarrow>
            if length prices < min_sources asset then Done (None, fallbacks)
            else run_bind (weighted_median fallbacks prices) (\<lambda>(m, fallbacks).
              Done (case m of None \<Rightarrow> None | Some (median, _) \<Rightarrow> Some (median, signed_ts, prices), fallbacks))))"

definition rest_cached ::
    "(bytes \<Rightarrow> bytes) \<Rightarrow> AssetConfig \<Rightarrow> f64 option \<Rightarrow> answer list \<Rightarrow> PriceState \<Rightarrow> (CachedPrice option \<times> f64 option \<times> PriceState) run" where
  "rest_cached keccak256 asset usdt_usd answers st =
     (case rest_samples asset usdt_usd (fetch_all_sources answers) st of (prices, st) \<Rightarrow>
      run_bind (rest_median asset prices (ps_fallbacks st)) (\<lambda>(m, fallbacks).
        let st = st\<lparr>ps_fallbacks := fallbacks\<rparr> in
        case m of
          None \<Rightarrow> Done (None, usdt_usd, st)
        | Some (median, signed_ts, prices) \<Rightarrow>
            let usdt_usd = (if symbol asset = USDT_USD_SYMBOL then Some median else usdt_usd) in
            Done (case to_fixed_point median ORACLE_DECIMALS of
                    Inl _ \<Rightarrow> None
                  | Inr fixed \<Rightarrow> Some (cached_price keccak256 asset fixed median (length prices) prices signed_ts),
                  usdt_usd, st)))"

section \<open>One cycle\<close>

definition store_price :: "string \<Rightarrow> CachedPrice \<Rightarrow> PriceState \<Rightarrow> PriceState" where
  "store_price s c st = st\<lparr>ps_store := hm_insert s c (ps_store st)\<rparr>"

definition update_asset ::
    "(bytes \<Rightarrow> bytes) \<Rightarrow> AssetConfig \<Rightarrow> book_map \<Rightarrow> answer list \<Rightarrow> f64 option \<times> PriceState \<Rightarrow> (f64 option \<times> PriceState) run option" where
  "update_asset keccak256 asset book_state answers s =
     (case s of (usdt_usd, st) \<Rightarrow>
      case cob_raw asset book_state of
        None \<Rightarrow> None
      | Some Panic \<Rightarrow> Some Panic
      | Some (Done raw) \<Rightarrow>
     (case cob_cached keccak256 asset usdt_usd raw st of
        (Some cached, st) \<Rightarrow> Some (Done (usdt_usd, store_price (asset_symbol cached) cached st))
      | (None, st) \<Rightarrow>
          Some (run_bind (rest_cached keccak256 asset usdt_usd answers st) (\<lambda>(cached, usdt_usd, st).
            Done (usdt_usd, case cached of None \<Rightarrow> st | Some c \<Rightarrow> store_price (symbol asset) c st)))))"

fun update_assets ::
    "(bytes \<Rightarrow> bytes) \<Rightarrow> (AssetConfig \<times> book_map \<times> answer list) list \<Rightarrow> f64 option \<times> PriceState \<Rightarrow> (f64 option \<times> PriceState) run option" where
  "update_assets keccak256 [] s = Some (Done s)"
| "update_assets keccak256 ((asset, book_state, answers) # rest) s =
     (case update_asset keccak256 asset book_state answers s of
        Some (Done s) \<Rightarrow> update_assets keccak256 rest s
      | r \<Rightarrow> r)"

type_synonym cycle_inputs = "book_map \<times> (nat \<Rightarrow> book_map \<times> answer list)"

definition cycle_assets :: "AssetConfig list \<Rightarrow> cycle_inputs \<Rightarrow> (AssetConfig \<times> book_map \<times> answer list) list" where
  "cycle_assets as inp = map (\<lambda>(i, asset). (asset, snd inp i)) (enumerate 0 (ordered_assets as))"

definition oracle_cycle :: "(bytes \<Rightarrow> bytes) \<Rightarrow> AssetConfig list \<Rightarrow> cycle_inputs \<Rightarrow> PriceState \<Rightarrow> PriceState run option" where
  "oracle_cycle keccak256 as inp st =
     (case usdt_peg_ok (fst inp) USDT_PEG_MIN_SOURCES of
        None \<Rightarrow> None
      | Some _ \<Rightarrow>
          (case update_assets keccak256 (cycle_assets as inp) (None, st) of
             None \<Rightarrow> None
           | Some r \<Rightarrow> Some (run_bind r (\<lambda>(_, st). Done st))))"

definition initial_prices :: PriceState where
  "initial_prices = \<lparr>ps_store = [], ps_fallbacks = 0, ps_rate_assumed = 0\<rparr>"

inductive cycle_step :: "(bytes \<Rightarrow> bytes) \<Rightarrow> AssetConfig list \<Rightarrow> PriceState \<Rightarrow> cycle_inputs \<Rightarrow> PriceState \<Rightarrow> bool"
  for keccak256 as where
  "oracle_cycle keccak256 as inp st = Some (Done st') \<Longrightarrow> cycle_step keccak256 as st inp st'"

inductive_cases cycle_stepE: "cycle_step keccak256 as st inp st'"

section \<open>The collector supervisor\<close>

text \<open>
  One round of the restart loop: the stop flag before and after the run, the outcome of the run,
  and how many seconds it lasted. The result is the pause before the next round and its backoff.
\<close>

definition supervisor_round :: "bool \<Rightarrow> bool \<Rightarrow> string option \<Rightarrow> u64 \<Rightarrow> u64 \<Rightarrow> (u64 \<times> u64) option" where
  "supervisor_round stop_before stop_after err_msg elapsed backoff_secs =
     (if stop_before then None
      else if stop_after then None
      else (case err_msg of
              None \<Rightarrow> None
            | Some _ \<Rightarrow>
                let backoff_secs = (if elapsed \<ge> 60 then 1 else backoff_secs) in
                Some (backoff_secs, min (backoff_secs * 2) 60)))"

section \<open>No panics\<close>

lemma reject_Done: "\<exists>P. reject_outliers_with_cap ps sigma cap = Done (filter P ps)"
proof (cases "length ps < 3")
  case True
  then show ?thesis by (intro exI[of _ "\<lambda>_. True"]) (simp add: reject_outliers_with_cap_def)
next
  case False
  then have "map price ps \<noteq> []" by auto
  then obtain m where m: "median_sorted (map price ps) = Done (sort_by f64_not_gt (map price ps), m)"
    using median_sorted_Done by blast
  obtain d where d: "median_sorted (map (\<lambda>p. \<bar>p - m\<bar>) (sort_by f64_not_gt (map price ps)))
      = Done (sort_by f64_not_gt (map (\<lambda>p. \<bar>p - m\<bar>) (sort_by f64_not_gt (map price ps))), d)"
    using median_sorted_Done[of "map (\<lambda>p. \<bar>p - m\<bar>) (sort_by f64_not_gt (map price ps))"] \<open>map price ps \<noteq> []\<close> by auto
  show ?thesis
    unfolding reject_outliers_with_cap_def m run_bind.simps prod.case d Let_def
    using False by (auto intro: exI[of _ "\<lambda>_. True"])
qed

lemma weighted_median_Done: "\<exists>m n'. weighted_median n ps = Done (m, n')"
proof (cases "length ps < length (filter (\<lambda>v. 0 < v) (map volume ps)) * 2")
  case True
  then have "filter (\<lambda>v. 0 < v) (map volume ps) \<noteq> []"
    by (cases "filter (\<lambda>v. 0 < v) (map volume ps)") simp_all
  from median_sorted_Done[OF this] obtain m where
    "median_sorted (filter (\<lambda>v. 0 < v) (map volume ps)) = Done (sort_by f64_not_gt (filter (\<lambda>v. 0 < v) (map volume ps)), m)" by blast
  then show ?thesis by (auto simp: weighted_median_def Let_def split: list.split)
next
  case False
  then show ?thesis by (auto simp: weighted_median_def Let_def split: list.split)
qed

lemma reject_time_filter: "reject_time_outliers ps = (kept, t) \<Longrightarrow> \<exists>P. kept = filter P ps"
  by (auto simp: reject_time_outliers_def Let_def split: option.splits intro: exI[of _ "\<lambda>_. True"])

lemma rest_median_Done:
  "\<exists>m n'. rest_median asset prices n = Done (m, n')
     \<and> (\<forall>med ts kept. m = Some (med, ts, kept) \<longrightarrow> min_sources asset \<le> length kept \<and> (\<exists>P. kept = filter P prices))"
proof -
  obtain P where r: "reject_outliers_with_cap prices (lit 3) (deviation_threshold_bps asset) = Done (filter P prices)"
    using reject_Done by blast
  obtain kept t where t: "reject_time_outliers (filter P prices) = (kept, t)" by (cases "reject_time_outliers (filter P prices)")
  obtain Q where Q: "kept = filter Q (filter P prices)" using reject_time_filter[OF t] by blast
  obtain m n' where "weighted_median n kept = Done (m, n')" using weighted_median_Done by blast
  then show ?thesis
    unfolding rest_median_def r run_bind.simps t prod.case using Q
    by (auto split: option.splits intro: exI[of _ "\<lambda>x. P x \<and> Q x"])
qed

section \<open>The quorum of the order-book path\<close>

lemma filter_map_filter: "filter P (filter_map f xs) = filter_map (\<lambda>x. case f x of Some y \<Rightarrow> if P y then Some y else None | None \<Rightarrow> None) xs"
  by (induction xs) (auto split: option.splits)

lemma map_filter_map: "map g (filter_map f xs) = filter_map (\<lambda>x. map_option g (f x)) xs"
  by (induction xs) (auto split: option.splits)

lemma length_filter_map_le:
  assumes "\<And>x y. x \<in> set xs \<Longrightarrow> f x = Some y \<Longrightarrow> y \<in> set (filter_map f xs) \<Longrightarrow> P x"
  shows "length (filter_map f xs) \<le> length (filter P xs)"
proof -
  have "length (filter_map f xs) = length (filter (\<lambda>x. f x \<noteq> None) xs)"
    by (induction xs) (auto split: option.splits)
  also have "\<dots> = length (filter (\<lambda>x. f x \<noteq> None \<and> P x) xs)"
  proof -
    have "f x \<noteq> None \<and> P x" if x: "x \<in> set xs" and fx: "f x \<noteq> None" for x
    proof -
      obtain y where y: "f x = Some y" using fx by auto
      moreover have "y \<in> set (filter_map f xs)"
        using x y by (induction xs) (auto split: option.splits)
      ultimately show ?thesis using assms x by blast
    qed
    then show ?thesis by (intro arg_cong[of _ _ length] filter_cong) auto
  qed
  also have "\<dots> \<le> length (filter P xs)" by (rule length_filter_mono) simp
  finally show ?thesis .
qed

lemma consolidated_sources: "consolidated_order_book bks = Some (Some fv) \<Longrightarrow> fv_num_sources fv = length bks"
  by (auto simp: consolidated_order_book_def fair_value_def Let_def split: if_splits option.splits prod.splits)

lemma gated_quorum:
  assumes "gated_consolidated_order_book bks n = Some (Done (Some fv))"
  shows "n \<le> fv_num_sources fv \<and> fv_num_sources fv \<le> length bks"
proof -
  obtain P where P: "reject_outliers (sanitize (filter_map book_mid bks)) COB_MID_OUTLIER_SIGMA
      = Done (filter P (sanitize (filter_map book_mid bks)))"
    using reject_Done unfolding reject_outliers_def by blast
  let ?c = "filter P (sanitize (filter_map book_mid bks))"
  let ?kept = "filter (\<lambda>b. snap_source b \<in> set (map source ?c)) bks"
  have k: "n \<le> length ?c" "consolidated_order_book ?kept = Some (Some fv)"
    using assms P by (auto simp: gated_consolidated_order_book_def Let_def split: if_splits)
  obtain f where f: "?c = filter_map f bks" "\<And>b p. f b = Some p \<Longrightarrow> source p = snap_source b"
  proof -
    let ?s = "\<lambda>p. if sane_sample p then Some p else None"
    let ?f = "\<lambda>b. case map_option fix_volume (case book_mid b of Some y \<Rightarrow> ?s y | None \<Rightarrow> None) of
        Some y \<Rightarrow> if P y then Some y else None | None \<Rightarrow> None"
    have "?c = filter_map ?f bks"
      unfolding sanitize_def filter_map_filter map_filter_map ..
    moreover have "source p = snap_source b" if "?f b = Some p" for b p
      using that book_mid_source by (force split: option.splits if_splits)
    ultimately show thesis using that by blast
  qed
  have "length ?c \<le> length ?kept"
    unfolding f(1) by (rule length_filter_map_le) (use f(2) in force)
  then show ?thesis using k consolidated_sources[OF k(2)] length_filter_le[of _ bks] by fastforce
qed

section \<open>What the store holds\<close>

definition cached_ok :: "(bytes \<Rightarrow> bytes) \<Rightarrow> AssetConfig \<Rightarrow> CachedPrice \<Rightarrow> bool" where
  "cached_ok keccak256 a c \<longleftrightarrow> asset_symbol c = symbol a \<and> asset_id c = keccak256 (string_bytes (symbol a))
     \<and> to_fixed_point (price_human c) 8 = Inr (price_fixed c)
     \<and> (\<exists>n \<ge> min_sources a. num_sources c = word_of_nat n)"

definition store_ok :: "(bytes \<Rightarrow> bytes) \<Rightarrow> AssetConfig list \<Rightarrow> PriceState \<Rightarrow> bool" where
  "store_ok keccak256 as st \<longleftrightarrow> distinct (map fst (ps_store st))
     \<and> (\<forall>(s, c) \<in> set (ps_store st). \<exists>a \<in> set as. s = symbol a \<and> cached_ok keccak256 a c)"

lemma usdt_rate_store [simp]: "usdt_rate u st ts m = (r, st') \<Longrightarrow> ps_store st' = ps_store st"
  by (auto simp: usdt_rate_def Let_def split: option.splits if_splits)

lemma store_ok_price:
  assumes "store_ok k as st" "a \<in> set as" "cached_ok k a c"
  shows "store_ok k as (store_price (symbol a) c st)"
  using assms by (auto simp: store_ok_def store_price_def distinct_hm_insert dest!: set_hm_insert)

lemma store_ok_cong: "ps_store st' = ps_store st \<Longrightarrow> store_ok k as st' \<longleftrightarrow> store_ok k as st"
  by (simp add: store_ok_def)

lemma cob_raw_quorum:
  assumes "cob_raw a m = Some (Done (Some (mid, ts, n, points)))"
  shows "min_sources a \<le> n"
  using assms gated_quorum
  by (auto simp: cob_raw_def Let_def split: if_splits option.splits run.splits)

lemma cob_cached_ok:
  assumes "cob_raw a m = Some (Done raw)" "cob_cached k a u raw st = (c, st')"
  shows "ps_store st' = ps_store st \<and> (\<forall>x. c = Some x \<longrightarrow> cached_ok k a x)"
  using assms cob_raw_quorum[of a m]
  by (auto simp: cob_cached_def cached_ok_def cached_price_def asset_id_of_def ORACLE_DECIMALS_def Let_def
      split: option.splits prod.splits sum.splits)

lemma rest_cached_ok:
  "\<exists>c u' st'. rest_cached k a u answers st = Done (c, u', st') \<and> ps_store st' = ps_store st
     \<and> (\<forall>x. c = Some x \<longrightarrow> cached_ok k a x) \<and> (symbol a \<noteq> USDT_USD_SYMBOL \<longrightarrow> u' = u)"
proof -
  obtain ps st1 where s: "rest_samples a u (fetch_all_sources answers) st = (ps, st1)" by (cases "rest_samples a u (fetch_all_sources answers) st")
  then have st1: "ps_store st1 = ps_store st"
    by (auto simp: rest_samples_def Let_def split: if_splits prod.splits)
  obtain m n' where m: "rest_median a ps (ps_fallbacks st1) = Done (m, n')"
    "\<forall>med ts kept. m = Some (med, ts, kept) \<longrightarrow> min_sources a \<le> length kept"
    using rest_median_Done[of a ps "ps_fallbacks st1"] by blast
  show ?thesis
    unfolding rest_cached_def s prod.case m(1) run_bind.simps Let_def
    using m(2) st1
    by (auto simp: cached_ok_def cached_price_def asset_id_of_def ORACLE_DECIMALS_def split: option.splits sum.splits)
qed

lemma update_asset_ok:
  assumes "store_ok k as st" "a \<in> set as" "update_asset k a m answers (u, st) = Some (Done (u', st'))"
  shows "store_ok k as st' \<and> (symbol a \<noteq> USDT_USD_SYMBOL \<longrightarrow> u' = u)"
proof -
  obtain raw where raw: "cob_raw a m = Some (Done raw)"
    using assms(3) by (auto simp: update_asset_def split: option.splits run.splits)
  obtain c st1 where c: "cob_cached k a u raw st = (c, st1)" by (cases "cob_cached k a u raw st")
  note cc = cob_cached_ok[OF raw c]
  obtain d u2 st2 where r: "rest_cached k a u answers st1 = Done (d, u2, st2)" "ps_store st2 = ps_store st1"
    "\<forall>x. d = Some x \<longrightarrow> cached_ok k a x" "symbol a \<noteq> USDT_USD_SYMBOL \<longrightarrow> u2 = u"
    using rest_cached_ok by blast
  have "store_ok k as st1" "store_ok k as st2" using assms(1) cc r(2) by (simp_all add: store_ok_def)
  moreover have "c = Some x \<Longrightarrow> asset_symbol x = symbol a" for x using cc by (simp add: cached_ok_def)
  ultimately show ?thesis
    using assms(3) raw c cc r store_ok_price[of k as st1 a] store_ok_price[of k as st2 a] assms(2)
    by (auto simp: update_asset_def split: option.splits)
qed

lemma update_assets_ok:
  "store_ok k as st \<Longrightarrow> fst ` set xs \<subseteq> set as \<Longrightarrow> update_assets k xs (u, st) = Some (Done (u', st')) \<Longrightarrow>
   store_ok k as st' \<and> (USDT_USD_SYMBOL \<notin> symbol ` fst ` set xs \<longrightarrow> u' = u)"
proof (induction xs arbitrary: u st)
  case (Cons x xs)
  obtain a m answers where x: "x = (a, m, answers)" by (cases x)
  obtain u1 st1 where o: "update_asset k a m answers (u, st) = Some (Done (u1, st1))"
    "update_assets k xs (u1, st1) = Some (Done (u', st'))"
    using Cons.prems(3) x by (auto split: option.splits run.splits)
  show ?case
    using update_asset_ok[OF Cons.prems(1) _ o(1)] Cons.IH[OF _ _ o(2)] Cons.prems(2) x by auto
qed simp

lemma assets_of_cycle: "map fst (cycle_assets as inp) = ordered_assets as"
  by (simp add: cycle_assets_def comp_def case_prod_beta)

lemma cycle_assets_set: "fst ` set (cycle_assets as inp) = set as"
  using arg_cong[OF assets_of_cycle[of as inp], of set] by (simp add: ordered_assets_def)

interpretation price_store: state_machine "cycle_step k as" "store_ok k as" for k as
proof
  fix s e s'
  assume s: "store_ok k as s" "cycle_step k as s e s'"
  from s(2) obtain u where "update_assets k (cycle_assets as e) (None, s) = Some (Done (u, s'))"
    by (auto elim!: cycle_stepE simp: oracle_cycle_def run_bind_Done split: option.splits)
  from update_assets_ok[OF s(1) _ this] show "store_ok k as s'" by (simp add: cycle_assets_set)
qed


lemma insert_usdt_last:
  assumes "symbol a \<noteq> USDT_USD_SYMBOL" "\<forall>x \<in> set xs. symbol x = USDT_USD_SYMBOL" "\<forall>y \<in> set ys. symbol y \<noteq> USDT_USD_SYMBOL"
  shows "insert_by (\<lambda>a b. (symbol a \<noteq> USDT_USD_SYMBOL) \<le> (symbol b \<noteq> USDT_USD_SYMBOL)) a (xs @ ys) = xs @ a # ys"
  using assms(2)
proof (induction xs)
  case Nil
  then show ?case using assms(1,3) by (cases ys) auto
qed (use assms(1) in simp)

lemma ordered_assets_split:
  "ordered_assets as = filter (\<lambda>a. symbol a = USDT_USD_SYMBOL) as @ filter (\<lambda>a. symbol a \<noteq> USDT_USD_SYMBOL) as"
  unfolding ordered_assets_def
proof (induction as)
  case (Cons a as)
  show ?case
  proof (cases "symbol a = USDT_USD_SYMBOL")
    case True
    then show ?thesis
      using Cons by (cases "sort_by (\<lambda>a b. (symbol a \<noteq> USDT_USD_SYMBOL) \<le> (symbol b \<noteq> USDT_USD_SYMBOL)) as") auto
  next
    case False
    then show ?thesis using Cons insert_usdt_last[of a] by simp
  qed
qed simp

lemma update_assets_append:
  "update_assets k (xs @ ys) s = (case update_assets k xs s of Some (Done s') \<Rightarrow> update_assets k ys s' | r \<Rightarrow> r)"
  by (induction xs arbitrary: s) (auto split: option.splits run.splits)

lemma rate_unchanged:
  assumes "USDT_USD_SYMBOL \<notin> symbol ` fst ` set xs" "update_assets k xs (u, st) = Some (Done (u', st'))"
  shows "u' = u"
  using assms
proof (induction xs arbitrary: u st)
  case (Cons x xs)
  obtain a m answers where x: "x = (a, m, answers)" by (cases x)
  obtain u1 st1 where o: "update_asset k a m answers (u, st) = Some (Done (u1, st1))"
    "update_assets k xs (u1, st1) = Some (Done (u', st'))"
    using Cons.prems(2) x by (auto split: option.splits run.splits)
  obtain raw where raw: "cob_raw a m = Some (Done raw)"
    using o(1) by (auto simp: update_asset_def split: option.splits run.splits)
  obtain c st0 where c: "cob_cached k a u raw st = (c, st0)" by (cases "cob_cached k a u raw st")
  obtain d u2 st2 where r: "rest_cached k a u answers st0 = Done (d, u2, st2)" "symbol a \<noteq> USDT_USD_SYMBOL \<longrightarrow> u2 = u"
    using rest_cached_ok by blast
  have "u1 = u" using o(1) raw c r Cons.prems(1) x by (auto simp: update_asset_def split: option.splits)
  then show ?case using Cons.IH[OF _ o(2)] Cons.prems(1) by simp
qed simp

text \<open>
  One conversion rate per cycle. The USDT/USD entries come first, whatever the order of the table,
  and the rate they produce is the one that every other asset of the cycle is converted with.
\<close>

theorem one_rate_per_cycle:
  assumes "oracle_cycle keccak256 as inp st = Some (Done st')"
  shows "\<exists>us rest u st1. cycle_assets as inp = us @ rest \<and> symbol ` fst ` set us \<subseteq> {USDT_USD_SYMBOL}
    \<and> USDT_USD_SYMBOL \<notin> symbol ` fst ` set rest
    \<and> update_assets keccak256 us (None, st) = Some (Done (u, st1)) \<and> update_assets keccak256 rest (u, st1) = Some (Done (u, st'))
    \<and> (\<forall>xs x ys. rest = xs @ x # ys \<longrightarrow> (\<exists>st2. update_assets keccak256 xs (u, st1) = Some (Done (u, st2))))"
proof -
  let ?n = "length (filter (\<lambda>a. symbol a = USDT_USD_SYMBOL) as)"
  define us rest where "us = take ?n (cycle_assets as inp)" and "rest = drop ?n (cycle_assets as inp)"
  have cut: "cycle_assets as inp = us @ rest" by (simp add: us_def rest_def)
  have "map fst us = filter (\<lambda>a. symbol a = USDT_USD_SYMBOL) as" "map fst rest = filter (\<lambda>a. symbol a \<noteq> USDT_USD_SYMBOL) as"
    by (simp_all add: us_def rest_def take_map[symmetric] drop_map[symmetric] assets_of_cycle ordered_assets_split)
  then have "fst ` set us = set (filter (\<lambda>a. symbol a = USDT_USD_SYMBOL) as)" "fst ` set rest = set (filter (\<lambda>a. symbol a \<noteq> USDT_USD_SYMBOL) as)"
    by (metis set_map)+
  then have sym: "symbol ` fst ` set us \<subseteq> {USDT_USD_SYMBOL}" "USDT_USD_SYMBOL \<notin> symbol ` fst ` set rest" by auto
  obtain u' where "update_assets keccak256 (us @ rest) (None, st) = Some (Done (u', st'))"
    using assms by (auto simp: oracle_cycle_def run_bind_Done cut split: option.splits)
  then obtain u st1 where r: "update_assets keccak256 us (None, st) = Some (Done (u, st1))"
    "update_assets keccak256 rest (u, st1) = Some (Done (u', st'))"
    by (auto simp: update_assets_append split: option.splits run.splits)
  have "\<exists>st2. update_assets keccak256 xs (u, st1) = Some (Done (u, st2))" if e: "rest = xs @ ys" for xs ys
  proof -
    obtain v st2 where "update_assets keccak256 xs (u, st1) = Some (Done (v, st2))"
      using r(2) unfolding e by (auto simp: update_assets_append split: option.splits run.splits)
    moreover from this have "v = u" using sym(2) e by (intro rate_unchanged[of xs]) auto
    ultimately show ?thesis by blast
  qed
  moreover have "u' = u" by (rule rate_unchanged[OF sym(2) r(2)])
  ultimately show ?thesis using cut sym r by (intro exI[of _ us] exI[of _ rest] exI[of _ u] exI[of _ st1]) simp
qed

section \<open>A cycle returns\<close>

definition table_bounded :: "book_map \<Rightarrow> bool" where
  "table_bounded m \<longleftrightarrow> length m \<le> 2 ^ 40
     \<and> (\<forall>(k, b) \<in> set m. emitted_ok b \<and> (\<forall>l \<in> set (ob_bids b @ ob_asks b). f64_ok (lvl_quantity l) \<and> fval (lvl_quantity l) \<le> 2 ^ 70))"

lemma length_concat_le: "\<forall>x \<in> set xs. length (f x) \<le> n \<Longrightarrow> length (concat (map f xs)) \<le> n * length xs"
  by (induction xs) auto

lemma read_books_bounded:
  assumes "table_bounded m"
  shows "\<forall>s \<in> set (read_books_filtered base m). book_bounded s"
    and "length (all_bids (read_books_filtered base m)) \<le> 2 ^ 53" "length (all_asks (read_books_filtered base m)) \<le> 2 ^ 53"
proof -
  have r: "set (read_books_filtered base m) \<subseteq> to_snapshot ` snd ` set m"
    by (auto simp: read_books_filtered_def Let_def split: option.splits)
  have b: "book_bounded (to_snapshot b) \<and> length (snap_bids (to_snapshot b)) \<le> 25 \<and> length (snap_asks (to_snapshot b)) \<le> 25"
    if "b \<in> snd ` set m" for b
    using that assms ticks_tick_ok[OF tick_size_for_ticks]
    by (force simp: table_bounded_def book_bounded_def to_snapshot_def to_levels_def level_bounded_def emitted_ok_def pos_price_def Let_def)
  show "\<forall>s \<in> set (read_books_filtered base m). book_bounded s" using r b by blast
  have "length (read_books_filtered base m) \<le> length m"
    by (auto simp: read_books_filtered_def Let_def split: option.splits intro!: le_trans[OF length_filter_le])
  then have n: "25 * length (read_books_filtered base m) \<le> 25 * 2 ^ 40" using assms by (simp add: table_bounded_def)
  have "length (all_bids (read_books_filtered base m)) \<le> 25 * length (read_books_filtered base m)"
    "length (all_asks (read_books_filtered base m)) \<le> 25 * length (read_books_filtered base m)"
    unfolding all_bids_def all_asks_def by (rule length_concat_le, use r b in blast)+
  then show "length (all_bids (read_books_filtered base m)) \<le> 2 ^ 53" "length (all_asks (read_books_filtered base m)) \<le> 2 ^ 53"
    using n by simp_all
qed

lemma consolidated_filter_returns:
  assumes "\<forall>s \<in> set bks. book_bounded s" "length (all_bids bks) \<le> 2 ^ 53" "length (all_asks bks) \<le> 2 ^ 53"
  shows "\<exists>r. consolidated_order_book (filter P bks) = Some r"
proof -
  have "length (all_bids (filter P bks)) \<le> length (all_bids bks)" "length (all_asks (filter P bks)) \<le> length (all_asks bks)"
    unfolding all_bids_def all_asks_def by (induction bks) auto
  then show ?thesis
    using assms consolidated_total[of "filter P bks"] by (metis (no_types, lifting) filter_is_subset in_mono le_trans)
qed

lemma gated_returns:
  assumes "\<forall>s \<in> set bks. book_bounded s" "length (all_bids bks) \<le> 2 ^ 53" "length (all_asks bks) \<le> 2 ^ 53"
  shows "\<exists>r. gated_consolidated_order_book bks n = Some (Done r)"
proof -
  obtain P where "reject_outliers (sanitize (filter_map book_mid bks)) COB_MID_OUTLIER_SIGMA
      = Done (filter P (sanitize (filter_map book_mid bks)))"
    using reject_Done unfolding reject_outliers_def by blast
  then show ?thesis
    using consolidated_filter_returns[OF assms] by (fastforce simp: gated_consolidated_order_book_def Let_def)
qed

lemma read_from_state_bounded:
  assumes "table_bounded m"
  shows "\<exists>r. gated_consolidated_order_book (read_books_from_state a m) n = Some (Done r)"
proof (cases "asset_to_collector_symbol a = []")
  case True
  then show ?thesis using gated_returns[of "[]" n] by (simp add: read_books_from_state_def all_bids_def all_asks_def)
next
  case False
  then show ?thesis using gated_returns[OF read_books_bounded[OF assms]] by (simp add: read_books_from_state_def)
qed

lemma update_asset_returns:
  assumes "table_bounded m"
  shows "\<exists>s'. update_asset k a m answers s = Some (Done s')"
proof -
  obtain u st where s: "s = (u, st)" by (cases s)
  obtain r where "gated_consolidated_order_book (read_books_from_state a m) (min_sources a) = Some (Done r)"
    using read_from_state_bounded[OF assms] by blast
  then have "\<exists>raw. cob_raw a m = Some (Done raw)" by (cases r) (auto simp: cob_raw_def Let_def split: option.split)
  then obtain raw where raw: "cob_raw a m = Some (Done raw)" by blast
  obtain c st0 where c: "cob_cached k a u raw st = (c, st0)" by (cases "cob_cached k a u raw st")
  obtain d u2 st2 where "rest_cached k a u answers st0 = Done (d, u2, st2)" using rest_cached_ok by blast
  then show ?thesis using raw c by (cases c) (auto simp: update_asset_def s)
qed

lemma update_assets_returns:
  "\<forall>x \<in> set xs. table_bounded (fst (snd x)) \<Longrightarrow> \<exists>s'. update_assets k xs s = Some (Done s')"
proof (induction xs arbitrary: s)
  case (Cons x xs)
  obtain a m answers where x: "x = (a, m, answers)" by (cases x)
  then have "table_bounded m" using Cons.prems by simp
  then obtain s1 where "update_asset k a m answers s = Some (Done s1)" using update_asset_returns by blast
  then show ?case using Cons x by simp
qed simp

lemma cycle_total:
  assumes "table_bounded (fst inp)" "\<forall>i. table_bounded (fst (snd inp i))"
  shows "\<exists>st'. oracle_cycle keccak256 as inp st = Some (Done st')"
proof -
  have "\<exists>r. consolidated_order_book (read_books_filtered ''USDC'' (fst inp)) = Some r"
    using consolidated_filter_returns[OF read_books_bounded[OF assms(1)], of "\<lambda>_. True"] by simp
  then have peg: "\<exists>r. usdt_peg_ok (fst inp) USDT_PEG_MIN_SOURCES = Some r"
    by (auto simp: usdt_peg_ok_def probe_usdc_mid_def Let_def)
  have "\<forall>x \<in> set (cycle_assets as inp). table_bounded (fst (snd x))" using assms(2) by (auto simp: cycle_assets_def)
  from update_assets_returns[OF this, of keccak256 "(None, st)"] obtain s' where
    "update_assets keccak256 (cycle_assets as inp) (None, st) = Some (Done s')" by blast
  moreover obtain u st' where "s' = (u, st')" by (cases s')
  ultimately show ?thesis using peg by (auto simp: oracle_cycle_def)
qed

text \<open>
  C32. A cycle always completes. As long as the tables it reads hold what collectors emit, with quantities up to
  \<open>2^70\<close> and at most \<open>2^40\<close> entries, a cycle neither panics nor hangs, whatever the REST venues answer and
  whatever the store holds.
\<close>

theorem oracle_cycle_returns:
  assumes "table_bounded (fst inp)" "\<forall>i. table_bounded (fst (snd inp i))"
  shows "\<exists>st'. oracle_cycle keccak256 as inp st = Some (Done st')"
  by (rule cycle_total[OF assms])

definition demo_asset :: AssetConfig where
  "demo_asset = \<lparr>symbol = ''X/USD'', min_sources = 1, deviation_threshold_bps = 0, heartbeat_seconds = 60,
     sources = [(''v'', \<lparr>map_pair = ''XUSD'', map_quote = Usd\<rparr>)]\<rparr>"

definition demo_inputs :: cycle_inputs where
  "demo_inputs = ([], \<lambda>_. ([], [Inr (Some \<lparr>price = Fin 100, volume = 0, source = ''v'', server_time = 1700000000\<rparr>), Inl ''down'', Inr None]))"

definition demo_prices :: PriceState where
  "demo_prices = \<lparr>ps_store = [(''X/USD'', cached_price id demo_asset 10000000000 (Fin 100) 1
     [\<lparr>price = Fin 100, volume = 0, source = ''v'', server_time = 1700000000\<rparr>] 1700000000)], ps_fallbacks = 0, ps_rate_assumed = 0\<rparr>"

lemma demo_fixed: "to_fixed_point (Fin 100) ORACLE_DECIMALS = Inr 10000000000"
  by code_simp

definition demo_sample :: PricePoint where
  "demo_sample = \<lparr>price = Fin 100, volume = 0, source = ''v'', server_time = 1700000000\<rparr>"

lemma demo_rest: "rest_median demo_asset [demo_sample] 0 = Done (Some (Fin 100, 1700000000, [demo_sample]), 0)"
proof -
  have t: "median_server_time [demo_sample] = Some 1700000000" by (simp add: median_server_time_def demo_sample_def)
  have "time_near 1700000000 demo_sample" by (simp add: time_near_def demo_sample_def)
  then have "reject_time_outliers [demo_sample] = ([demo_sample], Some 1700000000)"
    by (simp add: reject_time_outliers_def t)
  moreover have "min_sources demo_asset = 1" by (simp add: demo_asset_def)
  moreover have "reject_outliers_with_cap [demo_sample] s c = Done [demo_sample]" for s c
    by (simp add: reject_outliers_with_cap_def)
  ultimately show ?thesis by (simp add: rest_median_def weighted_median_def) (simp add: demo_sample_def)
qed

lemma demo_samples: "rest_samples demo_asset None (fetch_all_sources (snd (snd demo_inputs i))) st = ([demo_sample], st)"
proof -
  have "sane_sample demo_sample" "fix_volume demo_sample = demo_sample"
    by (simp_all add: sane_sample_def fix_volume_def demo_sample_def zero_lt_iff)
  moreover have "fetch_all_sources (snd (snd demo_inputs i)) = [demo_sample]"
    by (simp add: fetch_all_sources_def demo_inputs_def demo_sample_def)
  moreover have "\<not> has_usdt_quoted_source demo_asset" by (simp add: has_usdt_quoted_source_def demo_asset_def)
  ultimately show ?thesis by (simp add: rest_samples_def sanitize_def)
qed

lemma demo_cycle: "oracle_cycle id [demo_asset] demo_inputs initial_prices = Some (Done demo_prices)"
proof -
  have peg: "usdt_peg_ok (fst demo_inputs) USDT_PEG_MIN_SOURCES = Some None"
    by (simp add: usdt_peg_ok_def probe_usdc_mid_def read_books_filtered_def reference_now_ms_def USDT_PEG_MIN_SOURCES_def demo_inputs_def)
  have "cob_raw demo_asset m = Some (Done None)" for m
    by (simp add: cob_raw_def is_cob_asset_def asset_to_collector_symbol_def demo_asset_def)
  moreover have "rest_cached id demo_asset None (snd (snd demo_inputs i)) initial_prices
      = Done (Some (cached_price id demo_asset 10000000000 (Fin 100) 1 [demo_sample] 1700000000), None, initial_prices)" for i
  proof -
    have "ps_fallbacks initial_prices = 0" "initial_prices\<lparr>ps_fallbacks := 0\<rparr> = initial_prices" by (simp_all add: initial_prices_def)
    moreover have "symbol demo_asset \<noteq> USDT_USD_SYMBOL" by (simp add: demo_asset_def USDT_USD_SYMBOL_def)
    ultimately show ?thesis by (simp add: rest_cached_def demo_samples demo_rest demo_fixed Let_def)
  qed
  moreover have "store_price ''X/USD'' (cached_price id demo_asset 10000000000 (Fin 100) 1 [demo_sample] 1700000000) initial_prices = demo_prices"
    by (simp add: store_price_def initial_prices_def demo_prices_def demo_sample_def)
  moreover have "symbol demo_asset = ''X/USD''" by (simp add: demo_asset_def)
  ultimately have u: "update_asset id demo_asset m (snd (snd demo_inputs i)) (None, initial_prices) = Some (Done (None, demo_prices))" for m i
    by (simp add: update_asset_def cob_cached_def)
  have c: "cycle_assets [demo_asset] demo_inputs = [(demo_asset, fst (snd demo_inputs 0), snd (snd demo_inputs 0))]"
    by (simp add: cycle_assets_def ordered_assets_def)
  show ?thesis unfolding oracle_cycle_def peg c update_assets.simps u by simp
qed


theorem one_rate_per_cycle_witness:
  "\<exists>u st1. update_assets id (cycle_assets [demo_asset] demo_inputs) (u, st1) = Some (Done (u, demo_prices))"
proof -
  from one_rate_per_cycle[OF demo_cycle] obtain us rest u st1 where
    r: "cycle_assets [demo_asset] demo_inputs = us @ rest" "symbol ` fst ` set us \<subseteq> {USDT_USD_SYMBOL}"
      "update_assets id rest (u, st1) = Some (Done (u, demo_prices))" by (elim exE conjE)
  have "fst ` set us \<subseteq> {demo_asset}" using cycle_assets_set[of "[demo_asset]" demo_inputs] r(1) by auto
  then have "us = []" using r(2) by (cases us) (auto simp: demo_asset_def USDT_USD_SYMBOL_def)
  then show ?thesis using r by auto
qed

theorem oracle_cycle_returns_witness:
  "\<exists>st'. oracle_cycle id [demo_asset] demo_inputs initial_prices = Some (Done st')"
  by (rule oracle_cycle_returns) (simp_all add: demo_inputs_def table_bounded_def)

end
