(* ===== verification/Nsm.thy ===== *)
theory Nsm
  imports Attestation
begin

text \<open>
  The Nitro Security Module as the enclaves use it: \<open>crates/nitro-common/src/nsm.rs\<close>, the two
  generators on top of it (\<open>crates/nitro-common/src/rng.rs\<close> and \<open>src/nsm_rng.rs\<close>), and the seed
  loop of \<open>src/signer.rs\<close>.

  The device and its driver are a function of the request and the state of the device. A generator
  is its buffer with the two positions. The buffer loop is one partial function for both
  generators, with the refill operation as an argument; the locale \<open>slot_refill\<close> states what the
  loop needs of a refill, and both refills interpret it.
\<close>

section \<open>The device\<close>

datatype NsmRequest =
    GetRandom
  | AttestationRequest "bytes option" "bytes option" "bytes option"
  | DescribePCR "16 word"

datatype NsmResponse =
    RandomBytes bytes
  | AttestationDocument bytes
  | PcrData bool bytes
  | ErrorResponse
  | OtherResponse

type_synonym 's nsm = "NsmRequest \<Rightarrow> 's \<Rightarrow> NsmResponse \<times> 's"

datatype NsmError = InitFailed | EmptyBuffer | DeviceError | UnexpectedResponse | BadDocument

function get_random :: "'s nsm \<Rightarrow> nat \<Rightarrow> bytes \<Rightarrow> 's \<Rightarrow> (NsmError, bytes) res \<times> 's" where
  "get_random nsm n filled s =
     (if length filled < n then
        (case nsm GetRandom s of
           (RandomBytes random, s) \<Rightarrow>
             if random = [] then (Inl EmptyBuffer, s)
             else get_random nsm n (filled @ take (n - length filled) random) s
         | (ErrorResponse, s) \<Rightarrow> (Inl DeviceError, s)
         | (_, s) \<Rightarrow> (Inl UnexpectedResponse, s))
      else (Inr filled, s))"
  by pat_completeness auto
termination
proof (relation "measure (\<lambda>(nsm, n, filled, s). n - length filled)")
  fix n :: nat and filled random :: bytes
  assume "length filled < n" "random \<noteq> []"
  then have "n - length (filled @ take (n - length filled) random) < n - length filled"
    by (cases random) (auto simp: min_def)
  then show "((nsm, n, filled @ take (n - length filled) random, s'), nsm, n, filled, s)
      \<in> measure (\<lambda>(nsm, n, filled, s). n - length filled)" for nsm :: "'s nsm" and s s' by simp
qed simp

declare get_random.simps [simp del]

definition attestation :: "'s nsm \<Rightarrow> bytes option \<Rightarrow> bytes option \<Rightarrow> bytes option \<Rightarrow> 's \<Rightarrow> (NsmError, bytes) res \<times> 's" where
  "attestation nsm user_data nonce public_key s =
     (case nsm (AttestationRequest user_data nonce public_key) s of
        (AttestationDocument document, s) \<Rightarrow> (Inr document, s)
      | (ErrorResponse, s) \<Rightarrow> (Inl DeviceError, s)
      | (_, s) \<Rightarrow> (Inl UnexpectedResponse, s))"

definition now_unix_secs :: "nitro_crypto \<Rightarrow> 's nsm \<Rightarrow> 's \<Rightarrow> (NsmError, u64) res \<times> 's" where
  "now_unix_secs N nsm s =
     (case attestation nsm None None None s of
        (Inl e, s) \<Rightarrow> (Inl e, s)
      | (Inr doc, s) \<Rightarrow>
          (case parse_attestation_doc N doc of
             None \<Rightarrow> Inl BadDocument
           | Some d \<Rightarrow> Inr (doc_timestamp d div 1000), s))"

record PcrDescription =
  pcr_lock :: bool
  pcr_data :: bytes

definition describe_pcr :: "'s nsm \<Rightarrow> 16 word \<Rightarrow> 's \<Rightarrow> (NsmError, PcrDescription) res \<times> 's" where
  "describe_pcr nsm index s =
     (case nsm (DescribePCR index) s of
        (PcrData lock data, s) \<Rightarrow> (Inr \<lparr>pcr_lock = lock, pcr_data = data\<rparr>, s)
      | (ErrorResponse, s) \<Rightarrow> (Inl DeviceError, s)
      | (_, s) \<Rightarrow> (Inl UnexpectedResponse, s))"

definition nsm_random_seed :: "bool \<Rightarrow> 's nsm \<Rightarrow> 's \<Rightarrow> (NsmError, bytes) res \<times> 's" where
  "nsm_random_seed opened nsm s = (if \<not> opened then (Inl InitFailed, s) else get_random nsm 32 [] s)"

text \<open>The machine an enclave runs on: the module, whether opening it works, and the monotonic clock in milliseconds.\<close>

record 's machine =
  mc_nsm :: "'s nsm"
  mc_open :: "'s \<Rightarrow> bool \<times> 's"
  mc_now :: "'s \<Rightarrow> nat"

section \<open>Generators\<close>

definition REFILL_BUF :: nat where "REFILL_BUF = 256"

record NsmRng =
  rng_buf :: bytes
  rng_pos :: nat
  rng_end :: nat

definition NsmRng_new :: NsmRng where
  "NsmRng_new = \<lparr>rng_buf = replicate REFILL_BUF 0, rng_pos = 0, rng_end = 0\<rparr>"

definition refill :: "'s nsm \<Rightarrow> NsmRng \<Rightarrow> 's \<Rightarrow> (NsmError, NsmRng) res \<times> 's" where
  "refill nsm r s =
     (case get_random nsm REFILL_BUF [] s of
        (Inl e, s) \<Rightarrow> (Inl e, s)
      | (Inr slot, s) \<Rightarrow> (Inr (r\<lparr>rng_buf := slot, rng_pos := 0, rng_end := REFILL_BUF\<rparr>), s))"

definition oracle_refill :: "'s nsm \<Rightarrow> NsmRng \<Rightarrow> 's \<Rightarrow> (NsmError, NsmRng) res \<times> 's" where
  "oracle_refill nsm r s =
     (case nsm GetRandom s of
        (RandomBytes random, s) \<Rightarrow>
          if random = [] then (Inl EmptyBuffer, s)
          else let n = min (length random) (length (rng_buf r)) in
            (Inr (r\<lparr>rng_buf := take n random @ drop n (rng_buf r), rng_pos := 0, rng_end := n\<rparr>), s)
      | (ErrorResponse, s) \<Rightarrow> (Inl DeviceError, s)
      | (_, s) \<Rightarrow> (Inl UnexpectedResponse, s))"

partial_function (option) fill_loop ::
    "(NsmRng \<Rightarrow> 's \<Rightarrow> (NsmError, NsmRng) res \<times> 's) \<Rightarrow> nat \<Rightarrow> bytes \<Rightarrow> NsmRng \<Rightarrow> 's \<Rightarrow> ((NsmError, bytes) res \<times> NsmRng \<times> 's) option" where
  "fill_loop fresh n filled r s =
     (if length filled < n then
        (case (if rng_pos r \<ge> rng_end r then fresh r s else (Inr r, s)) of
           (Inl e, s) \<Rightarrow> Some (Inl e, r, s)
         | (Inr r, s) \<Rightarrow>
             let k = min (n - length filled) (rng_end r - rng_pos r) in
             fill_loop fresh n (filled @ take k (drop (rng_pos r) (rng_buf r))) (r\<lparr>rng_pos := rng_pos r + k\<rparr>) s)
      else Some (Inr filled, r, s))"

definition try_fill_bytes :: "'s nsm \<Rightarrow> nat \<Rightarrow> NsmRng \<Rightarrow> 's \<Rightarrow> ((NsmError, bytes) res \<times> NsmRng \<times> 's) option" where
  "try_fill_bytes nsm n r s = fill_loop (refill nsm) n [] r s"

definition oracle_try_fill_bytes :: "'s nsm \<Rightarrow> nat \<Rightarrow> NsmRng \<Rightarrow> 's \<Rightarrow> ((NsmError, bytes) res \<times> NsmRng \<times> 's) option" where
  "oracle_try_fill_bytes nsm n r s = fill_loop (oracle_refill nsm) n [] r s"

text \<open>\<open>fill_bytes\<close> panics, here \<open>None\<close>, when the device fails.\<close>

definition fill_bytes :: "'s nsm \<Rightarrow> nat \<Rightarrow> NsmRng \<Rightarrow> 's \<Rightarrow> (bytes option \<times> NsmRng \<times> 's) option" where
  "fill_bytes nsm n r s =
     map_option (\<lambda>(res, r, s). (case res of Inl _ \<Rightarrow> None | Inr b \<Rightarrow> Some b, r, s)) (try_fill_bytes nsm n r s)"

section \<open>Slots of device output\<close>

inductive drawn :: "('s \<Rightarrow> bytes \<Rightarrow> 's \<Rightarrow> bool) \<Rightarrow> 's \<Rightarrow> bytes list \<Rightarrow> 's \<Rightarrow> bool" for drew where
  drawn_Nil: "drawn drew s [] s"
| drawn_Cons: "drew s b s1 \<Longrightarrow> drawn drew s1 bs s' \<Longrightarrow> drawn drew s (b # bs) s'"

lemma drawn_append: "drawn drew s xs s1 \<Longrightarrow> drawn drew s1 ys s' \<Longrightarrow> drawn drew s (xs @ ys) s'"
  by (induction rule: drawn.induct) (auto intro: drawn.intros)

definition answered :: "'s nsm \<Rightarrow> 's \<Rightarrow> bytes \<Rightarrow> 's \<Rightarrow> bool" where
  "answered nsm s b s' \<longleftrightarrow> nsm GetRandom s = (RandomBytes b, s') \<and> b \<noteq> []"

definition unread :: "NsmRng \<Rightarrow> bytes" where
  "unread r = take (rng_end r - rng_pos r) (drop (rng_pos r) (rng_buf r))"

definition rng_ok :: "NsmRng \<Rightarrow> bool" where
  "rng_ok r \<longleftrightarrow> rng_end r \<le> length (rng_buf r)"

lemma rng_new [simp]: "rng_ok NsmRng_new" "unread NsmRng_new = []"
  by (simp_all add: rng_ok_def NsmRng_new_def unread_def)

lemma unread_take:
  assumes "rng_ok r" "k \<le> rng_end r - rng_pos r"
  shows "unread r = take k (drop (rng_pos r) (rng_buf r)) @ unread (r\<lparr>rng_pos := rng_pos r + k\<rparr>)"
    and "length (take k (drop (rng_pos r) (rng_buf r))) = k"
proof -
  let ?xs = "drop (rng_pos r) (rng_buf r)"
  have "take (k + (rng_end r - rng_pos r - k)) ?xs = take k ?xs @ take (rng_end r - rng_pos r - k) (drop k ?xs)"
    by (rule take_add)
  moreover have "k + (rng_end r - rng_pos r - k) = rng_end r - rng_pos r" using assms(2) by simp
  ultimately show "unread r = take k ?xs @ unread (r\<lparr>rng_pos := rng_pos r + k\<rparr>)"
    by (simp add: unread_def add.commute)
  show "length (take k ?xs) = k" using assms by (simp add: rng_ok_def)
qed

text \<open>The contract of a refill: on success it leaves one non-empty slot of fresh device output to read.\<close>

locale slot_refill =
  fixes fresh :: "NsmRng \<Rightarrow> 's \<Rightarrow> (NsmError, NsmRng) res \<times> 's"
    and drew :: "'s \<Rightarrow> bytes \<Rightarrow> 's \<Rightarrow> bool"
    and buf_ok :: "NsmRng \<Rightarrow> bool"
  assumes fresh_slot: "buf_ok r \<Longrightarrow> fresh r s = (Inr r', s') \<Longrightarrow> rng_ok r' \<and> rng_pos r' < rng_end r' \<and> drew s (unread r') s'"
    and fresh_ok: "buf_ok r \<Longrightarrow> fresh r s = (Inr r', s') \<Longrightarrow> buf_ok r'"
    and pos_ok: "buf_ok r \<Longrightarrow> buf_ok (r\<lparr>rng_pos := p\<rparr>)"
begin

lemma fill_loop_stream:
  "rng_ok r \<Longrightarrow> buf_ok r \<Longrightarrow> length filled \<le> n \<Longrightarrow>
   \<exists>res r' s'. fill_loop fresh n filled r s = Some (res, r', s') \<and> rng_ok r' \<and> buf_ok r'
     \<and> (\<forall>out. res = Inr out \<longrightarrow> length out = n
         \<and> (\<exists>slots. drawn drew s slots s' \<and> filled @ unread r @ concat slots = out @ unread r'))"
proof (induction "n - length filled" arbitrary: filled r s rule: less_induct)
  case less
  show ?case
  proof (cases "length filled < n")
    case False
    then have "fill_loop fresh n filled r s = Some (Inr filled, r, s)" by (subst fill_loop.simps) simp
    then show ?thesis using less.prems False drawn_Nil[of drew s] by (auto intro!: exI[of _ "[]"])
  next
    case True
    let ?q = "if rng_pos r \<ge> rng_end r then fresh r s else (Inr r, s)"
    show ?thesis
    proof (cases "fst ?q")
      case (Inl e)
      then have "fill_loop fresh n filled r s = Some (Inl e, r, snd ?q)"
        using True by (subst fill_loop.simps) (simp add: case_prod_beta)
      then show ?thesis using less.prems by auto
    next
      case (Inr r1)
      define s1 where "s1 = snd ?q"
      have q: "?q = (Inr r1, s1)" using Inr by (simp add: s1_def prod_eq_iff)
      have r1: "rng_ok r1 \<and> buf_ok r1 \<and> rng_pos r1 < rng_end r1
        \<and> (\<exists>pre. drawn drew s pre s1 \<and> unread r @ concat pre = unread r1)"
      proof (cases "rng_pos r \<ge> rng_end r")
        case True
        then have f: "fresh r s = (Inr r1, s1)" using q by simp
        have "drawn drew s [unread r1] s1"
          using fresh_slot[OF less.prems(2) f] by (blast intro: drawn_Cons drawn_Nil)
        moreover have "unread r = []" using True by (simp add: unread_def)
        ultimately show ?thesis using fresh_slot[OF less.prems(2) f] fresh_ok[OF less.prems(2) f] by force
      next
        case False
        then show ?thesis using q less.prems by (auto intro!: exI[of _ "[]"] drawn_Nil)
      qed
      define k where "k = min (n - length filled) (rng_end r1 - rng_pos r1)"
      let ?f = "filled @ take k (drop (rng_pos r1) (rng_buf r1))" and ?r = "r1\<lparr>rng_pos := rng_pos r1 + k\<rparr>"
      have step: "fill_loop fresh n filled r s = fill_loop fresh n ?f ?r s1"
        using True q by (subst fill_loop.simps) (simp add: k_def Let_def)
      have k: "0 < k" "k \<le> rng_end r1 - rng_pos r1" using True r1 by (auto simp: k_def)
      note u = unread_take[of r1 k, OF _ k(2)]
      have "k \<le> n - length filled" by (simp add: k_def)
      then have len: "length ?f = length filled + k" "length ?f \<le> n" using u(2) r1 True by simp_all
      have "rng_ok ?r" "buf_ok ?r" using r1 pos_ok by (auto simp: rng_ok_def)
      moreover have "n - length ?f < n - length filled" using True k(1) len(1) by simp
      ultimately obtain res r' s' where
        ih: "fill_loop fresh n ?f ?r s1 = Some (res, r', s')" "rng_ok r'" "buf_ok r'" and
        out: "\<forall>out. res = Inr out \<longrightarrow> length out = n
             \<and> (\<exists>slots. drawn drew s1 slots s' \<and> ?f @ unread ?r @ concat slots = out @ unread r')"
        using less.hyps[of ?f ?r s1] len(2) by blast
      obtain pre where pre: "drawn drew s pre s1" "unread r @ concat pre = unread r1" using r1 by blast
      have "\<exists>slots. drawn drew s slots s' \<and> filled @ unread r @ concat slots = out @ unread r'"
        if o: "drawn drew s1 slots s'" "?f @ unread ?r @ concat slots = out @ unread r'" for slots out
      proof -
        have "filled @ unread r @ concat (pre @ slots) = filled @ unread r1 @ concat slots" using pre(2) by simp
        also have "\<dots> = out @ unread r'" using u(1) r1 o(2) by simp
        finally show ?thesis using drawn_append[OF pre(1) o(1)] by blast
      qed
      then have "\<forall>out. res = Inr out \<longrightarrow> length out = n
          \<and> (\<exists>slots. drawn drew s slots s' \<and> filled @ unread r @ concat slots = out @ unread r')"
        using out by blast
      then show ?thesis using ih step by (intro exI[of _ res] exI[of _ r'] exI[of _ s']) simp
    qed
  qed
qed

end

section \<open>Both generators\<close>

lemma get_random_stream:
  "length filled \<le> n \<Longrightarrow> get_random nsm n filled s = (Inr out, s') \<Longrightarrow>
   length out = n \<and> (\<exists>rs. drawn (answered nsm) s rs s' \<and> out = take n (filled @ concat rs))"
proof (induction nsm n filled s rule: get_random.induct)
  case (1 nsm n filled s)
  show ?case
  proof (cases "length filled < n")
    case False
    then have "out = filled" "s' = s" "length filled = n" using 1(2,3) by (auto simp: get_random.simps[of nsm n filled s])
    then show ?thesis using drawn_Nil[of "answered nsm" s] by (intro conjI exI[of _ "[]"]) simp_all
  next
    case True
    then obtain random s1 where d: "nsm GetRandom s = (RandomBytes random, s1)" "random \<noteq> []"
      "get_random nsm n (filled @ take (n - length filled) random) s1 = (Inr out, s')"
      using 1(3) by (subst (asm) get_random.simps) (auto split: prod.splits NsmResponse.splits if_splits)
    have "length (filled @ take (n - length filled) random) \<le> n" using True by simp
    from 1(1)[OF True d(1)[symmetric] refl d(2) this d(3)] obtain rs where
      rs: "length out = n" "drawn (answered nsm) s1 rs s'" "out = take n ((filled @ take (n - length filled) random) @ concat rs)"
      by blast
    have "take n ((filled @ take (n - length filled) random) @ concat rs) = take n (filled @ concat (random # rs))"
      using True by (cases "length random \<le> n - length filled") auto
    moreover have "drawn (answered nsm) s (random # rs) s'"
      by (rule drawn_Cons[OF _ rs(2)]) (simp add: answered_def d)
    ultimately show ?thesis using rs by metis
  qed
qed

lemma drawn_mono: "drawn d s bs s' \<Longrightarrow> (\<And>s b s'. d s b s' \<Longrightarrow> e s b s') \<Longrightarrow> drawn e s bs s'"
  by (induction rule: drawn.induct) (auto intro: drawn.intros)

interpretation shared_rng: slot_refill "refill nsm" "\<lambda>s b s'. get_random nsm REFILL_BUF [] s = (Inr b, s')" "\<lambda>_. True" for nsm
proof
  fix r :: NsmRng and s r' s'
  assume "refill nsm r s = (Inr r', s')"
  then obtain slot where g: "get_random nsm REFILL_BUF [] s = (Inr slot, s')"
    and "r' = r\<lparr>rng_buf := slot, rng_pos := 0, rng_end := REFILL_BUF\<rparr>"
    by (auto simp: refill_def split: prod.splits sum.splits)
  moreover have "length slot = REFILL_BUF" using get_random_stream[OF _ g] by simp
  ultimately show "rng_ok r' \<and> rng_pos r' < rng_end r' \<and> get_random nsm REFILL_BUF [] s = (Inr (unread r'), s')"
    using g by (simp add: rng_ok_def unread_def REFILL_BUF_def)
qed simp_all

interpretation oracle_rng: slot_refill "oracle_refill nsm" "\<lambda>s b s'. \<exists>random. answered nsm s random s' \<and> b = take REFILL_BUF random"
  "\<lambda>r. length (rng_buf r) = REFILL_BUF" for nsm
proof
  fix r :: NsmRng and s r' s'
  assume l: "length (rng_buf r) = REFILL_BUF" and "oracle_refill nsm r s = (Inr r', s')"
  then obtain random where a: "answered nsm s random s'" and
    "r' = (let n = min (length random) (length (rng_buf r)) in r\<lparr>rng_buf := take n random @ drop n (rng_buf r), rng_pos := 0, rng_end := n\<rparr>)"
    by (auto simp: oracle_refill_def answered_def Let_def split: prod.splits NsmResponse.splits if_splits)
  then have r': "rng_ok r'" "rng_pos r' < rng_end r'" "unread r' = take REFILL_BUF random" "length (rng_buf r') = REFILL_BUF"
    using l by (auto simp: answered_def rng_ok_def unread_def Let_def REFILL_BUF_def min_def)
  then show "rng_ok r' \<and> rng_pos r' < rng_end r' \<and> (\<exists>random. answered nsm s random s' \<and> unread r' = take REFILL_BUF random)"
    using a by blast
  show "length (rng_buf r') = REFILL_BUF" by (rule r'(4))
qed simp



lemma seed_from_device:
  "nsm_random_seed opened nsm s = (Inr seed, s') \<Longrightarrow> opened \<and> length seed = 32 \<and> (\<exists>rs. drawn (answered nsm) s rs s' \<and> seed = take 32 (concat rs))"
  using get_random_stream[of "[]" 32 nsm s seed s'] by (auto simp: nsm_random_seed_def split: if_splits)

end
