(* ===== verification/Vsock.thy ===== *)
theory Vsock
  imports Prelude
begin

text \<open>
  \<open>crates/nitro-common/src/vsock.rs\<close>: length-prefixed frames, and reading one under a deadline.

  A byte stream that is already there is a list. A blocking socket is a record: what a read with a given
  buffer size and timeout returns, and the monotonic clock, in milliseconds. A read returns at
  most as many bytes as its buffer holds.
\<close>

section \<open>Frames\<close>

definition VSOCK_MAX_FRAME :: nat where "VSOCK_MAX_FRAME = 64 * 1024"

datatype FrameError =
    FrameTooLarge nat
  | UnexpectedEof
  | DeadlineExceeded
  | ClosedMidRead
  | ReadTimedOut
  | ReadFailed

definition vsock_write_frame :: "bytes \<Rightarrow> nat \<Rightarrow> (FrameError, bytes) res" where
  "vsock_write_frame payload max_frame =
     (if length payload > max_frame then Inl (FrameTooLarge (length payload))
      else Inr (be_word 4 (length payload) @ payload))"

definition cursor_read_exact :: "nat \<Rightarrow> bytes \<Rightarrow> (FrameError, bytes \<times> bytes) res" where
  "cursor_read_exact n bs = (if length bs < n then Inl UnexpectedEof else Inr (take n bs, drop n bs))"

definition vsock_read_frame :: "bytes \<Rightarrow> nat \<Rightarrow> (FrameError, bytes \<times> bytes) res" where
  "vsock_read_frame r max_frame =
     (case cursor_read_exact 4 r of
        Inl e \<Rightarrow> Inl e
      | Inr (len_buf, r) \<Rightarrow>
          let len = be_nat len_buf in
          if len > max_frame then Inl (FrameTooLarge len) else cursor_read_exact len r)"

section \<open>Deadlines\<close>

datatype ReadResult = Got bytes | TimedOut | IoError

record 's socket =
  sock_read :: "nat \<Rightarrow> nat \<Rightarrow> 's \<Rightarrow> ReadResult \<times> 's"
  sock_now :: "'s \<Rightarrow> nat"

function read_exact_deadline :: "'s socket \<Rightarrow> nat \<Rightarrow> nat \<Rightarrow> bytes \<Rightarrow> 's \<Rightarrow> (FrameError, bytes) res \<times> 's" where
  "read_exact_deadline S deadline n filled s =
     (if length filled < n then
        let now = sock_now S s in
        if now \<ge> deadline then (Inl DeadlineExceeded, s)
        else (case sock_read S (n - length filled) (deadline - now) s of
                (Got bs, s) \<Rightarrow>
                  let bs = take (n - length filled) bs in
                  if bs = [] then (Inl ClosedMidRead, s)
                  else read_exact_deadline S deadline n (filled @ bs) s
              | (TimedOut, s) \<Rightarrow> (Inl ReadTimedOut, s)
              | (IoError, s) \<Rightarrow> (Inl ReadFailed, s))
      else (Inr filled, s))"
  by pat_completeness auto
termination
proof (relation "measure (\<lambda>(S, deadline, n, filled, s). n - length filled)")
  fix n :: nat and filled bs :: bytes
  assume "length filled < n" "bs \<noteq> []"
  then have "n - length (filled @ bs) < n - length filled" by (cases bs) auto
  then show "((S, deadline, n, filled @ bs, s'), S, deadline, n, filled, s) \<in> measure (\<lambda>(S, deadline, n, filled, s). n - length filled)"
    for S :: "'s socket" and deadline :: nat and s s' by simp
qed simp

declare read_exact_deadline.simps [simp del]

definition read_frame_deadline :: "'s socket \<Rightarrow> nat \<Rightarrow> nat \<Rightarrow> 's \<Rightarrow> (FrameError, bytes) res \<times> 's" where
  "read_frame_deadline S max_frame deadline s =
     (case read_exact_deadline S deadline 4 [] s of
        (Inl e, s) \<Rightarrow> (Inl e, s)
      | (Inr len_buf, s) \<Rightarrow>
          let len = be_nat len_buf in
          if len > max_frame then (Inl (FrameTooLarge len), s)
          else read_exact_deadline S deadline len [] s)"

section \<open>Properties\<close>

text \<open>
  Frames round-trip. Any payload within the limit is written, and read back unchanged with whatever follows it on the
  stream left in place; a longer one is refused by the writer, and a declared length above the limit by the reader,
  before anything of the body is read.
\<close>

theorem vsock_frame_roundtrip:
  assumes "max_frame < 2 ^ 32"
  shows "(length p \<le> max_frame \<longrightarrow> (\<exists>w. vsock_write_frame p max_frame = Inr w \<and> vsock_read_frame (w @ rest) max_frame = Inr (p, rest)))
    \<and> (max_frame < length p \<longrightarrow> vsock_write_frame p max_frame = Inl (FrameTooLarge (length p)))
    \<and> (4 \<le> length r \<longrightarrow> max_frame < be_nat (take 4 r) \<longrightarrow> vsock_read_frame r max_frame = Inl (FrameTooLarge (be_nat (take 4 r))))"
proof -
  have "be_nat (be_word 4 (length p)) = length p" if "length p \<le> max_frame"
    using that assms by (intro be_nat_be_word) simp
  then show ?thesis
    by (auto simp: vsock_write_frame_def vsock_read_frame_def cursor_read_exact_def Let_def)
qed

theorem vsock_frame_roundtrip_witness:
  "\<exists>w. vsock_write_frame [1, 2, 3] VSOCK_MAX_FRAME = Inr w \<and> vsock_read_frame (w @ [9]) VSOCK_MAX_FRAME = Inr ([1, 2, 3], [9])"
  using vsock_frame_roundtrip[of VSOCK_MAX_FRAME "[1, 2, 3]" "[9]"] by (simp add: VSOCK_MAX_FRAME_def)

text \<open>What the operating system documents of a read timeout: the call returns before it has run out.\<close>

definition respects_timeout :: "'s socket \<Rightarrow> bool" where
  "respects_timeout S \<longleftrightarrow> (\<forall>m t s r s'. sock_read S m t s = (r, s') \<longrightarrow> sock_now S s \<le> sock_now S s' \<and> sock_now S s' \<le> sock_now S s + t)"

lemma read_exact_deadline_bound:
  "respects_timeout S \<Longrightarrow> read_exact_deadline S deadline n filled s = (r, s') \<Longrightarrow>
    sock_now S s' \<le> max (sock_now S s) deadline \<and> (\<forall>out. r = Inr out \<longrightarrow> length filled \<le> n \<longrightarrow> length out = n)"
proof (induction S deadline n filled s arbitrary: r rule: read_exact_deadline.induct)
  case (1 S deadline n filled s)
  show ?case
  proof (cases "length filled < n \<and> sock_now S s < deadline")
    case False
    then show ?thesis using 1(3) by (subst (asm) read_exact_deadline.simps) (auto simp: Let_def split: if_splits)
  next
    case True
    obtain q s1 where q: "sock_read S (n - length filled) (deadline - sock_now S s) s = (q, s1)"
      by (cases "sock_read S (n - length filled) (deadline - sock_now S s) s")
    have t: "sock_now S s1 \<le> deadline" using 1(2) q True unfolding respects_timeout_def by fastforce
    show ?thesis
    proof (cases "\<exists>bs. q = Got bs \<and> take (n - length filled) bs \<noteq> []")
      case False
      then show ?thesis using 1(3) True q t
        by (subst (asm) read_exact_deadline.simps) (auto simp: Let_def split: ReadResult.splits if_splits)
    next
      case got: True
      then obtain bs where bs: "q = Got bs" "take (n - length filled) bs \<noteq> []" by blast
      have r: "read_exact_deadline S deadline n (filled @ take (n - length filled) bs) s1 = (r, s')"
        using 1(3) True q bs by (subst (asm) read_exact_deadline.simps) (simp add: Let_def)
      have "sock_now S s' \<le> max (sock_now S s1) deadline
          \<and> (\<forall>out. r = Inr out \<longrightarrow> length (filled @ take (n - length filled) bs) \<le> n \<longrightarrow> length out = n)"
        by (rule 1(1)[OF _ refl _ q[symmetric] bs(1) refl bs(2) 1(2) r]) (use True in auto)
      then show ?thesis using t True by (auto simp: max_def)
    qed
  qed
qed

text \<open>
  C34. A slow client cannot hold a connection open. Whatever bytes trickle in and however often, reading a frame is over by the
  deadline, and a frame that is returned is within the size limit.
\<close>

theorem read_frame_deadline_holds:
  assumes "respects_timeout S" "read_frame_deadline S max_frame deadline s = (r, s')"
  shows "sock_now S s' \<le> max (sock_now S s) deadline \<and> (\<forall>p. r = Inr p \<longrightarrow> length p \<le> max_frame)"
proof -
  obtain q s1 where q: "read_exact_deadline S deadline 4 [] s = (q, s1)" by (cases "read_exact_deadline S deadline 4 [] s")
  note b = read_exact_deadline_bound[OF assms(1) q]
  show ?thesis
  proof (cases "\<exists>len_buf. q = Inr len_buf \<and> be_nat len_buf \<le> max_frame")
    case False
    then show ?thesis using assms(2) q b by (auto simp: read_frame_deadline_def Let_def split: sum.splits if_splits)
  next
    case True
    then obtain len_buf where l: "q = Inr len_buf" "be_nat len_buf \<le> max_frame" by blast
    then have "read_exact_deadline S deadline (be_nat len_buf) [] s1 = (r, s')"
      using assms(2) q by (simp add: read_frame_deadline_def)
    from read_exact_deadline_bound[OF assms(1) this] show ?thesis using b l by auto
  qed
qed

text \<open>A client that sends one byte every seven milliseconds.\<close>

definition drip :: "nat socket" where
  "drip = \<lparr>sock_read = (\<lambda>m t s. if t < 7 then (TimedOut, s + t) else (Got [0], s + 7)), sock_now = id\<rparr>"

theorem read_frame_deadline_holds_witness:
  "snd (read_frame_deadline drip VSOCK_MAX_FRAME 20 3) \<le> 20"
proof -
  have "respects_timeout drip" by (auto simp: respects_timeout_def drip_def split: if_splits)
  from read_frame_deadline_holds[OF this, of VSOCK_MAX_FRAME 20 3] show ?thesis
    by (cases "read_frame_deadline drip VSOCK_MAX_FRAME 20 3") (simp add: drip_def)
qed

end
