(* ===== verification/Std_Text.thy ===== *)
theory Std_Text
  imports Chain "HOL-Library.Sublist"
begin

text \<open>
  What the sources use of Rust's standard library on text: trimming, splitting, numbers, ASCII
  classes, and the parsers and printers of socket addresses. A string is its UTF-8 bytes, one
  \<open>char\<close> per byte. A parser takes the rest of the input and gives a value and what is left.
\<close>

section \<open>Trimming and splitting\<close>

text \<open>The UTF-8 encodings of the characters with the property White\_Space.\<close>

definition WHITE_SPACE :: "string list" where
  "WHITE_SPACE = map (map char_of)
     ([[9], [10], [11], [12], [13], [32], [0xC2, 0x85], [0xC2, 0xA0], [0xE1, 0x9A, 0x80]]
      @ map (\<lambda>n. [0xE2, 0x80, n]) ([0x80..<0x8B] @ [0xA8, 0xA9, 0xAF])
      @ [[0xE2, 0x81, 0x9F], [0xE3, 0x80, 0x80 :: nat]])"

lemma white_space_nonempty: "w \<in> set WHITE_SPACE \<Longrightarrow> w \<noteq> []"
  by (auto simp: WHITE_SPACE_def)

function trim_start :: "string \<Rightarrow> string" where
  "trim_start s = (case find (\<lambda>w. prefix w s) WHITE_SPACE of Some w \<Rightarrow> trim_start (drop (length w) s) | None \<Rightarrow> s)"
  by pat_completeness auto
termination
  by (relation "measure length") (auto simp: find_Some_iff prefix_def dest!: nth_mem white_space_nonempty)

function trim_end :: "string \<Rightarrow> string" where
  "trim_end s = (case find (\<lambda>w. suffix w s) WHITE_SPACE of Some w \<Rightarrow> trim_end (take (length s - length w) s) | None \<Rightarrow> s)"
  by pat_completeness auto
termination
  by (relation "measure length") (auto simp: find_Some_iff suffix_def dest!: nth_mem white_space_nonempty)

declare trim_start.simps [simp del] trim_end.simps [simp del]

definition trim :: "string \<Rightarrow> string" where
  "trim s = trim_end (trim_start s)"

fun split_on :: "char \<Rightarrow> string \<Rightarrow> string list" where
  "split_on c [] = [[]]"
| "split_on c (x # xs) = (if x = c then [] # split_on c xs else (x # hd (split_on c xs)) # tl (split_on c xs))"

definition split_once :: "char \<Rightarrow> string \<Rightarrow> (string \<times> string) option" where
  "split_once c s = (if c \<in> set s then Some (takeWhile (\<lambda>x. x \<noteq> c) s, tl (dropWhile (\<lambda>x. x \<noteq> c) s)) else None)"

definition strip_suffix :: "string \<Rightarrow> string \<Rightarrow> string option" where
  "strip_suffix suf s = (if suffix suf s then Some (take (length s - length suf) s) else None)"

text \<open>\<open>trim_start_matches("0x")\<close>\<close>

fun trim_0x :: "string \<Rightarrow> string" where
  "trim_0x (a # b # s) = (if a = CHR ''0'' \<and> b = CHR ''x'' then trim_0x s else a # b # s)"
| "trim_0x s = s"

text \<open>The non-empty trimmed entries of a comma-separated list.\<close>

definition comma_entries :: "string \<Rightarrow> string list" where
  "comma_entries s = filter (\<lambda>e. e \<noteq> []) (map trim (split_on (CHR '','') s))"

section \<open>ASCII classes\<close>

definition is_ascii :: "char \<Rightarrow> bool" where
  "is_ascii c \<longleftrightarrow> (of_char c :: nat) < 128"

definition is_ascii_whitespace :: "char \<Rightarrow> bool" where
  "is_ascii_whitespace c \<longleftrightarrow> (of_char c :: nat) \<in> {9, 10, 12, 13, 32}"

definition is_ascii_control :: "char \<Rightarrow> bool" where
  "is_ascii_control c \<longleftrightarrow> (of_char c :: nat) < 32 \<or> (of_char c :: nat) = 127"

definition is_ascii_digit :: "char \<Rightarrow> bool" where
  "is_ascii_digit c \<longleftrightarrow> 48 \<le> (of_char c :: nat) \<and> (of_char c :: nat) \<le> 57"

definition is_ascii_lower :: "char \<Rightarrow> bool" where
  "is_ascii_lower c \<longleftrightarrow> 97 \<le> (of_char c :: nat) \<and> (of_char c :: nat) \<le> 122"

definition is_ascii_upper :: "char \<Rightarrow> bool" where
  "is_ascii_upper c \<longleftrightarrow> 65 \<le> (of_char c :: nat) \<and> (of_char c :: nat) \<le> 90"

definition is_ascii_alphanumeric :: "char \<Rightarrow> bool" where
  "is_ascii_alphanumeric c \<longleftrightarrow> is_ascii_digit c \<or> is_ascii_lower c \<or> is_ascii_upper c"

definition ascii_lower :: "char \<Rightarrow> char" where
  "ascii_lower c = (if is_ascii_upper c then char_of ((of_char c :: nat) + 32) else c)"

definition to_ascii_lowercase :: "string \<Rightarrow> string" where
  "to_ascii_lowercase s = map ascii_lower s"

section \<open>Numbers\<close>

definition to_digit :: "nat \<Rightarrow> char \<Rightarrow> nat option" where
  "to_digit radix c = (case hex_value c of Some d \<Rightarrow> if d < radix then Some d else None | None \<Rightarrow> None)"

definition digits_value :: "nat \<Rightarrow> string \<Rightarrow> nat" where
  "digits_value radix ds = foldl (\<lambda>n c. n * radix + the (to_digit radix c)) 0 ds"

text \<open>\<open>from_str_radix\<close> of an unsigned type whose values are below \<open>limit\<close>.\<close>

definition parse_uint :: "nat \<Rightarrow> nat \<Rightarrow> string \<Rightarrow> nat option" where
  "parse_uint radix limit s =
     (let ds = (case s of [] \<Rightarrow> [] | c # r \<Rightarrow> if c = CHR ''+'' then r else s)
      in if ds = [] \<or> list_ex (\<lambda>c. to_digit radix c = None) ds \<or> digits_value radix ds \<ge> limit then None
         else Some (digits_value radix ds))"

fun dec_of_nat :: "nat \<Rightarrow> string" where
  "dec_of_nat n = (if n < 10 then [hex_digit n] else dec_of_nat (n div 10) @ [hex_digit (n mod 10)])"

declare dec_of_nat.simps [simp del]

section \<open>Socket addresses\<close>

datatype IpAddr = V4 "nat list" | V6 "nat list"

datatype SocketAddr = SockV4 "nat list" nat | SockV6 "nat list" nat nat

definition read_number :: "nat \<Rightarrow> nat option \<Rightarrow> bool \<Rightarrow> nat \<Rightarrow> string \<Rightarrow> (nat \<times> string) option" where
  "read_number radix max_digits allow_zero_prefix limit s =
     (let ds = takeWhile (\<lambda>c. to_digit radix c \<noteq> None) s; n = digits_value radix ds
      in if ds = [] \<or> n \<ge> limit \<or> (case max_digits of Some m \<Rightarrow> length ds > m | None \<Rightarrow> False)
            \<or> \<not> allow_zero_prefix \<and> hd ds = CHR ''0'' \<and> length ds > 1
         then None else Some (n, drop (length ds) s))"

fun read_given_char :: "char \<Rightarrow> string \<Rightarrow> string option" where
  "read_given_char c [] = None"
| "read_given_char c (x # s) = (if x = c then Some s else None)"

definition read_separator :: "char \<Rightarrow> bool \<Rightarrow> (string \<Rightarrow> ('a \<times> string) option) \<Rightarrow> string \<Rightarrow> ('a \<times> string) option" where
  "read_separator sep leading inner s =
     (if leading then inner s else Option.bind (read_given_char sep s) inner)"

fun read_octets :: "nat \<Rightarrow> bool \<Rightarrow> string \<Rightarrow> (nat list \<times> string) option" where
  "read_octets 0 leading s = Some ([], s)"
| "read_octets (Suc k) leading s =
     (case read_separator (CHR ''.'') leading (read_number 10 (Some 3) False 256) s of
        None \<Rightarrow> None
      | Some (b, s) \<Rightarrow> map_option (\<lambda>(bs, s). (b # bs, s)) (read_octets k False s))"

definition read_ipv4_addr :: "string \<Rightarrow> (nat list \<times> string) option" where
  "read_ipv4_addr s = read_octets 4 True s"

fun read_groups :: "nat \<Rightarrow> bool \<Rightarrow> string \<Rightarrow> nat list \<times> bool \<times> string" where
  "read_groups 0 leading s = ([], False, s)"
| "read_groups (Suc k) leading s =
     (case (if k \<ge> 1 then read_separator (CHR '':'') leading read_ipv4_addr s else None) of
        Some (v4, s) \<Rightarrow> ([v4 ! 0 * 256 + v4 ! 1, v4 ! 2 * 256 + v4 ! 3], True, s)
      | None \<Rightarrow>
          (case read_separator (CHR '':'') leading (read_number 16 (Some 4) True 65536) s of
             Some (g, s) \<Rightarrow> (case read_groups k False s of (gs, ipv4, s) \<Rightarrow> (g # gs, ipv4, s))
           | None \<Rightarrow> ([], False, s)))"

definition read_ipv6_addr :: "string \<Rightarrow> (nat list \<times> string) option" where
  "read_ipv6_addr s =
     (case read_groups 8 True s of (head, head_ipv4, s) \<Rightarrow>
      if length head = 8 then Some (head, s)
      else if head_ipv4 then None
      else case Option.bind (read_given_char (CHR '':'') s) (read_given_char (CHR '':'')) of
             None \<Rightarrow> None
           | Some s \<Rightarrow>
               (case read_groups (8 - (length head + 1)) True s of (tail, _, s) \<Rightarrow>
                  Some (head @ replicate (8 - length head - length tail) 0 @ tail, s)))"

definition read_port :: "string \<Rightarrow> (nat \<times> string) option" where
  "read_port s = Option.bind (read_given_char (CHR '':'') s) (read_number 10 None True (2 ^ 16))"

definition read_scope_id :: "string \<Rightarrow> nat \<times> string" where
  "read_scope_id s =
     (case Option.bind (read_given_char (CHR 0x25) s) (read_number 10 None True (2 ^ 32)) of
        Some (n, s) \<Rightarrow> (n, s)
      | None \<Rightarrow> (0, s))"

definition read_socket_addr_v4 :: "string \<Rightarrow> (SocketAddr \<times> string) option" where
  "read_socket_addr_v4 s =
     (case read_ipv4_addr s of
        None \<Rightarrow> None
      | Some (ip, s) \<Rightarrow> map_option (\<lambda>(p, s). (SockV4 ip p, s)) (read_port s))"

definition read_socket_addr_v6 :: "string \<Rightarrow> (SocketAddr \<times> string) option" where
  "read_socket_addr_v6 s =
     (case Option.bind (read_given_char (CHR 0x5B) s) read_ipv6_addr of
        None \<Rightarrow> None
      | Some (ip, s) \<Rightarrow>
          (case read_scope_id s of (scope, s) \<Rightarrow>
           case Option.bind (read_given_char (CHR 0x5D) s) read_port of
             None \<Rightarrow> None
           | Some (p, s) \<Rightarrow> Some (SockV6 ip scope p, s)))"

definition whole :: "(string \<Rightarrow> ('a \<times> string) option) \<Rightarrow> string \<Rightarrow> 'a option" where
  "whole p s = (case p s of Some (v, []) \<Rightarrow> Some v | _ \<Rightarrow> None)"

definition parse_socket_addr :: "string \<Rightarrow> SocketAddr option" where
  "parse_socket_addr s =
     whole (\<lambda>s. case read_socket_addr_v4 s of Some r \<Rightarrow> Some r | None \<Rightarrow> read_socket_addr_v6 s) s"

definition parse_ip_addr :: "string \<Rightarrow> IpAddr option" where
  "parse_ip_addr s =
     whole (\<lambda>s. case read_ipv4_addr s of
                  Some (ip, s) \<Rightarrow> Some (V4 ip, s)
                | None \<Rightarrow> map_option (\<lambda>(ip, s). (V6 ip, s)) (read_ipv6_addr s)) s"

definition parse_ipv6_addr :: "string \<Rightarrow> nat list option" where
  "parse_ipv6_addr s = whole read_ipv6_addr s"

fun join :: "string \<Rightarrow> string list \<Rightarrow> string" where
  "join sep [] = []"
| "join sep [w] = w"
| "join sep (w # v # ws) = w @ sep @ join sep (v # ws)"

definition ipv4_to_string :: "nat list \<Rightarrow> string" where
  "ipv4_to_string ip = join ''.'' (map dec_of_nat ip)"

fun zero_span :: "nat \<times> nat \<Rightarrow> nat \<times> nat \<Rightarrow> nat \<Rightarrow> nat list \<Rightarrow> nat \<times> nat" where
  "zero_span longest current i [] = longest"
| "zero_span longest current i (g # gs) =
     (if g = 0 then
        let current = (if snd current = 0 then (i, 1) else (fst current, snd current + 1))
        in zero_span (if snd current > snd longest then current else longest) current (i + 1) gs
      else zero_span longest (0, 0) (i + 1) gs)"

definition groups_to_string :: "nat list \<Rightarrow> string" where
  "groups_to_string gs = join '':'' (map hex_of_nat gs)"

definition ipv6_to_string :: "nat list \<Rightarrow> string" where
  "ipv6_to_string gs =
     (if take 6 gs = [0, 0, 0, 0, 0, 0xFFFF]
      then ''::ffff:'' @ ipv4_to_string [gs ! 6 div 256, gs ! 6 mod 256, gs ! 7 div 256, gs ! 7 mod 256]
      else case zero_span (0, 0) (0, 0) 0 gs of (start, len) \<Rightarrow>
        if len > 1 then groups_to_string (take start gs) @ ''::'' @ groups_to_string (drop (start + len) gs)
        else groups_to_string gs)"

fun socket_addr_to_string :: "SocketAddr \<Rightarrow> string" where
  "socket_addr_to_string (SockV4 ip p) = ipv4_to_string ip @ '':'' @ dec_of_nat p"
| "socket_addr_to_string (SockV6 ip scope p) =
     ''['' @ ipv6_to_string ip @ (if scope = 0 then [] else [CHR 0x25] @ dec_of_nat scope) @ '']:'' @ dec_of_nat p"

fun socket_port :: "SocketAddr \<Rightarrow> nat" where
  "socket_port (SockV4 ip p) = p"
| "socket_port (SockV6 ip scope p) = p"

fun socket_addr_new :: "IpAddr \<Rightarrow> nat \<Rightarrow> SocketAddr" where
  "socket_addr_new (V4 ip) p = SockV4 ip p"
| "socket_addr_new (V6 ip) p = SockV6 ip 0 p"

section \<open>What the printers print\<close>

lemma hex_digit_class: "d < 16 \<Longrightarrow> is_ascii_digit (hex_digit d) \<or> is_ascii_lower (hex_digit d)"
  by (auto simp: hex_digit_def is_ascii_digit_def is_ascii_lower_def)

lemma dec_digit_class: "d < 10 \<Longrightarrow> is_ascii_digit (hex_digit d)"
  by (auto simp: hex_digit_def is_ascii_digit_def)

lemma dec_of_nat_digits: "c \<in> set (dec_of_nat n) \<Longrightarrow> is_ascii_digit c"
  by (induction n rule: dec_of_nat.induct) (subst (asm) (2) dec_of_nat.simps, auto simp: dec_digit_class split: if_splits)

lemma dec_of_nat_nonempty [simp]: "dec_of_nat n \<noteq> []"
  by (subst dec_of_nat.simps) simp

lemma hex_of_nat_chars: "c \<in> set (hex_of_nat n) \<Longrightarrow> is_ascii_digit c \<or> is_ascii_lower c"
proof (induction n rule: hex_of_nat.induct)
  case (1 n)
  then show ?case using hex_digit_class[of n] hex_digit_class[of "n mod 16"] by (subst (asm) (2) hex_of_nat.simps) (auto split: if_splits)
qed

lemma set_join: "set (join sep ws) \<subseteq> set sep \<union> \<Union> (set ` set ws)"
  by (induction sep ws rule: join.induct) auto

lemma ipv4_to_string_chars: "c \<in> set (ipv4_to_string ip) \<Longrightarrow> is_ascii_digit c \<or> c = CHR ''.''"
  using set_join[of "''.''" "map dec_of_nat ip"] dec_of_nat_digits by (auto simp: ipv4_to_string_def)

lemma groups_to_string_chars: "c \<in> set (groups_to_string gs) \<Longrightarrow> is_ascii_digit c \<or> is_ascii_lower c \<or> c = CHR '':''"
  using set_join[of "'':''" "map hex_of_nat gs"] hex_of_nat_chars by (fastforce simp: groups_to_string_def)

lemma ipv6_to_string_chars:
  "c \<in> set (ipv6_to_string gs) \<Longrightarrow> is_ascii_digit c \<or> is_ascii_lower c \<or> c = CHR '':'' \<or> c = CHR ''.''"
  using groups_to_string_chars[of c] ipv4_to_string_chars[of c]
  by (auto simp: ipv6_to_string_def is_ascii_lower_def split: if_splits prod.splits)

lemma socket_addr_to_string_chars:
  "c \<in> set (socket_addr_to_string a) \<Longrightarrow>
   is_ascii_digit c \<or> is_ascii_lower c \<or> c \<in> {CHR '':'', CHR ''.'', CHR 0x5B, CHR 0x5D, CHR 0x25}"
  using ipv6_to_string_chars[of c] ipv4_to_string_chars[of c] dec_of_nat_digits[of c]
  by (cases a) (auto split: if_splits)

section \<open>Trimming what has no white space\<close>

definition printable :: "char \<Rightarrow> bool" where
  "printable c \<longleftrightarrow> 33 \<le> (of_char c :: nat) \<and> (of_char c :: nat) < 127"

lemma white_space_ends: "w \<in> set WHITE_SPACE \<Longrightarrow> \<not> printable (hd w) \<and> \<not> printable (last w)"
  by (auto simp: WHITE_SPACE_def printable_def upt_rec)

lemma trim_printable:
  assumes "s \<noteq> []" "printable (hd s)" "printable (last s)"
  shows "trim s = s"
proof -
  have "find (\<lambda>w. prefix w s) WHITE_SPACE = None"
  proof -
    have "\<not> prefix w s" if w: "w \<in> set WHITE_SPACE" for w
      using white_space_nonempty[OF w] white_space_ends[OF w] assms(2) by (cases w; cases s) auto
    then show ?thesis by (simp add: find_None_iff)
  qed
  then have t: "trim_start s = s" by (subst trim_start.simps) simp
  have "find (\<lambda>w. suffix w s) WHITE_SPACE = None"
  proof -
    have "\<not> suffix w s" if w: "w \<in> set WHITE_SPACE" for w
      using white_space_nonempty[OF w] white_space_ends[OF w] assms(3) by (auto simp: suffix_def)
    then show ?thesis by (simp add: find_None_iff)
  qed
  then have "trim_end s = s" by (subst trim_end.simps) simp
  with t show ?thesis by (simp add: trim_def)
qed

end
