(* ===== verification/Price_Server.thy ===== *)
theory Price_Server
  imports Oracle Signatures Nsm Vsock Std_Text
begin

text \<open>
  \<open>src/signer.rs\<close> and \<open>src/price_server.rs\<close>: the signer of price updates and the request handler
  that signs stored prices on demand.

  Curve, hash and codec are the records of the earlier theories; JSON is a pair of functions. The
  machine the server runs on is a record: the security module, whether opening it works, and the
  monotonic clock in milliseconds. Error texts of the curve library are a parameter.
\<close>

section \<open>Text\<close>

definition hex_encode :: "bytes \<Rightarrow> string" where
  "hex_encode bs = concat (map (\<lambda>b. [hex_digit (unat b div 16), hex_digit (unat b mod 16)]) bs)"

definition hex_0x :: "bytes \<Rightarrow> string" where
  "hex_0x bs = ''0x'' @ hex_encode bs"

text \<open>\<open>{:.8}\<close>: the exact value rounded to eight decimals, ties to even.\<close>

definition fixed8 :: "rat \<Rightarrow> string" where
  "fixed8 q =
     (let n = nat (rne (q * 10 ^ 8)); frac = dec_of_nat (n mod 10 ^ 8)
      in dec_of_nat (n div 10 ^ 8) @ ''.'' @ replicate (8 - length frac) (CHR ''0'') @ frac)"

fun format8 :: "f64 \<Rightarrow> string" where
  "format8 NaN = ''NaN''"
| "format8 PInf = ''inf''"
| "format8 NInf = ''-inf''"
| "format8 NZero = ''-'' @ fixed8 0"
| "format8 (Fin q) = (if q < 0 then ''-'' @ fixed8 (- q) else fixed8 q)"

section \<open>The signer\<close>

datatype 'k OracleSigner =
    MockSigner (sg_key: 'k) (sg_address: address)
  | EnclaveSigner (sg_key: 'k) (sg_address: address) (sg_pubkey_bytes: bytes)

definition eip191_prefix :: bytes where
  "eip191_prefix = 25 # string_bytes ''Ethereum Signed Message:'' @ 10 # string_bytes ''32''"

definition sign_eip191 :: "('g, 'v, 'k) ecdsa \<Rightarrow> string \<Rightarrow> 'k \<Rightarrow> bytes \<Rightarrow> (string, bytes) res" where
  "sign_eip191 E err signing_key digest =
     (case sign_prehash_recoverable E signing_key (keccak E (eip191_prefix @ digest)) of
        None \<Rightarrow> Inl (''signing failed: '' @ err)
      | Some (signature, rec) \<Rightarrow> Inr (sig_to_bytes E signature @ [rec + 27]))"

definition derive_address :: "('g, 'v, 'k) ecdsa \<Rightarrow> 'k \<Rightarrow> bytes \<times> address" where
  "derive_address E signing_key =
     (let pubkey = encoded_point E (verifying_key E signing_key)
      in (pubkey, drop 12 (keccak E (drop 1 pubkey))))"

definition sign_digest :: "('g, 'v, 'k) ecdsa \<Rightarrow> string \<Rightarrow> 'k OracleSigner \<Rightarrow> bytes \<Rightarrow> (string, bytes \<times> address) res" where
  "sign_digest E err signer digest =
     (case sign_eip191 E err (sg_key signer) digest of
        Inl e \<Rightarrow> Inl e
      | Inr sig \<Rightarrow> Inr (sig, sg_address signer))"

definition price_payload :: "bytes \<Rightarrow> u256 \<Rightarrow> u64 \<Rightarrow> u8 \<Rightarrow> bytes \<Rightarrow> bytes" where
  "price_payload aid p ts n hash = aid @ be_word 32 (unat p) @ be_word 32 (unat ts) @ [n] @ hash"

definition sign_price_update ::
    "('g, 'v, 'k) ecdsa \<Rightarrow> string \<Rightarrow> 'k OracleSigner \<Rightarrow> bytes \<Rightarrow> u256 \<Rightarrow> u64 \<Rightarrow> u8 \<Rightarrow> bytes \<Rightarrow> (string, bytes \<times> address) res" where
  "sign_price_update E err signer aid p ts n hash =
     sign_digest E err signer (keccak E (price_payload aid p ts n hash))"

definition requires_attestation_for_signing :: "'k OracleSigner \<Rightarrow> bool" where
  "requires_attestation_for_signing signer =
     (case signer of MockSigner _ _ \<Rightarrow> False | EnclaveSigner _ _ _ \<Rightarrow> True)"

definition fresh_attestation_doc :: "'s machine \<Rightarrow> bytes \<Rightarrow> 's \<Rightarrow> (NsmError, bytes) res \<times> 's" where
  "fresh_attestation_doc M pubkey_bytes s =
     (case mc_open M s of
        (False, s) \<Rightarrow> (Inl InitFailed, s)
      | (True, s) \<Rightarrow> attestation (mc_nsm M) None None (Some pubkey_bytes) s)"

definition attestation_doc :: "'s machine \<Rightarrow> 'k OracleSigner \<Rightarrow> 's \<Rightarrow> bytes option \<times> 's" where
  "attestation_doc M signer s =
     (case signer of
        MockSigner _ _ \<Rightarrow> (None, s)
      | EnclaveSigner _ _ pubkey_bytes \<Rightarrow>
          (case fresh_attestation_doc M pubkey_bytes s of
             (Inr doc, s) \<Rightarrow> (Some doc, s)
           | (Inl _, s) \<Rightarrow> (None, s)))"

section \<open>Creating the enclave signer\<close>

datatype LoadOutcome = UnsealedExisting bytes | NoSealedBlob

text \<open>
  The storage of the sealed key: the outcome of unsealing and whether an upload succeeds.
\<close>

record 's sealing =
  try_unseal :: "'s \<Rightarrow> (string, LoadOutcome) res \<times> 's"
  seal_and_upload :: "bytes \<Rightarrow> 's \<Rightarrow> (string, unit) res \<times> 's"

datatype SignerError = SealedLoadFailed string | SealFailed string | EntropyFailed NsmError | BadSeed | NoAttestation NsmError

definition fresh_seed :: "'s machine \<Rightarrow> 's \<Rightarrow> (SignerError, bytes) res \<times> 's" where
  "fresh_seed M s =
     (case mc_open M s of (opened, s) \<Rightarrow>
      case nsm_random_seed opened (mc_nsm M) s of
        (Inl e, s) \<Rightarrow> (Inl (EntropyFailed e), s)
      | (Inr seed, s) \<Rightarrow> (Inr seed, s))"

definition seed_from_sealing :: "'s machine \<Rightarrow> 's sealing \<Rightarrow> 's \<Rightarrow> (SignerError, bytes) res \<times> 's" where
  "seed_from_sealing M L s =
     (case try_unseal L s of
        (Inr (UnsealedExisting k), s) \<Rightarrow> (Inr k, s)
      | (Inr NoSealedBlob, s) \<Rightarrow>
          (case fresh_seed M s of
             (Inl e, s) \<Rightarrow> (Inl e, s)
           | (Inr seed, s) \<Rightarrow>
               (case seal_and_upload L seed s of
                  (Inl e, s) \<Rightarrow> (Inl (SealFailed e), s)
                | (Inr _, s) \<Rightarrow> (Inr seed, s)))
      | (Inl e, s) \<Rightarrow> (Inl (SealedLoadFailed e), s))"

definition EnclaveSigner_new ::
    "('g, 'v, 'k) ecdsa \<Rightarrow> (bytes \<Rightarrow> 'k option) \<Rightarrow> 's machine \<Rightarrow> 's sealing \<Rightarrow> bool \<Rightarrow> 's \<Rightarrow> (SignerError, 'k OracleSigner) res \<times> 's" where
  "EnclaveSigner_new E key_from_bytes M L key_sealing s =
     (case (if key_sealing then seed_from_sealing M L s else fresh_seed M s) of
        (Inl e, s) \<Rightarrow> (Inl e, s)
      | (Inr seed, s) \<Rightarrow>
          (case key_from_bytes seed of
             None \<Rightarrow> (Inl BadSeed, s)
           | Some signing_key \<Rightarrow>
               (case derive_address E signing_key of (pubkey_bytes, addr) \<Rightarrow>
                case fresh_attestation_doc M pubkey_bytes s of
                  (Inl e, s) \<Rightarrow> (Inl (NoAttestation e), s)
                | (Inr _, s) \<Rightarrow> (Inr (EnclaveSigner signing_key addr pubkey_bytes), s))))"

section \<open>Responses\<close>

record SignedPriceUpdate =
  up_asset_id :: string
  up_asset_symbol :: string
  up_price :: string
  up_price_human :: string
  up_timestamp :: u64
  up_num_sources :: u8
  up_sources_hash :: string
  up_signature :: string
  up_signer :: string

record PriceRequest =
  rq_method :: string
  rq_asset :: "string option"

record PriceResponse =
  rs_prices :: "SignedPriceUpdate list option"
  rs_price :: "SignedPriceUpdate option"
  rs_error :: "string option"
  rs_status :: "string option"
  rs_signer :: "string option"
  rs_num_assets :: "nat option"
  rs_attestation_doc :: "string option"
  rs_equal_weight_fallbacks :: "u64 option"
  rs_usdt_rate_assumed :: "u64 option"
  rs_attestation_healthy :: "bool option"

definition empty_response :: PriceResponse where
  "empty_response = \<lparr>rs_prices = None, rs_price = None, rs_error = None, rs_status = None, rs_signer = None, rs_num_assets = None,
     rs_attestation_doc = None, rs_equal_weight_fallbacks = None, rs_usdt_rate_assumed = None, rs_attestation_healthy = None\<rparr>"

section \<open>The attestation gate\<close>

definition ATTESTATION_CACHE_TTL :: nat where "ATTESTATION_CACHE_TTL = 300 * 1000"

type_synonym att_cache = "(bytes \<times> nat) option"

definition cached_attestation :: "'s machine \<Rightarrow> 'k OracleSigner \<Rightarrow> att_cache \<times> 's \<Rightarrow> bytes option \<times> att_cache \<times> 's" where
  "cached_attestation M signer w =
     (case w of (cache, s) \<Rightarrow>
      let refetch = (case attestation_doc M signer s of
                       (None, s) \<Rightarrow> (None, cache, s)
                     | (Some fresh, s) \<Rightarrow> (Some fresh, Some (fresh, mc_now M s), s))
      in case cache of
           Some (doc, fetched) \<Rightarrow>
             if mc_now M s - fetched < ATTESTATION_CACHE_TTL then (Some doc, cache, s) else refetch
         | None \<Rightarrow> refetch)"

definition attestation_unavailable_response :: PriceResponse where
  "attestation_unavailable_response = empty_response
     \<lparr>rs_error := Some (''Attestation document unavailable '' @ [CHR 0xE2, CHR 0x80, CHR 0x94] @ '' enclave health cannot be verified; refusing to sign''),
      rs_attestation_healthy := Some False\<rparr>"

definition attestation_gate :: "'s machine \<Rightarrow> 'k OracleSigner \<Rightarrow> att_cache \<times> 's \<Rightarrow> PriceResponse option \<times> att_cache \<times> 's" where
  "attestation_gate M signer w =
     (if \<not> requires_attestation_for_signing signer then (None, w)
      else (case cached_attestation M signer w of
              (Some _, w) \<Rightarrow> (None, w)
            | (None, w) \<Rightarrow> (Some attestation_unavailable_response, w)))"

section \<open>Requests\<close>

definition sign_cached :: "('g, 'v, 'k) ecdsa \<Rightarrow> string \<Rightarrow> 'k OracleSigner \<Rightarrow> CachedPrice \<Rightarrow> (string, SignedPriceUpdate) res" where
  "sign_cached E err signer c =
     (let timestamp = signed_timestamp c in
      case sign_price_update E err signer (asset_id c) (price_fixed c) timestamp (num_sources c) (sources_hash_of c) of
        Inl e \<Rightarrow> Inl e
      | Inr (signature, _) \<Rightarrow>
          Inr \<lparr>up_asset_id = hex_0x (asset_id c), up_asset_symbol = asset_symbol c,
               up_price = dec_of_nat (unat (price_fixed c)), up_price_human = format8 (price_human c),
               up_timestamp = timestamp, up_num_sources = num_sources c, up_sources_hash = hex_0x (sources_hash_of c),
               up_signature = hex_0x signature, up_signer = hex_0x (sg_address signer)\<rparr>)"

definition get_prices :: "('g, 'v, 'k) ecdsa \<Rightarrow> string \<Rightarrow> 'k OracleSigner \<Rightarrow> string \<Rightarrow> PriceState \<Rightarrow> PriceResponse" where
  "get_prices E err signer signer_address st =
     (let signed = filter_map (\<lambda>(_, c). case sign_cached E err signer c of Inr u \<Rightarrow> Some u | Inl _ \<Rightarrow> None) (ps_store st)
      in empty_response\<lparr>rs_prices := Some signed, rs_signer := Some signer_address, rs_num_assets := Some (length signed)\<rparr>)"

definition get_price :: "('g, 'v, 'k) ecdsa \<Rightarrow> string \<Rightarrow> 'k OracleSigner \<Rightarrow> string \<Rightarrow> PriceState \<Rightarrow> string option \<Rightarrow> PriceResponse" where
  "get_price E err signer signer_address st asset =
     (case asset of
        None \<Rightarrow> empty_response\<lparr>rs_error := Some ''missing 'asset' field''\<rparr>
      | Some a \<Rightarrow>
          (case map_of (ps_store st) a of
             Some c \<Rightarrow>
               (case sign_cached E err signer c of
                  Inr update \<Rightarrow> empty_response\<lparr>rs_price := Some update, rs_signer := Some signer_address\<rparr>
                | Inl e \<Rightarrow> empty_response\<lparr>rs_error := Some (''signing failed: '' @ e)\<rparr>)
           | None \<Rightarrow> empty_response\<lparr>rs_error := Some (''asset '' @ [CHR 0x27] @ a @ [CHR 0x27] @ '' not found'')\<rparr>))"

definition process_request ::
    "('g, 'v, 'k) ecdsa \<Rightarrow> string \<Rightarrow> 's machine \<Rightarrow> 'k OracleSigner \<Rightarrow> string \<Rightarrow> PriceState \<Rightarrow> PriceRequest \<Rightarrow> att_cache \<times> 's
     \<Rightarrow> PriceResponse \<times> att_cache \<times> 's" where
  "process_request E err M signer signer_address st request w =
     (if rq_method request = ''get_prices'' then
        (case attestation_gate M signer w of
           (Some refusal, w) \<Rightarrow> (refusal, w)
         | (None, w) \<Rightarrow> (get_prices E err signer signer_address st, w))
      else if rq_method request = ''get_price'' then
        (case attestation_gate M signer w of
           (Some refusal, w) \<Rightarrow> (refusal, w)
         | (None, w) \<Rightarrow> (get_price E err signer signer_address st (rq_asset request), w))
      else if rq_method request = ''get_attestation'' then
        (case cached_attestation M signer w of (doc, w) \<Rightarrow>
           (empty_response
              \<lparr>rs_error := (if doc = None then Some ''Attestation document unavailable'' else None),
               rs_signer := Some signer_address, rs_attestation_doc := map_option hex_encode doc\<rparr>, w))
      else if rq_method request = ''health'' then
        (case (if requires_attestation_for_signing signer
               then (case cached_attestation M signer w of (doc, w) \<Rightarrow> (Some (doc \<noteq> None), w))
               else (None, w)) of (healthy, w) \<Rightarrow>
           (empty_response
              \<lparr>rs_status := Some ''ok'', rs_signer := Some signer_address, rs_num_assets := Some (length (ps_store st)),
               rs_equal_weight_fallbacks := Some (ps_fallbacks st), rs_usdt_rate_assumed := Some (ps_rate_assumed st),
               rs_attestation_healthy := healthy\<rparr>, w))
      else (empty_response\<lparr>rs_error := Some (''unknown method: '' @ rq_method request)\<rparr>, w))"

section \<open>Connections\<close>

definition MAX_INFLIGHT :: nat where "MAX_INFLIGHT = 64"
definition REQUEST_DEADLINE :: nat where "REQUEST_DEADLINE = 15 * 1000"

definition read_exact_with_deadline :: "'s socket \<Rightarrow> nat \<Rightarrow> nat \<Rightarrow> 's \<Rightarrow> (FrameError, bytes) res \<times> 's" where
  "read_exact_with_deadline S deadline n s = read_exact_deadline S deadline n [] s"

text \<open>
  One connection: what is written back, if anything. The request parser and the response printer
  are those of the JSON library; the socket and the machine share one world.
\<close>

definition handle_connection ::
    "('g, 'v, 'k) ecdsa \<Rightarrow> string \<Rightarrow> (bytes \<Rightarrow> PriceRequest option) \<Rightarrow> (PriceResponse \<Rightarrow> bytes) \<Rightarrow> 's machine \<Rightarrow> 's socket
     \<Rightarrow> 'k OracleSigner \<Rightarrow> string \<Rightarrow> PriceState \<Rightarrow> att_cache \<times> 's \<Rightarrow> bytes option \<times> att_cache \<times> 's" where
  "handle_connection E err parse print M S signer signer_address st w =
     (case w of (cache, s) \<Rightarrow>
      let deadline = sock_now S s + REQUEST_DEADLINE in
      case read_exact_with_deadline S deadline 4 s of
        (Inl _, s) \<Rightarrow> (None, cache, s)
      | (Inr len_buf, s) \<Rightarrow>
          let req_len = be_nat len_buf in
          if req_len > 1024 * 64 then (None, cache, s)
          else (case read_exact_with_deadline S deadline req_len s of
                  (Inl _, s) \<Rightarrow> (None, cache, s)
                | (Inr req_buf, s) \<Rightarrow>
                    (case parse req_buf of
                       None \<Rightarrow> (None, cache, s)
                     | Some request \<Rightarrow>
                         (case process_request E err M signer signer_address st request (cache, s) of (response, w) \<Rightarrow>
                            let resp_bytes = print response in
                            (Some (be_word 4 (length resp_bytes) @ resp_bytes), w)))))"

text \<open>The accept loop: a connection takes a permit or is dropped; a handler that ends gives its permit back.\<close>

datatype server_event = Accepted | Dropped | Finished

inductive server_step :: "nat \<Rightarrow> server_event \<Rightarrow> nat \<Rightarrow> bool" where
  accept: "inflight < MAX_INFLIGHT \<Longrightarrow> server_step inflight Accepted (Suc inflight)"
| overload: "inflight \<ge> MAX_INFLIGHT \<Longrightarrow> server_step inflight Dropped inflight"
| finish: "server_step (Suc inflight) Finished inflight"

section \<open>Start-up\<close>

text \<open>Which signer the oracle starts with, from the environment.\<close>

datatype StartError = NoSignerAllowed | EnclaveInitPanic SignerError | BadMockKey

definition init_signer ::
    "('g, 'v, 'k) ecdsa \<Rightarrow> (bytes \<Rightarrow> 'k option) \<Rightarrow> 's machine \<Rightarrow> 's sealing \<Rightarrow> (string \<Rightarrow> 'k option) \<Rightarrow> 'k
     \<Rightarrow> bool \<Rightarrow> bool \<Rightarrow> bool \<Rightarrow> string option \<Rightarrow> 's \<Rightarrow> (StartError, 'k OracleSigner) res \<times> 's" where
  "init_signer E key_from_bytes M L mock_key random_key enclave_mode allow_mock key_sealing private_key s =
     (if enclave_mode then
        (case EnclaveSigner_new E key_from_bytes M L key_sealing s of
           (Inl e, s) \<Rightarrow> (Inl (EnclaveInitPanic e), s)
         | (Inr signer, s) \<Rightarrow> (Inr signer, s))
      else if \<not> allow_mock then (Inl NoSignerAllowed, s)
      else (case private_key of
              Some k \<Rightarrow>
                (case mock_key k of
                   None \<Rightarrow> Inl BadMockKey
                 | Some signing_key \<Rightarrow> Inr (MockSigner signing_key (snd (derive_address E signing_key))), s)
            | None \<Rightarrow> (Inr (MockSigner random_key (snd (derive_address E random_key))), s)))"

section \<open>Signing binds every field\<close>

lemma be_word_inject:
  assumes "be_word k m = be_word k n" "m < 256 ^ k" "n < 256 ^ k"
  shows "m = n"
  using arg_cong[OF assms(1), of be_nat] be_nat_be_word[OF assms(2)] be_nat_be_word[OF assms(3)] by (simp only:)

lemma price_payload_inject:
  assumes "price_payload a p t n h = price_payload a' p' t' n' h'" "length a = 32" "length a' = 32"
  shows "a = a' \<and> p = p' \<and> t = t' \<and> n = n' \<and> h = h'"
proof -
  have e: "a = a' \<and> be_word 32 (unat p) = be_word 32 (unat p') \<and> be_word 32 (unat t) = be_word 32 (unat t') \<and> n = n' \<and> h = h'"
    using assms by (simp add: price_payload_def)
  have b: "unat x < 256 ^ 32" if "256 \<ge> LENGTH('a)" for x :: "'a::len word"
  proof -
    have "unat x < 2 ^ LENGTH('a)" by (rule unsigned_less)
    also have "\<dots> \<le> 2 ^ 256" using that by (intro power_increasing) auto
    finally show ?thesis by simp
  qed
  have "unat p = unat p'" "unat t = unat t'" using e by (auto intro!: be_word_inject[of 32] b)
  then show ?thesis using e by (simp add: word_unat_eq_iff)
qed

section \<open>What is served\<close>

definition served :: "PriceResponse \<Rightarrow> SignedPriceUpdate set" where
  "served r = (case rs_prices r of Some us \<Rightarrow> set us | None \<Rightarrow> {}) \<union> set_option (rs_price r)"

lemma served_empty [simp]: "served empty_response = {}" "served attestation_unavailable_response = {}"
  by (simp_all add: served_def empty_response_def attestation_unavailable_response_def)

lemma filter_map_mem: "y \<in> set (filter_map f xs) \<Longrightarrow> \<exists>x \<in> set xs. f x = Some y"
  by (induction xs) (auto split: option.splits)

lemma served_get_prices:
  "u \<in> served (get_prices E err signer addr st) \<Longrightarrow> \<exists>s c. (s, c) \<in> set (ps_store st) \<and> sign_cached E err signer c = Inr u"
  by (fastforce simp: served_def get_prices_def empty_response_def Let_def dest!: filter_map_mem split: sum.splits)

lemma served_get_price:
  "u \<in> served (get_price E err signer addr st a) \<Longrightarrow> \<exists>s c. (s, c) \<in> set (ps_store st) \<and> sign_cached E err signer c = Inr u"
  by (auto simp: served_def get_price_def empty_response_def split: option.splits sum.splits dest: map_of_SomeD)

lemma served_process:
  assumes "process_request E err M signer addr st rq w = (resp, w')" "u \<in> served resp"
  shows "\<exists>s c. (s, c) \<in> set (ps_store st) \<and> sign_cached E err signer c = Inr u"
    and "attestation_gate M signer w = (None, w')"
proof -
  have g: "attestation_gate M signer w = (Some x, v) \<Longrightarrow> served x = {}" for x v
    by (auto simp: attestation_gate_def split: if_splits option.splits prod.splits)
  have "attestation_gate M signer w = (None, w') \<and> (resp = get_prices E err signer addr st \<or> resp = get_price E err signer addr st (rq_asset rq))"
    using assms g
    by (auto simp: process_request_def served_def empty_response_def split: if_splits option.splits prod.splits)
  then show "\<exists>s c. (s, c) \<in> set (ps_store st) \<and> sign_cached E err signer c = Inr u"
    and "attestation_gate M signer w = (None, w')"
    using assms(2) served_get_prices served_get_price by metis+
qed


lemma cached_attestation_fresh:
  assumes "cached_attestation M signer w = (Some doc, w')"
  shows "\<exists>t. fst w' = Some (doc, t) \<and> mc_now M (snd w') - t < ATTESTATION_CACHE_TTL"
proof -
  obtain cache s where w: "w = (cache, s)" by (cases w)
  obtain d s1 where d: "attestation_doc M signer s = (d, s1)" by (cases "attestation_doc M signer s")
  show ?thesis
    using assms by (cases cache; cases d) (auto simp: cached_attestation_def w d ATTESTATION_CACHE_TTL_def split: if_splits)
qed

lemma gate_enclave:
  "attestation_gate M (EnclaveSigner k a pub) w =
     (if fst (cached_attestation M (EnclaveSigner k a pub) w) = None then Some attestation_unavailable_response else None,
      snd (cached_attestation M (EnclaveSigner k a pub) w))"
  by (simp add: attestation_gate_def requires_attestation_for_signing_def split: prod.splits option.splits)

text \<open>
  C7. No attestation, no prices. A response of an enclave signer that carries a signed price is given only while the enclave holds an
  attestation document that is less than five minutes old; without one both price methods answer with the fixed refusal.
\<close>

theorem prices_need_attestation:
  assumes "process_request E err M (EnclaveSigner k a pub) addr st rq w = (resp, w')"
  shows "(served resp \<noteq> {} \<longrightarrow> (\<exists>doc t. fst w' = Some (doc, t) \<and> mc_now M (snd w') - t < 300000))
    \<and> (fst (cached_attestation M (EnclaveSigner k a pub) w) = None \<longrightarrow> rq_method rq \<in> {''get_price'', ''get_prices''} \<longrightarrow>
         resp = attestation_unavailable_response)"
proof
  show "served resp \<noteq> {} \<longrightarrow> (\<exists>doc t. fst w' = Some (doc, t) \<and> mc_now M (snd w') - t < 300000)"
  proof
    assume "served resp \<noteq> {}"
    then obtain u where "u \<in> served resp" by (meson all_not_in_conv)
    then have "attestation_gate M (EnclaveSigner k a pub) w = (None, w')" by (rule served_process(2)[OF assms])
    then obtain doc where "cached_attestation M (EnclaveSigner k a pub) w = (Some doc, w')"
      by (cases "cached_attestation M (EnclaveSigner k a pub) w") (auto simp: gate_enclave split: if_splits)
    from cached_attestation_fresh[OF this]
    show "\<exists>doc t. fst w' = Some (doc, t) \<and> mc_now M (snd w') - t < 300000" by (auto simp: ATTESTATION_CACHE_TTL_def)
  qed
  show "fst (cached_attestation M (EnclaveSigner k a pub) w) = None \<longrightarrow> rq_method rq \<in> {''get_price'', ''get_prices''} \<longrightarrow>
         resp = attestation_unavailable_response"
    using assms by (auto simp: process_request_def gate_enclave)
qed

lemma fresh_seed_origin:
  assumes "fresh_seed M s = (Inr seed, s')"
  shows "length seed = 32 \<and> (\<exists>s1 rs. drawn (answered (mc_nsm M)) s1 rs s' \<and> seed = take 32 (concat rs))"
proof -
  obtain ok s1 where o: "mc_open M s = (ok, s1)" by (cases "mc_open M s")
  obtain r s2 where r: "nsm_random_seed ok (mc_nsm M) s1 = (r, s2)" by (cases "nsm_random_seed ok (mc_nsm M) s1")
  have "r = Inr seed" "s2 = s'" using assms by (auto simp: fresh_seed_def o r split: sum.splits)
  with seed_from_device[of ok "mc_nsm M" s1 seed s'] r show ?thesis by auto
qed

definition sound_seed :: "'s machine \<Rightarrow> 's sealing \<Rightarrow> bool \<Rightarrow> 's \<Rightarrow> bytes \<Rightarrow> bool" where
  "sound_seed M L key_sealing s seed \<longleftrightarrow>
     (key_sealing \<and> fst (try_unseal L s) = Inr (UnsealedExisting seed))
     \<or> (\<exists>s1 s2 rs. length seed = 32 \<and> drawn (answered (mc_nsm M)) s1 rs s2 \<and> seed = take 32 (concat rs)
          \<and> (key_sealing \<longrightarrow> fst (seal_and_upload L seed s2) = Inr ()))"

lemma sealed_seed_origin:
  assumes "seed_from_sealing M L s = (Inr seed, s')"
  shows "sound_seed M L True s seed"
proof -
  obtain r s1 where r: "try_unseal L s = (r, s1)" by (cases "try_unseal L s")
  obtain f s2 where f: "fresh_seed M s1 = (f, s2)" by (cases "fresh_seed M s1")
  obtain u s3 where u: "seal_and_upload L seed s2 = (u, s3)" by (cases "seal_and_upload L seed s2")
  consider "r = Inr (UnsealedExisting seed)" | "f = Inr seed" "u = Inr ()"
    using assms by (auto simp: seed_from_sealing_def r f u split: sum.splits LoadOutcome.splits prod.splits)
  then show ?thesis
  proof cases
    case 1
    then show ?thesis by (simp add: sound_seed_def r)
  next
    case 2
    with fresh_seed_origin[of M s1 seed s2] f u show ?thesis unfolding sound_seed_def by (metis fst_conv)
  qed
qed

lemma enclave_signer_origin:
  assumes "EnclaveSigner_new E key_from_bytes M L key_sealing s = (Inr signer, s')"
  shows "sg_address signer = snd (derive_address E (sg_key signer)) \<and> requires_attestation_for_signing signer
    \<and> (\<exists>seed. key_from_bytes seed = Some (sg_key signer) \<and> sound_seed M L key_sealing s seed)"
proof -
  define src where "src = (if key_sealing then seed_from_sealing M L s else fresh_seed M s)"
  obtain seed s1 key pub addr where k: "src = (Inr seed, s1)" "key_from_bytes seed = Some key" "derive_address E key = (pub, addr)"
    "signer = EnclaveSigner key addr pub"
    using assms unfolding EnclaveSigner_new_def src_def[symmetric] by (auto split: prod.splits sum.splits option.splits)
  have "sound_seed M L key_sealing s seed"
  proof (cases key_sealing)
    case True
    with k(1) sealed_seed_origin show ?thesis by (simp add: src_def)
  next
    case False
    with k(1) fresh_seed_origin[of M s seed s1] show ?thesis by (auto simp: src_def sound_seed_def)
  qed
  with k show ?thesis by (auto simp: requires_attestation_for_signing_def)
qed

text \<open>
  C31. Where the signing key comes from. In enclave mode a signer exists only with a key made from bytes that were unsealed, or drawn
  from the security module and, when sealing is on, sealed first; its address is that of its key and it could attest.
  Outside enclave mode there is a signer only when mock signers are explicitly allowed.
\<close>

theorem signer_origin:
  assumes "init_signer E key_from_bytes M L mock_key random_key enclave_mode allow_mock key_sealing private_key s = (Inr signer, s')"
  shows "sg_address signer = snd (derive_address E (sg_key signer))
    \<and> (enclave_mode \<longrightarrow> requires_attestation_for_signing signer
        \<and> (\<exists>seed. key_from_bytes seed = Some (sg_key signer) \<and> sound_seed M L key_sealing s seed))
    \<and> (\<not> enclave_mode \<longrightarrow> allow_mock)"
proof (cases enclave_mode)
  case True
  obtain r s0 where r: "EnclaveSigner_new E key_from_bytes M L key_sealing s = (r, s0)"
    by (cases "EnclaveSigner_new E key_from_bytes M L key_sealing s")
  then have "r = Inr signer" using assms True by (auto simp: init_signer_def split: sum.splits)
  with r enclave_signer_origin[of E key_from_bytes M L key_sealing s signer s0] True show ?thesis by simp
next
  case False
  then show ?thesis using assms by (auto simp: init_signer_def split: option.splits if_splits)
qed

section \<open>A concrete server\<close>

text \<open>A curve whose signature of a digest is its length, and a machine whose module answers every request.\<close>

definition server_curve :: "(nat, nat, nat) ecdsa" where
  "server_curve = \<lparr>sig_from_slice = (\<lambda>_. None), sig_high_s = (\<lambda>_. False), sig_to_bytes = (\<lambda>n. [word_of_nat n]),
     recover_from_prehash = (\<lambda>_ _ _. None), sign_prehash_recoverable = (\<lambda>k d. Some (length d, 0)),
     verifying_key = (\<lambda>k. k), encoded_point = (\<lambda>v. [4, word_of_nat v]), keccak = id\<rparr>"

definition demo_machine :: "unit machine" where
  "demo_machine = \<lparr>mc_nsm = (\<lambda>r s. ((case r of GetRandom \<Rightarrow> RandomBytes (replicate 32 7) | _ \<Rightarrow> AttestationDocument [1]), s)),
     mc_open = (\<lambda>s. (True, s)), mc_now = (\<lambda>_. 5)\<rparr>"

definition demo_update :: SignedPriceUpdate where
  "demo_update = (case sign_cached server_curve [] (EnclaveSigner 3 [] [4, 3]) (snd (hd (ps_store demo_prices))) of Inr u \<Rightarrow> u)"

definition demo_response :: PriceResponse where
  "demo_response = empty_response\<lparr>rs_price := Some demo_update, rs_signer := Some ''a''\<rparr>"

lemma demo_served: "demo_update \<in> served demo_response"
  by (simp add: served_def demo_response_def)

lemma demo_request:
  "process_request server_curve [] demo_machine (EnclaveSigner 3 [] [4, 3]) ''a'' demo_prices \<lparr>rq_method = ''get_price'', rq_asset = Some ''X/USD''\<rparr> (None, ())
     = (demo_response, Some ([1], 5), ())"
  by (simp add: process_request_def attestation_gate_def requires_attestation_for_signing_def cached_attestation_def attestation_doc_def
      fresh_attestation_doc_def attestation_def demo_machine_def get_price_def demo_prices_def demo_response_def demo_update_def
      sign_cached_def sign_price_update_def sign_digest_def sign_eip191_def server_curve_def Let_def del: append_Cons)


theorem prices_need_attestation_witness:
  "\<exists>doc t. Some ([1], 5) = Some (doc, t) \<and> mc_now demo_machine () - t < 300000"
  using prices_need_attestation[OF demo_request] demo_served by auto

definition demo_sealing :: "unit sealing" where
  "demo_sealing = \<lparr>try_unseal = (\<lambda>s. (Inr (UnsealedExisting [9]), s)), seal_and_upload = (\<lambda>_ s. (Inl [], s))\<rparr>"

theorem signer_origin_witness:
  "\<exists>signer. init_signer server_curve (\<lambda>b. Some (length b)) demo_machine demo_sealing (\<lambda>_. None) 0 True False True None () = (Inr signer, ())
     \<and> requires_attestation_for_signing signer"
proof -
  have "init_signer server_curve (\<lambda>b. Some (length b)) demo_machine demo_sealing (\<lambda>_. None) 0 True False True None ()
      = (Inr (EnclaveSigner 1 (drop 12 [1]) [4, 1]), ())"
    by (simp add: init_signer_def EnclaveSigner_new_def seed_from_sealing_def demo_sealing_def derive_address_def server_curve_def
        fresh_attestation_doc_def attestation_def demo_machine_def)
  from this signer_origin[OF this] show ?thesis by blast
qed

end
