(* ===== verification/Keyex_State.thy ===== *)
theory Keyex_State
  imports Bridge Policy Std_Text
begin

text \<open>
  The key-exchange oracle's baked configuration (\<open>src/keyex_oracle/config.rs\<close>) and its guarded state
  (\<open>state.rs\<close>), with the peer names the state keeps. Parsing and printing of socket addresses is that of
  \<open>Std_Text\<close>.
\<close>

section \<open>Codecs\<close>

text \<open>
  \<open>Address::from_str\<close>, the two hexadecimal decoders in use (the crate \<open>hex\<close>, and the one \<open>alloy\<close>
  re-exports), and the printing of an address.
\<close>

record text_codec =
  addr_from_str :: "string \<Rightarrow> address option"
  hex_crate_decode :: "string \<Rightarrow> bytes option"
  alloy_hex_decode :: "string \<Rightarrow> bytes option"
  addr_display :: "address \<Rightarrow> string"

section \<open>Baked configuration\<close>

record BakedOracleConfig =
  bo_registry :: address
  bo_rh_rpcs :: "string list"
  bo_safe :: address
  bo_owners :: "address list"
  bo_threshold :: nat
  bo_chain_id :: u64
  bo_version :: u64
  bo_ancestors :: "bytes list"
  bo_peers :: "string list"

datatype BakedError = NotBaked string | Malformed string | ZeroAddress string | EmptyList string | NotHttps string
  | ThresholdZero | ThresholdTooHigh nat nat | AncestorNotHex | AncestorNot48

type_synonym baked_env = "string \<Rightarrow> string option"

definition baked_addr :: "text_codec \<Rightarrow> string \<Rightarrow> string option \<Rightarrow> (BakedError, address) res" where
  "baked_addr T name v =
     try_res (ok_or (NotBaked name) v) (\<lambda>s. ok_or (Malformed name) (addr_from_str T s))"

definition baked_addr_nonzero :: "text_codec \<Rightarrow> string \<Rightarrow> string option \<Rightarrow> (BakedError, address) res" where
  "baked_addr_nonzero T name v =
     try_res (baked_addr T name v) (\<lambda>a. if a = zero_address then Inl (ZeroAddress name) else Inr a)"

definition baked_u64 :: "string \<Rightarrow> string option \<Rightarrow> (BakedError, u64) res" where
  "baked_u64 name v =
     try_res (ok_or (NotBaked name) v) (\<lambda>s. ok_or (Malformed name) (map_option of_nat (parse_uint 10 (2 ^ 64) s)))"

fun addr_list_loop :: "text_codec \<Rightarrow> string \<Rightarrow> address list \<Rightarrow> string list \<Rightarrow> (BakedError, address list) res" where
  "addr_list_loop T name out [] = Inr out"
| "addr_list_loop T name out (entry # entries) =
     (case addr_from_str T entry of
        None \<Rightarrow> Inl (Malformed name)
      | Some a \<Rightarrow> if a = zero_address then Inl (ZeroAddress name) else addr_list_loop T name (out @ [a]) entries)"

definition baked_addr_list :: "text_codec \<Rightarrow> string \<Rightarrow> string option \<Rightarrow> (BakedError, address list) res" where
  "baked_addr_list T name v =
     try_res (ok_or (NotBaked name) v) (\<lambda>raw.
     try_res (addr_list_loop T name [] (comma_entries raw)) (\<lambda>out.
     if out = [] then Inl (EmptyList name) else Inr out))"

definition baked_rpcs :: "string \<Rightarrow> string option \<Rightarrow> (BakedError, string list) res" where
  "baked_rpcs name v =
     try_res (ok_or (NotBaked name) v) (\<lambda>raw.
     let lst = comma_entries raw in
     if lst = [] then Inl (EmptyList name)
     else if list_ex (\<lambda>url. strip_prefix ''https://'' url = None) lst then Inl (NotHttps name)
     else Inr lst)"

definition parse_endpoints :: "string option \<Rightarrow> string list" where
  "parse_endpoints v = (case v of Some s \<Rightarrow> comma_entries s | None \<Rightarrow> [])"

fun ancestor_loop :: "text_codec \<Rightarrow> bytes list \<Rightarrow> string list \<Rightarrow> (BakedError, bytes list) res" where
  "ancestor_loop T out [] = Inr out"
| "ancestor_loop T out (entry # entries) =
     (case alloy_hex_decode T (case strip_prefix ''0x'' entry of Some r \<Rightarrow> r | None \<Rightarrow> entry) of
        None \<Rightarrow> Inl AncestorNotHex
      | Some b \<Rightarrow> if length b \<noteq> 48 then Inl AncestorNot48 else ancestor_loop T (out @ [b]) entries)"

definition parse_ancestor_pcrs :: "text_codec \<Rightarrow> string option \<Rightarrow> (BakedError, bytes list) res" where
  "parse_ancestor_pcrs T v = (case v of None \<Rightarrow> Inr [] | Some raw \<Rightarrow> ancestor_loop T [] (comma_entries raw))"

definition from_baked :: "text_codec \<Rightarrow> baked_env \<Rightarrow> (BakedError, BakedOracleConfig) res" where
  "from_baked T env =
     try_res (baked_addr_list T ''KEYEX_ORACLE_OWNERS'' (env ''KEYEX_ORACLE_OWNERS'')) (\<lambda>owners.
     try_res (baked_u64 ''KEYEX_ORACLE_THRESHOLD'' (env ''KEYEX_ORACLE_THRESHOLD'')) (\<lambda>n.
     let threshold = unat n in
     if threshold = 0 then Inl ThresholdZero
     else if threshold > length owners then Inl (ThresholdTooHigh threshold (length owners))
     else
     try_res (baked_addr_nonzero T ''KEYEX_ORACLE_REGISTRY'' (env ''KEYEX_ORACLE_REGISTRY'')) (\<lambda>registry.
     try_res (baked_addr_nonzero T ''KEYEX_ORACLE_SAFE'' (env ''KEYEX_ORACLE_SAFE'')) (\<lambda>safe.
     try_res (baked_rpcs ''KEYEX_ORACLE_RH_RPCS'' (env ''KEYEX_ORACLE_RH_RPCS'')) (\<lambda>rh_rpcs.
     try_res (baked_u64 ''KEYEX_ORACLE_CHAIN_ID'' (env ''KEYEX_ORACLE_CHAIN_ID'')) (\<lambda>chain_id.
     try_res (baked_u64 ''KEYEX_ORACLE_VERSION'' (env ''KEYEX_ORACLE_VERSION'')) (\<lambda>ver.
     try_res (parse_ancestor_pcrs T (env ''KEYEX_ORACLE_ANCESTORS'')) (\<lambda>ancestors.
     Inr \<lparr>bo_registry = registry, bo_rh_rpcs = rh_rpcs, bo_safe = safe, bo_owners = owners, bo_threshold = threshold,
          bo_chain_id = chain_id, bo_version = ver, bo_ancestors = ancestors,
          bo_peers = parse_endpoints (env ''KEYEX_ORACLE_PEERS'')\<rparr>))))))))"

section \<open>Peer names\<close>

definition MAX_BOOT_PEERS :: nat where "MAX_BOOT_PEERS = 16"
definition MAX_PEER_ENDPOINT_LEN :: nat where "MAX_PEER_ENDPOINT_LEN = 320"
definition PEER_PORT :: nat where "PEER_PORT = 8443"

definition label_ok :: "string \<Rightarrow> bool" where
  "label_ok label \<longleftrightarrow> label \<noteq> [] \<and> length label \<le> 63 \<and> hd label \<noteq> CHR ''-'' \<and> last label \<noteq> CHR ''-''
     \<and> list_all (\<lambda>b. is_ascii_alphanumeric b \<or> b = CHR ''-'') label"

definition normalize_host :: "string \<Rightarrow> string option" where
  "normalize_host endpoint =
     (case (case split_once (CHR '':'') endpoint of
              Some (host, port) \<Rightarrow>
                if port = [] \<or> \<not> list_all is_ascii_digit port then None
                else map_option (\<lambda>p. (host, p)) (parse_uint 10 (2 ^ 16) port)
            | None \<Rightarrow> Some (endpoint, PEER_PORT)) of
        None \<Rightarrow> None
      | Some (host, port) \<Rightarrow>
          let host = (case strip_suffix ''.'' host of Some h \<Rightarrow> h | None \<Rightarrow> host) in
          if port = 0 \<or> length host > 253 \<or> list_all (\<lambda>b. is_ascii_digit b \<or> b = CHR ''.'') host
             \<or> \<not> list_all label_ok (split_on (CHR ''.'') host)
          then None
          else Some (to_ascii_lowercase host @ '':'' @ dec_of_nat port))"

definition normalize_peer :: "string \<Rightarrow> string option" where
  "normalize_peer endpoint =
     (if endpoint = [] \<or> length endpoint > MAX_PEER_ENDPOINT_LEN \<or> \<not> list_all is_ascii endpoint
         \<or> list_ex (\<lambda>b. is_ascii_whitespace b \<or> is_ascii_control b) endpoint
      then None
      else case parse_socket_addr endpoint of
        Some addr \<Rightarrow> if socket_port addr \<noteq> 0 then Some (socket_addr_to_string addr) else None
      | None \<Rightarrow>
     (case parse_ip_addr endpoint of
        Some ip \<Rightarrow> Some (socket_addr_to_string (socket_addr_new ip PEER_PORT))
      | None \<Rightarrow>
     (case Option.bind (strip_prefix ''['' endpoint) (strip_suffix '']'') of
        Some ip \<Rightarrow> map_option (\<lambda>ip. socket_addr_to_string (socket_addr_new (V6 ip) PEER_PORT)) (parse_ipv6_addr ip)
      | None \<Rightarrow> normalize_host endpoint)))"

fun bounded_loop :: "string list \<Rightarrow> string list \<Rightarrow> string list" where
  "bounded_loop out [] = out"
| "bounded_loop out (peer # peers) =
     (case normalize_peer peer of
        None \<Rightarrow> bounded_loop out peers
      | Some p \<Rightarrow>
          if p \<in> set out then bounded_loop out peers
          else if length (out @ [p]) = MAX_BOOT_PEERS then out @ [p]
          else bounded_loop (out @ [p]) peers)"

definition bounded_peers :: "string list \<Rightarrow> string list" where
  "bounded_peers peers = bounded_loop [] peers"

section \<open>The state\<close>

datatype KeySource = Genesis | Peer

record OracleKeyexState =
  ok_boot_state :: BootState
  ok_source :: KeySource
  ok_signer_addr :: "address option"
  ok_signer_pubkey :: "bytes option"
  ok_root_key :: "bytes option"
  ok_approvals :: "VerifiedApproval list"
  ok_oracle_peers :: "string list"

definition OracleKeyexState_new :: OracleKeyexState where
  "OracleKeyexState_new =
     \<lparr>ok_boot_state = Fetching, ok_source = Genesis, ok_signer_addr = None, ok_signer_pubkey = None, ok_root_key = None,
      ok_approvals = [], ok_oracle_peers = []\<rparr>"

definition publish_candidate :: "address \<Rightarrow> bytes \<Rightarrow> OracleKeyexState \<Rightarrow> OracleKeyexState" where
  "publish_candidate addr pubkey st =
     st\<lparr>ok_signer_addr := Some addr, ok_signer_pubkey := Some pubkey, ok_source := Genesis,
        ok_boot_state := WaitingRegistration\<rparr>"

definition oracle_install_key :: "bytes \<Rightarrow> address \<Rightarrow> bytes \<Rightarrow> KeySource \<Rightarrow> OracleKeyexState \<Rightarrow> OracleKeyexState" where
  "oracle_install_key root_bytes addr pubkey src st =
     st\<lparr>ok_root_key := Some root_bytes, ok_signer_addr := Some addr, ok_signer_pubkey := Some pubkey, ok_source := src,
        ok_boot_state := Ready\<rparr>"

definition add_approval :: "VerifiedApproval \<Rightarrow> OracleKeyexState \<Rightarrow> OracleKeyexState" where
  "add_approval va st = (if va \<in> set (ok_approvals st) then st else st\<lparr>ok_approvals := ok_approvals st @ [va]\<rparr>)"

definition set_peer_hints :: "string list \<Rightarrow> OracleKeyexState \<Rightarrow> OracleKeyexState" where
  "set_peer_hints oracle_peers st = st\<lparr>ok_oracle_peers := bounded_peers oracle_peers\<rparr>"

definition peer_snapshot :: "OracleKeyexState \<Rightarrow> string list \<Rightarrow> string list" where
  "peer_snapshot st baked_peers = bounded_peers (baked_peers @ ok_oracle_peers st)"

section \<open>Peer names carry no delimiter\<close>

definition peer_char :: "char \<Rightarrow> bool" where
  "peer_char c \<longleftrightarrow> is_ascii_digit c \<or> is_ascii_lower c \<or> c \<in> {CHR '':'', CHR ''.'', CHR ''-'', CHR 0x5B, CHR 0x5D, CHR 0x25}"

lemma ascii_lower_alnum: "is_ascii_alphanumeric c \<Longrightarrow> is_ascii_digit (ascii_lower c) \<or> is_ascii_lower (ascii_lower c)"
  by (auto simp: ascii_lower_def is_ascii_alphanumeric_def is_ascii_upper_def is_ascii_lower_def is_ascii_digit_def)

lemma ascii_lower_other: "\<not> is_ascii_upper c \<Longrightarrow> ascii_lower c = c"
  by (simp add: ascii_lower_def)

lemma split_on_chars: "c \<in> set s \<Longrightarrow> c = d \<or> (\<exists>w \<in> set (split_on d s). c \<in> set w)"
proof (induction s)
  case (Cons x s)
  have "split_on d s \<noteq> []" by (cases s) auto
  then obtain w ws where w: "split_on d s = w # ws" by (cases "split_on d s") auto
  with Cons show ?case by auto
qed simp

lemma normalize_host_shape:
  assumes "normalize_host e = Some p"
  shows "\<exists>host port. list_all label_ok (split_on (CHR ''.'') host) \<and> p = to_ascii_lowercase host @ '':'' @ dec_of_nat port"
proof -
  define hp where "hp = (case split_once (CHR '':'') e of
      Some (host, port) \<Rightarrow> if port = [] \<or> \<not> list_all is_ascii_digit port then None else map_option (\<lambda>p. (host, p)) (parse_uint 10 (2 ^ 16) port)
    | None \<Rightarrow> Some (e, PEER_PORT))"
  obtain host port where hp2: "hp = Some (host, port)"
    using assms unfolding normalize_host_def hp_def[symmetric] by (cases hp) auto
  show ?thesis
    using assms unfolding normalize_host_def hp_def[symmetric] hp2 Let_def option.case prod.case
    by (metis option.distinct(1) option.inject)
qed

lemma normalize_host_chars:
  assumes "normalize_host e = Some p" "c \<in> set p"
  shows "peer_char c"
proof -
  obtain host port where h: "list_all label_ok (split_on (CHR ''.'') host)" "p = to_ascii_lowercase host @ '':'' @ dec_of_nat port"
    using normalize_host_shape[OF assms(1)] by blast
  have d: "peer_char (ascii_lower d)" if e: "d \<in> set host" for d
  proof (cases "d = CHR ''.''")
    case True
    then show ?thesis by (simp add: ascii_lower_def is_ascii_upper_def peer_char_def)
  next
    case False
    then obtain w where "w \<in> set (split_on (CHR ''.'') host)" "d \<in> set w" using split_on_chars[OF e] by blast
    then have "is_ascii_alphanumeric d \<or> d = CHR ''-''" using h(1) by (auto simp: list_all_iff label_ok_def)
    then show ?thesis
    proof
      assume "is_ascii_alphanumeric d"
      then show ?thesis using ascii_lower_alnum by (auto simp: peer_char_def)
    qed (simp add: ascii_lower_def is_ascii_upper_def peer_char_def)
  qed
  from assms(2) h(2) consider e where "e \<in> set host" "c = ascii_lower e" | "c = CHR '':''" | "c \<in> set (dec_of_nat port)"
    by (auto simp: to_ascii_lowercase_def)
  then show ?thesis
  proof cases
    case 1
    then show ?thesis using d by simp
  next
    case 2
    then show ?thesis by (simp add: peer_char_def)
  next
    case 3
    then show ?thesis using dec_of_nat_digits by (simp add: peer_char_def)
  qed
qed

lemma normalize_peer_chars:
  assumes "normalize_peer e = Some p" "c \<in> set p"
  shows "peer_char c"
proof -
  have s: "peer_char c" if "c \<in> set (socket_addr_to_string a)" for a
    using socket_addr_to_string_chars[OF that] by (auto simp: peer_char_def)
  from assms(1) consider a where "p = socket_addr_to_string a" | "normalize_host e = Some p"
    unfolding normalize_peer_def by (auto simp del: socket_addr_to_string.simps split: if_splits option.splits)
  then show ?thesis by cases (use s normalize_host_chars assms(2) in blast)+
qed

section \<open>The peer list\<close>

definition peers_ok :: "string list \<Rightarrow> bool" where
  "peers_ok ps \<longleftrightarrow> distinct ps \<and> length ps \<le> MAX_BOOT_PEERS \<and> (\<forall>p \<in> set ps. \<forall>c \<in> set p. peer_char c)"

lemma peers_ok_snoc:
  assumes "peers_ok out" "length out < MAX_BOOT_PEERS" "normalize_peer q = Some p" "p \<notin> set out"
  shows "peers_ok (out @ [p])"
proof -
  have "\<forall>c \<in> set p. peer_char c" using normalize_peer_chars[OF assms(3)] by blast
  with assms(1,2,4) show ?thesis by (simp add: peers_ok_def)
qed

lemma bounded_loop_ok:
  "peers_ok out \<Longrightarrow> length out < MAX_BOOT_PEERS \<Longrightarrow> peers_ok (bounded_loop out ps)"
proof (induction out ps rule: bounded_loop.induct)
  case (2 out peer peers)
  show ?case
  proof (cases "normalize_peer peer")
    case None
    with 2 show ?thesis by simp
  next
    case (Some p)
    have "peers_ok (out @ [p])" if "p \<notin> set out" using peers_ok_snoc[OF 2(4,5) Some that] .
    moreover have "length (out @ [p]) < MAX_BOOT_PEERS" if "length (out @ [p]) \<noteq> MAX_BOOT_PEERS" using 2(5) that by simp
    ultimately show ?thesis using 2 Some by simp
  qed
qed simp

lemma bounded_peers_ok: "peers_ok (bounded_peers ps)"
  unfolding bounded_peers_def by (rule bounded_loop_ok) (simp_all add: peers_ok_def MAX_BOOT_PEERS_def)

lemma bounded_loop_mem:
  "length out < MAX_BOOT_PEERS \<Longrightarrow> p \<in> set (bounded_loop out ps) \<Longrightarrow> p \<in> set out \<or> (\<exists>q \<in> set ps. normalize_peer q = Some p)"
proof (induction out ps rule: bounded_loop.induct)
  case (2 out peer peers)
  then show ?case by (cases "normalize_peer peer") (auto split: if_splits)
qed simp

text \<open>Appending more candidates never changes what the first ones gave.\<close>

lemma bounded_loop_append: "\<exists>rest. bounded_loop out (ps @ qs) = bounded_loop out ps @ rest"
proof (induction out ps rule: bounded_loop.induct)
  case (1 out)
  have "\<exists>rest. bounded_loop out qs = out @ rest" for out
  proof (induction out qs rule: bounded_loop.induct)
    case (2 out peer peers)
    then show ?case by (cases "normalize_peer peer") (auto split: if_splits)
  qed simp
  then show ?case by simp
next
  case (2 out peer peers)
  then show ?case by (cases "normalize_peer peer") (auto split: if_splits)
qed

text \<open>All of the baked peers are there: one is missing only when sixteen others are.\<close>

lemma bounded_loop_complete:
  assumes "length out < MAX_BOOT_PEERS" "q \<in> set ps" "normalize_peer q = Some p"
  shows "p \<in> set (bounded_loop out ps) \<or> length (bounded_loop out ps) = MAX_BOOT_PEERS"
proof -
  have grow: "\<exists>rest. bounded_loop o1 qs = o1 @ rest" for o1 qs using bounded_loop_append[of o1 "[]" qs] by simp
  show ?thesis using assms
  proof (induction out ps rule: bounded_loop.induct)
    case (2 out peer peers)
    show ?case
    proof (cases "normalize_peer peer")
      case None
      with 2 show ?thesis by auto
    next
      case (Some r)
      show ?thesis
      proof (cases "r \<in> set out")
        case True
        obtain rest where "bounded_loop out peers = out @ rest" using grow by blast
        with 2 Some True show ?thesis by (auto simp del: bounded_loop.simps simp: bounded_loop.simps(2))
      next
        case False
        obtain rest where "bounded_loop (out @ [r]) peers = out @ [r] @ rest" using grow[of "out @ [r]"] by auto
        with 2 Some False show ?thesis by auto
      qed
    qed
  qed simp
qed

text \<open>
  C37. Whatever hints the host gives, the list of peers the boot loop sweeps has at most sixteen distinct entries, it
  starts with the baked peers (each of them is there unless sixteen baked ones are), every entry is the normal form of a baked
  or hinted name, and no entry holds a character with a meaning in the CONNECT request it is written into: no space,
  no line break, no control character, no slash.
\<close>

theorem peer_snapshot_safe:
  "length (peer_snapshot st baked) \<le> 16 \<and> distinct (peer_snapshot st baked)
   \<and> (\<exists>hints. peer_snapshot st baked = bounded_peers baked @ hints)
   \<and> (\<forall>q p. q \<in> set baked \<longrightarrow> normalize_peer q = Some p \<longrightarrow> p \<in> set (bounded_peers baked) \<or> length (bounded_peers baked) = 16)
   \<and> (\<forall>p \<in> set (peer_snapshot st baked). (\<exists>q \<in> set baked \<union> set (ok_oracle_peers st). normalize_peer q = Some p)
        \<and> (\<forall>c \<in> set p. 33 \<le> (of_char c :: nat) \<and> (of_char c :: nat) \<le> 122 \<and> c \<noteq> CHR ''/''))"
proof -
  have c: "33 \<le> (of_char c :: nat) \<and> (of_char c :: nat) \<le> 122 \<and> c \<noteq> CHR ''/''" if "peer_char c" for c
    using that by (auto simp: peer_char_def is_ascii_digit_def is_ascii_lower_def)
  have m: "0 < MAX_BOOT_PEERS" by (simp add: MAX_BOOT_PEERS_def)
  note ok = bounded_peers_ok[of "baked @ ok_oracle_peers st", unfolded peers_ok_def MAX_BOOT_PEERS_def]
  have "\<exists>q \<in> set baked \<union> set (ok_oracle_peers st). normalize_peer q = Some p" if "p \<in> set (peer_snapshot st baked)" for p
    using bounded_loop_mem[of "[]" p "baked @ ok_oracle_peers st"] that m by (auto simp: peer_snapshot_def bounded_peers_def)
  moreover have "\<exists>hints. peer_snapshot st baked = bounded_peers baked @ hints"
    unfolding peer_snapshot_def bounded_peers_def by (rule bounded_loop_append)
  moreover have "p \<in> set (bounded_peers baked) \<or> length (bounded_peers baked) = 16"
    if "q \<in> set baked" "normalize_peer q = Some p" for q p
    using bounded_loop_complete[of "[]" q baked p] that m by (simp add: bounded_peers_def MAX_BOOT_PEERS_def)
  ultimately show ?thesis using ok c unfolding peer_snapshot_def by blast
qed

section \<open>A baked configuration is usable\<close>

lemma addr_list_loop_Inr:
  "addr_list_loop T name out es = Inr as \<Longrightarrow> zero_address \<notin> set out \<Longrightarrow> zero_address \<notin> set as"
  by (induction T name out es rule: addr_list_loop.induct) (auto split: option.splits if_splits)

lemma ancestor_loop_Inr:
  "ancestor_loop T out es = Inr as \<Longrightarrow> \<forall>a \<in> set out. length a = 48 \<Longrightarrow> \<forall>a \<in> set as. length a = 48"
  by (induction T out es rule: ancestor_loop.induct) (auto split: option.splits if_splits)

lemma baked_owners_Inr: "baked_addr_list T name v = Inr as \<Longrightarrow> as \<noteq> [] \<and> zero_address \<notin> set as"
  by (auto simp: baked_addr_list_def try_res_Inr dest: addr_list_loop_Inr split: if_splits)

lemma baked_rpcs_Inr: "baked_rpcs name v = Inr us \<Longrightarrow> us \<noteq> [] \<and> list_all (\<lambda>u. strip_prefix ''https://'' u \<noteq> None) us"
  by (auto simp: baked_rpcs_def try_res_Inr list_all_iff list_ex_iff Let_def split: if_splits)

lemma baked_nonzero_Inr: "baked_addr_nonzero T name v = Inr a \<Longrightarrow> a \<noteq> zero_address"
  by (auto simp: baked_addr_nonzero_def try_res_Inr split: if_splits)

lemma ancestors_Inr: "parse_ancestor_pcrs T v = Inr as \<Longrightarrow> \<forall>a \<in> set as. length a = 48"
  using ancestor_loop_Inr[of T "[]"] by (auto simp: parse_ancestor_pcrs_def split: option.splits)

text \<open>
  An image that starts has a usable configuration: the owner quorum is at least one and can be reached by the baked owners,
  no governing address is the zero address, every RPC endpoint is https and there is one, and
  every ancestor measurement has the length of a PCR.
\<close>

theorem from_baked_usable:
  assumes "from_baked T env = Inr cfg"
  shows "1 \<le> bo_threshold cfg \<and> bo_threshold cfg \<le> length (bo_owners cfg)
    \<and> zero_address \<notin> {bo_registry cfg, bo_safe cfg} \<union> set (bo_owners cfg)
    \<and> bo_rh_rpcs cfg \<noteq> [] \<and> list_all (\<lambda>u. strip_prefix ''https://'' u \<noteq> None) (bo_rh_rpcs cfg)
    \<and> list_all (\<lambda>a. length a = 48) (bo_ancestors cfg)"
proof -
  obtain owners n registry safe rpcs cid ver ancs where c: "baked_addr_list T ''KEYEX_ORACLE_OWNERS'' (env ''KEYEX_ORACLE_OWNERS'') = Inr owners"
    "n \<noteq> 0" "n \<le> length owners" "baked_addr_nonzero T ''KEYEX_ORACLE_REGISTRY'' (env ''KEYEX_ORACLE_REGISTRY'') = Inr registry"
    "baked_addr_nonzero T ''KEYEX_ORACLE_SAFE'' (env ''KEYEX_ORACLE_SAFE'') = Inr safe"
    "baked_rpcs ''KEYEX_ORACLE_RH_RPCS'' (env ''KEYEX_ORACLE_RH_RPCS'') = Inr rpcs"
    "parse_ancestor_pcrs T (env ''KEYEX_ORACLE_ANCESTORS'') = Inr ancs"
    "cfg = \<lparr>bo_registry = registry, bo_rh_rpcs = rpcs, bo_safe = safe, bo_owners = owners, bo_threshold = n,
          bo_chain_id = cid, bo_version = ver, bo_ancestors = ancs, bo_peers = parse_endpoints (env ''KEYEX_ORACLE_PEERS'')\<rparr>"
    using assms unfolding from_baked_def by (auto simp: try_res_Inr Let_def not_less split: if_splits)
  then show ?thesis
    using baked_owners_Inr[OF c(1)] baked_nonzero_Inr[OF c(4)] baked_nonzero_Inr[OF c(5)] baked_rpcs_Inr[OF c(6)] ancestors_Inr[OF c(7)]
    by (simp add: list_all_iff)
qed

text \<open>A codec under which an address is written as its bytes, and an image with one owner.\<close>

definition plain_codec :: text_codec where
  "plain_codec = \<lparr>addr_from_str = (\<lambda>s. Some (map (\<lambda>c. of_nat (of_char c)) s)), hex_crate_decode = (\<lambda>s. Some (map (\<lambda>c. of_nat (of_char c)) s)),
     alloy_hex_decode = (\<lambda>s. Some (map (\<lambda>c. of_nat (of_char c)) s)), addr_display = (\<lambda>_. [])\<rparr>"

definition demo_env :: baked_env where
  "demo_env = map_of [(''KEYEX_ORACLE_OWNERS'', ''o''), (''KEYEX_ORACLE_THRESHOLD'', ''1''), (''KEYEX_ORACLE_REGISTRY'', ''r''),
     (''KEYEX_ORACLE_SAFE'', ''s''), (''KEYEX_ORACLE_RH_RPCS'', ''https://a''), (''KEYEX_ORACLE_CHAIN_ID'', ''7''), (''KEYEX_ORACLE_VERSION'', ''2'')]"

lemma demo_numbers: "parse_uint 10 (2 ^ 64) ''1'' = Some 1" "parse_uint 10 (2 ^ 64) ''7'' = Some 7" "parse_uint 10 (2 ^ 64) ''2'' = Some 2"
  by (simp_all add: parse_uint_def digits_value_def to_digit_def hex_value_def)

lemma short_not_zero: "[a] \<noteq> zero_address"
  by (simp add: zero_address_def numeral_eq_Suc)

lemma demo_entries: "comma_entries ''o'' = [''o'']" "comma_entries ''https://a'' = [''https://a'']"
  by (simp_all add: comma_entries_def trim_printable printable_def)

lemma demo_baked:
  "from_baked plain_codec demo_env = Inr \<lparr>bo_registry = [114], bo_rh_rpcs = [''https://a''], bo_safe = [115], bo_owners = [[111]],
      bo_threshold = 1, bo_chain_id = 7, bo_version = 2, bo_ancestors = [], bo_peers = []\<rparr>"
  by (simp add: from_baked_def demo_env_def baked_addr_list_def baked_u64_def demo_numbers[simplified] demo_entries short_not_zero plain_codec_def
      baked_addr_nonzero_def baked_addr_def baked_rpcs_def parse_ancestor_pcrs_def parse_endpoints_def strip_prefix_def Let_def)

theorem from_baked_usable_witness:
  "\<exists>cfg. from_baked plain_codec demo_env = Inr cfg \<and> 1 \<le> bo_threshold cfg \<and> bo_rh_rpcs cfg = [''https://a'']"
  using from_baked_usable[OF demo_baked] demo_baked by simp

lemma demo_normal: "normalize_peer ''Oracle-b'' = Some ''oracle-b:8443''" "normalize_peer ''evil host'' = None"
proof -
  have n: "read_number r m z l ''Oracle-b'' = None" for r m z l
    by (simp add: read_number_def to_digit_def hex_value_def)
  have "read_octets (Suc k) True ''Oracle-b'' = None" for k by (simp add: read_separator_def n)
  from this[of 3] have v4: "read_ipv4_addr ''Oracle-b'' = None" by (simp add: read_ipv4_addr_def)
  have g: "read_groups (Suc k) True ''Oracle-b'' = ([], False, ''Oracle-b'')" for k
    by (simp add: read_separator_def n v4)
  have v6: "read_ipv6_addr ''Oracle-b'' = None"
    unfolding read_ipv6_addr_def using g[of 7] by simp
  have ip: "parse_socket_addr ''Oracle-b'' = None" "parse_ip_addr ''Oracle-b'' = None"
    by (simp_all add: parse_socket_addr_def parse_ip_addr_def whole_def read_socket_addr_v4_def read_socket_addr_v6_def v4 v6)
  have "hex_digit 8 = CHR ''8''" "hex_digit 4 = CHR ''4''" "hex_digit 3 = CHR ''3''" by code_simp+
  then have p: "dec_of_nat 8443 = ''8443''" by (simp add: dec_of_nat.simps)
  have o: "char_of (111 :: nat) = CHR ''o''" by (simp add: char_of_eq_iff)
  show "normalize_peer ''Oracle-b'' = Some ''oracle-b:8443''"
    by (simp add: normalize_peer_def MAX_PEER_ENDPOINT_LEN_def ip is_ascii_def is_ascii_whitespace_def is_ascii_control_def
        strip_prefix_def normalize_host_def split_once_def PEER_PORT_def p strip_suffix_def suffix_def is_ascii_digit_def
        label_ok_def is_ascii_alphanumeric_def is_ascii_lower_def is_ascii_upper_def to_ascii_lowercase_def ascii_lower_def o Let_def)
  show "normalize_peer ''evil host'' = None"
    by (simp add: normalize_peer_def is_ascii_whitespace_def)
qed

theorem peer_snapshot_safe_witness:
  "\<exists>hints. peer_snapshot (set_peer_hints [''evil host''] OracleKeyexState_new) [''Oracle-b''] = [''oracle-b:8443''] @ hints"
proof -
  have "bounded_peers [''Oracle-b''] = [''oracle-b:8443'']" by (simp add: bounded_peers_def demo_normal MAX_BOOT_PEERS_def)
  with peer_snapshot_safe[of "set_peer_hints [''evil host''] OracleKeyexState_new" "[''Oracle-b'']"] show ?thesis by simp
qed

end
