(* ===== verification/Keyex_Oracle.thy ===== *)
theory Keyex_Oracle
  imports Handover Price_Server Keyex_State
begin

text \<open>
  The key-exchange oracle: \<open>src/keyex_oracle/control.rs\<close> (the operator's channel), \<open>handover.rs\<close> (serving
  the key), \<open>signer.rs\<close> and \<open>mod.rs\<close> (boot). Its \<open>transport.rs\<close> is the text of the bridge's transport,
  which \<open>Transport\<close> models.

  Every access to the state is one critical section. No holder of the lock can panic, so the lock
  is never poisoned, and a handler is one step on the state: what it decides does not depend on
  the state it updates. Parameters are the curve, the EIP-712 hash, the JSON library, address and
  hexadecimal codecs, and the machine.
\<close>

section \<open>Reading an approval\<close>

datatype FieldError = NotU64 | BadHexU64 | BadDecimalU64 | NonNumeric | OutOfU8 | MissingHex | NotHex | NotBytes nat

text \<open>Why an approval is not accepted; the code reports these as text.\<close>

datatype ApprovalRefusal =
    ClockUnavailable | QuorumReadFailed string | QuorumRefused QuorumError
  | NoDomain | DomainNameMismatch | DomainVersionMismatch | ChainIdMismatch u64 u64 | NoMessage
  | BadField FieldError | InvalidMode u8 | InvalidRole u8
  | OwnPcrAtVersion u64 u64 | NotApproved ApprovalError

definition parse_u64_flexible :: "Value option \<Rightarrow> (FieldError, u64) res" where
  "parse_u64_flexible v =
     (case v of
        Some (JNum n) \<Rightarrow> if 0 \<le> n \<and> n < 2 ^ 64 then Inr (of_int n) else Inl NotU64
      | Some (JFloat _ _ _) \<Rightarrow> Inl NotU64
      | Some (JStr s) \<Rightarrow>
          let s = trim s in
          (case strip_prefix ''0x'' s of
             Some hexpart \<Rightarrow> ok_or BadHexU64 (map_option of_nat (parse_uint 16 (2 ^ 64) hexpart))
           | None \<Rightarrow> ok_or BadDecimalU64 (map_option of_nat (parse_uint 10 (2 ^ 64) s)))
      | _ \<Rightarrow> Inl NonNumeric)"

definition parse_u8_flexible :: "Value option \<Rightarrow> (FieldError, u8) res" where
  "parse_u8_flexible v =
     try_res (parse_u64_flexible v) (\<lambda>n. if unat n < 256 then Inr (of_nat (unat n)) else Inl OutOfU8)"

definition parse_hex_bytes :: "text_codec \<Rightarrow> nat \<Rightarrow> Value option \<Rightarrow> (FieldError, bytes) res" where
  "parse_hex_bytes T n v =
     try_res (ok_or MissingHex (Option.bind v as_str)) (\<lambda>s.
     try_res (ok_or NotHex (hex_crate_decode T (trim_0x (trim s)))) (\<lambda>b.
     if length b = n then Inr b else Inl (NotBytes n)))"

definition parse_approval_request :: "text_codec \<Rightarrow> Value \<Rightarrow> u64 \<Rightarrow> (ApprovalRefusal, ApprovalRequest) res" where
  "parse_approval_request T td expected_chain_id =
     try_res (ok_or NoDomain (json_get td ''domain'')) (\<lambda>dom.
     if Option.bind (json_get dom ''name'') as_str \<noteq> Some ''Kaskad Keyex'' then Inl DomainNameMismatch
     else if Option.bind (json_get dom ''version'') as_str \<noteq> Some ''1'' then Inl DomainVersionMismatch
     else
     try_res (map_err BadField (parse_u64_flexible (json_get dom ''chainId''))) (\<lambda>cid.
     if cid \<noteq> expected_chain_id then Inl (ChainIdMismatch cid expected_chain_id)
     else
     try_res (ok_or NoMessage (json_get td ''message'')) (\<lambda>msg.
     try_res (map_err BadField (parse_hex_bytes T 48 (json_get msg ''pcr0''))) (\<lambda>pcr0.
     try_res (map_err BadField (parse_u64_flexible (json_get msg ''version''))) (\<lambda>ver.
     try_res (map_err BadField (parse_u8_flexible (json_get msg ''mode''))) (\<lambda>mode_u8.
     try_res (ok_or (InvalidMode mode_u8) (mode_of_u8 mode_u8)) (\<lambda>mode.
     try_res (map_err BadField (parse_hex_bytes T 32 (json_get msg ''label''))) (\<lambda>label.
     try_res (map_err BadField (parse_u8_flexible (json_get msg ''role''))) (\<lambda>role_u8.
     try_res (ok_or (InvalidRole role_u8) (role_of_u8 role_u8)) (\<lambda>role.
     try_res (map_err BadField (parse_u64_flexible (json_get msg ''expiry''))) (\<lambda>expiry.
     try_res (map_err BadField (parse_hex_bytes T 32 (json_get msg ''nonce''))) (\<lambda>nonce.
     Inr \<lparr>req_pcr0 = pcr0, req_version = ver, req_mode = mode, req_label = label, req_role = role,
          req_expiry = expiry, req_nonce = nonce, req_chain_id = expected_chain_id\<rparr>))))))))))))"

definition parse_signature :: "text_codec \<Rightarrow> string \<Rightarrow> bytes option" where
  "parse_signature T s =
     (let t = trim s; hexpart = (case strip_prefix ''0x'' t of Some r \<Rightarrow> r | None \<Rightarrow> t)
      in case hex_crate_decode T hexpart of
           Some raw \<Rightarrow> if length raw = 65 then Some raw else None
         | None \<Rightarrow> None)"

definition process_approval ::
    "('g, 'v, 'k) ecdsa \<Rightarrow> eip712 \<Rightarrow> text_codec \<Rightarrow> Value \<Rightarrow> string list \<Rightarrow> u64 \<Rightarrow> address list \<Rightarrow> nat \<Rightarrow> u64 \<Rightarrow> bytes \<Rightarrow> u64
     \<Rightarrow> (ApprovalRefusal, VerifiedApproval) res" where
  "process_approval E hash T td sigs_hex expected_chain_id owners threshold now own_pcr0 own_version =
     try_res (parse_approval_request T td expected_chain_id) (\<lambda>req.
     if req_pcr0 req = own_pcr0 \<and> \<not> approval_version_matches_new_image (req_version req) own_version
     then Inl (OwnPcrAtVersion (req_version req) own_version)
     else
     try_res (map_err NotApproved
        (verify_approvals E hash req (filter_map (parse_signature T) sigs_hex) owners threshold now)) (\<lambda>_.
     Inr (from_request req)))"

section \<open>The control channel\<close>

datatype OracleRequest =
    OracleConfigure string "string list" "string list"
  | OracleApproval Value "string list"
  | OracleGetAttestation "string option"
  | OracleKeyexHealth

record KeyexHealth =
  kh_state :: BootState
  kh_source :: KeySource
  kh_signer :: string
  kh_version :: string
  kh_pcr0 :: string

datatype OracleReply =
    OracleAck bool
  | OracleApprovalResult bool "ApprovalRefusal option"
  | OracleAttestation string string string
  | OracleHealth KeyexHealth
  | OracleError string

record ControlCtx =
  cx_pcr0 :: bytes
  cx_version :: u64
  cx_owners :: "address list"
  cx_threshold :: nat
  cx_chain_id :: u64
  cx_registry :: address

text \<open>
  \<open>LiveQuorum\<close>, and its implementation on the governing multisig. The printed read error that the
  code appends to the message is left out.
\<close>

type_synonym 's live_quorum = "'s \<Rightarrow> (string, address list \<times> nat) res \<times> 's"

definition SafeQuorum_read :: "codec \<Rightarrow> 's transport \<Rightarrow> address \<Rightarrow> 's live_quorum" where
  "SafeQuorum_read C transport safe s =
     (case safe_quorum C transport safe Tag s of
        (Inl e, s) \<Rightarrow> (Inl ''multisig read failed'', s)
      | (Inr (owners, threshold), s) \<Rightarrow>
          (if unat threshold < 2 ^ 64 then Inr (owners, unat threshold) else Inl ''multisig threshold out of range'', s))"

definition resolve_quorum :: "'s live_quorum \<Rightarrow> ControlCtx \<Rightarrow> 's \<Rightarrow> (ApprovalRefusal, address list \<times> nat) res \<times> 's" where
  "resolve_quorum quorum ctx s =
     (case quorum s of
        (Inl e, s) \<Rightarrow> (Inl (QuorumReadFailed e), s)
      | (Inr (live_owners, live_threshold), s) \<Rightarrow>
          (map_err QuorumRefused (effective_quorum (cx_owners ctx) (cx_threshold ctx) live_owners live_threshold), s))"

definition approval_reply ::
    "('g, 'v, 'k) ecdsa \<Rightarrow> eip712 \<Rightarrow> text_codec \<Rightarrow> 's live_quorum \<Rightarrow> ControlCtx \<Rightarrow> Value \<Rightarrow> string list \<Rightarrow> u64
     \<Rightarrow> OracleKeyexState \<Rightarrow> 's \<Rightarrow> OracleReply \<times> OracleKeyexState \<times> 's" where
  "approval_reply E hash T quorum ctx typed_data signatures now st s =
     (case resolve_quorum quorum ctx s of
        (Inl reason, s) \<Rightarrow> (OracleApprovalResult False (Some reason), st, s)
      | (Inr (owners, threshold), s) \<Rightarrow>
          (case process_approval E hash T typed_data signatures (cx_chain_id ctx) owners threshold now (cx_pcr0 ctx) (cx_version ctx) of
             Inr va \<Rightarrow> (OracleApprovalResult True None, add_approval va st, s)
           | Inl reason \<Rightarrow> (OracleApprovalResult False (Some reason), st, s)))"

definition attestation_reply ::
    "text_codec \<Rightarrow> 's machine \<Rightarrow> ControlCtx \<Rightarrow> string option \<Rightarrow> OracleKeyexState \<Rightarrow> 's \<Rightarrow> OracleReply \<times> 's" where
  "attestation_reply T M ctx nonce st s =
     (case (ok_signer_pubkey st, ok_signer_addr st) of
        (Some pubkey, Some addr) \<Rightarrow>
          (case (case nonce of None \<Rightarrow> Some None | Some n \<Rightarrow> map_option Some (hex_crate_decode T (trim_0x (trim n)))) of
             None \<Rightarrow> (OracleError ''bad_nonce'', s)
           | Some nonce_bytes \<Rightarrow>
               (case mc_open M s of
                  (False, s) \<Rightarrow> (OracleError ''nsm_unavailable'', s)
                | (True, s) \<Rightarrow>
                    (case attestation (mc_nsm M) None nonce_bytes (Some pubkey) s of
                       (Inr doc, s) \<Rightarrow> (OracleAttestation (hex_0x doc) (addr_display T addr) (hex_0x (cx_pcr0 ctx)), s)
                     | (Inl _, s) \<Rightarrow> (OracleError ''attestation_failed'', s))))
      | _ \<Rightarrow> (OracleError ''not_ready'', s))"

definition health_reply :: "text_codec \<Rightarrow> ControlCtx \<Rightarrow> OracleKeyexState \<Rightarrow> OracleReply" where
  "health_reply T ctx st =
     OracleHealth \<lparr>kh_state = ok_boot_state st, kh_source = ok_source st,
       kh_signer = (case ok_signer_addr st of Some a \<Rightarrow> addr_display T a | None \<Rightarrow> []),
       kh_version = dec_of_nat (unat (cx_version ctx)), kh_pcr0 = hex_0x (cx_pcr0 ctx)\<rparr>"

definition handle_oracle_request ::
    "('g, 'v, 'k) ecdsa \<Rightarrow> eip712 \<Rightarrow> text_codec \<Rightarrow> nitro_crypto \<Rightarrow> 's machine \<Rightarrow> 's live_quorum \<Rightarrow> ControlCtx \<Rightarrow> OracleRequest
     \<Rightarrow> OracleKeyexState \<Rightarrow> 's \<Rightarrow> OracleReply \<times> OracleKeyexState \<times> 's" where
  "handle_oracle_request E hash T N M quorum ctx req st s =
     (case req of
        OracleConfigure registry rh_rpcs oracle_peers \<Rightarrow>
          if addr_from_str T (trim registry) = Some (cx_registry ctx)
          then (OracleAck True, set_peer_hints oracle_peers st, s)
          else (OracleAck False, st, s)
      | OracleApproval typed_data signatures \<Rightarrow>
          (case mc_open M s of
             (False, s) \<Rightarrow> (OracleApprovalResult False (Some ClockUnavailable), st, s)
           | (True, s) \<Rightarrow>
               (case now_unix_secs N (mc_nsm M) s of
                  (Inl _, s) \<Rightarrow> (OracleApprovalResult False (Some ClockUnavailable), st, s)
                | (Inr now, s) \<Rightarrow> approval_reply E hash T quorum ctx typed_data signatures now st s))
      | OracleGetAttestation nonce \<Rightarrow> (case attestation_reply T M ctx nonce st s of (r, s) \<Rightarrow> (r, st, s))
      | OracleKeyexHealth \<Rightarrow> (health_reply T ctx st, st, s))"

definition CONTROL_DEADLINE :: nat where "CONTROL_DEADLINE = 15 * 1000"

text \<open>
  One connection: the bytes written back, if any. \<open>parse\<close> and \<open>print\<close> are the JSON library, and a body
  that does not parse gets a fixed reply.
\<close>

definition handle_control_connection ::
    "('g, 'v, 'k) ecdsa \<Rightarrow> eip712 \<Rightarrow> text_codec \<Rightarrow> nitro_crypto \<Rightarrow> 's machine \<Rightarrow> 's live_quorum \<Rightarrow> (bytes \<Rightarrow> OracleRequest option)
     \<Rightarrow> (OracleReply \<Rightarrow> bytes) \<Rightarrow> 's socket \<Rightarrow> ControlCtx \<Rightarrow> OracleKeyexState \<Rightarrow> 's \<Rightarrow> bytes option \<times> OracleKeyexState \<times> 's" where
  "handle_control_connection E hash T N M quorum parse print S ctx st s =
     (case read_frame_deadline S VSOCK_MAX_FRAME (sock_now S s + CONTROL_DEADLINE) s of
        (Inl _, s) \<Rightarrow> (None, st, s)
      | (Inr buf, s) \<Rightarrow>
          (case (case parse buf of
                   Some req \<Rightarrow> (case handle_oracle_request E hash T N M quorum ctx req st s of (r, st, s) \<Rightarrow> (print r, st, s))
                 | None \<Rightarrow> (string_bytes (''{'' @ [CHR 0x22] @ ''error'' @ [CHR 0x22] @ '':'' @ [CHR 0x22] @ ''bad_request'' @ [CHR 0x22] @ ''}''), st, s)) of
             (resp, st, s) \<Rightarrow>
               (case vsock_write_frame resp VSOCK_MAX_FRAME of Inr out \<Rightarrow> Some out | Inl _ \<Rightarrow> None, st, s)))"

section \<open>Accepting connections\<close>

datatype AcceptFault = RetryNow | AcceptBackoff

text \<open>The Linux error numbers the code names.\<close>

definition classify_accept :: "int option \<Rightarrow> AcceptFault option" where
  "classify_accept errno =
     (let EINTR = 4; ENOMEM = 12; ENFILE = 23; EMFILE = 24; ECONNABORTED = 103; ENOBUFS = 105 in
      if errno \<in> {Some EINTR, Some ECONNABORTED} then Some RetryNow
      else if errno \<in> {Some EMFILE, Some ENFILE, Some ENOBUFS, Some ENOMEM} then Some AcceptBackoff
      else None)"

definition MAX_HANDOVER_INFLIGHT :: nat where "MAX_HANDOVER_INFLIGHT = 8"

text \<open>
  The handover channel counts its connections with an atomic counter: the accept loop adds one
  and, if the old value was at the limit, subtracts it again; a connection subtracts one when it ends.
  These are separate atomic steps, so a connection can end between the two of the accept loop.
\<close>

record slots =
  sl_counter :: nat
  sl_live :: nat
  sl_over :: bool

datatype slot_event = Admit | Overload | GiveBack | ConnectionEnds

inductive slot_step :: "slots \<Rightarrow> slot_event \<Rightarrow> slots \<Rightarrow> bool" where
  admit: "\<not> sl_over s \<Longrightarrow> sl_counter s < MAX_HANDOVER_INFLIGHT \<Longrightarrow>
    slot_step s Admit (s\<lparr>sl_counter := sl_counter s + 1, sl_live := sl_live s + 1\<rparr>)"
| overload: "\<not> sl_over s \<Longrightarrow> sl_counter s \<ge> MAX_HANDOVER_INFLIGHT \<Longrightarrow>
    slot_step s Overload (s\<lparr>sl_counter := sl_counter s + 1, sl_over := True\<rparr>)"
| give_back: "sl_over s \<Longrightarrow> slot_step s GiveBack (s\<lparr>sl_counter := sl_counter s - 1, sl_over := False\<rparr>)"
| connection_ends: "sl_live s > 0 \<Longrightarrow>
    slot_step s ConnectionEnds (s\<lparr>sl_counter := sl_counter s - 1, sl_live := sl_live s - 1\<rparr>)"

section \<open>Serving the key\<close>

datatype HandoverOutcome = NoKeyYet | SetupFailed | HandshakeTimedOut | HandshakeFailed | Exchanged ServerExchange

text \<open>
  The state is read twice: at the start, and for the snapshot after everything that can fail; \<open>st1\<close> is the
  state at the second reading. \<open>rcgen\<close> makes the ephemeral certificate, \<open>config\<close> the acceptor for it.
  \<open>elapsed = Some n\<close> means that the time limit cancelled the handshake after \<open>n\<close> bytes were written.
  \<open>Panic\<close> is the abort of the random generator on a device failure.
\<close>

definition handle_handover_conn ::
    "hkdf \<Rightarrow> nitro_crypto \<Rightarrow> 's machine \<Rightarrow> ('s \<Rightarrow> (bytes \<times> bytes) option \<times> 's) \<Rightarrow> (EphemeralCert \<Rightarrow> tls option) \<Rightarrow> nat option
     \<Rightarrow> bytes \<Rightarrow> u64 \<Rightarrow> OracleKeyexState \<Rightarrow> OracleKeyexState \<Rightarrow> stream \<Rightarrow> 's \<Rightarrow> (HandoverOutcome \<times> stream) run option" where
  "handle_handover_conn hkdf N M rcgen config elapsed pcr0 ver st st1 transport s =
     (if ok_root_key st = None then Some (Done (NoKeyYet, transport))
      else case mc_open M s of
        (False, s) \<Rightarrow> Some (Done (SetupFailed, transport))
      | (True, s) \<Rightarrow>
     (case now_unix_secs N (mc_nsm M) s of
        (Inl _, s) \<Rightarrow> Some (Done (SetupFailed, transport))
      | (Inr now, s) \<Rightarrow>
     (case mc_open M s of
        (False, s) \<Rightarrow> Some (Done (SetupFailed, transport))
      | (True, s) \<Rightarrow>
     (case fill_bytes (mc_nsm M) NONCE_LEN NsmRng_new s of
        None \<Rightarrow> None
      | Some (None, _, s) \<Rightarrow> Some Panic
      | Some (Some my_nonce, _, s) \<Rightarrow>
     (case rcgen s of (certified, s) \<Rightarrow>
      case generate_ephemeral_cert N certified of
        None \<Rightarrow> Some (Done (SetupFailed, transport))
      | Some cert \<Rightarrow>
     (case config cert of
        None \<Rightarrow> Some (Done (SetupFailed, transport))
      | Some acceptor \<Rightarrow>
     (case ok_root_key st1 of
        None \<Rightarrow> Some (Done (NoKeyYet, transport))
      | Some root_bytes \<Rightarrow>
          let hs = \<lparr>hs_my_cert = cert, hs_my_nonce = my_nonce, hs_verifier = NsmPeerVerifier_verify N now,
                    hs_attest_fn = (\<lambda>peer_nonce my_point.
                       case fst (attestation (mc_nsm M) None (Some peer_nonce) (Some my_point) s) of Inr d \<Rightarrow> Some d | Inl _ \<Rightarrow> None)\<rparr>;
              inputs = \<lparr>hi_own = \<lparr>img_pcr0 = pcr0, img_version = ver\<rparr>, hi_role = Oracle, hi_own_key_is_candidate = False,
                        hi_approvals = ok_approvals st1\<rparr>;
              (out, after) = run_server_handshake hkdf N acceptor transport hs inputs root_bytes
          in Some (Done (case elapsed of
                 Some n \<Rightarrow> (HandshakeTimedOut, after\<lparr>tx := take n (tx after)\<rparr>)
               | None \<Rightarrow> (case out of None \<Rightarrow> HandshakeFailed | Some e \<Rightarrow> Exchanged e, after))))))))))"

section \<open>Boot\<close>

text \<open>Drawing the first key: at most 64 draws of 32 device bytes until one is a valid scalar.\<close>

fun mint_loop :: "(bytes \<Rightarrow> 'k option) \<Rightarrow> 's nsm \<Rightarrow> nat \<Rightarrow> NsmRng \<Rightarrow> 's \<Rightarrow> ('k option \<times> 's) run option" where
  "mint_loop key_of nsm 0 rng s = Some (Done (None, s))"
| "mint_loop key_of nsm (Suc n) rng s =
     (case fill_bytes nsm 32 rng s of
        None \<Rightarrow> None
      | Some (None, _, s) \<Rightarrow> Some Panic
      | Some (Some seed, rng, s) \<Rightarrow>
          (case key_of seed of
             Some k \<Rightarrow> Some (Done (Some k, s))
           | None \<Rightarrow> mint_loop key_of nsm n rng s))"

definition NsmGenesis_generate ::
    "('g, 'v, 'k) ecdsa \<Rightarrow> (bytes \<Rightarrow> 'k option) \<Rightarrow> 's machine \<Rightarrow> OracleKeyexState \<Rightarrow> 's \<Rightarrow> ('k option \<times> OracleKeyexState \<times> 's) run option" where
  "NsmGenesis_generate E key_of M st s =
     (case mc_open M s of
        (False, s) \<Rightarrow> Some (Done (None, st, s))
      | (True, s) \<Rightarrow>
          (case mint_loop key_of (mc_nsm M) 64 NsmRng_new s of
             None \<Rightarrow> None
           | Some Panic \<Rightarrow> Some Panic
           | Some (Done (None, s)) \<Rightarrow> Some (Done (None, st, s))
           | Some (Done (Some key, s)) \<Rightarrow>
               let vk = verifying_key E key
               in Some (Done (Some key, publish_candidate (address_from_key E vk) (encoded_point E vk) st, s))))"

text \<open>
  The boot loop asks the shared state for its peers before every tick. Everything outside the loop,
  the control channel included, acts on the world between and during its calls: \<open>cell\<close> is the
  shared state in the current world.
\<close>

definition discovery_deps :: "OracleKeyexState \<Rightarrow> string list \<Rightarrow> BootDeps" where
  "discovery_deps st baked_peers =
     \<lparr>deps_role = RoleOracle, deps_peers = map (\<lambda>p. (p, RootFromRoot)) (peer_snapshot st baked_peers),
      deps_fresh_approved = False\<rparr>"

partial_function (option) run_boot_with_discovery ::
    "('g, 'v, 'k) ecdsa \<Rightarrow> ('s \<Rightarrow> OracleKeyexState) \<Rightarrow> string list \<Rightarrow> ('k, 's) peer_source \<Rightarrow> 's chain_view \<Rightarrow> ('k, 's) genesis
     \<Rightarrow> ('s \<Rightarrow> 's) \<Rightarrow> 'k BootLoopState \<Rightarrow> 's \<Rightarrow> ('k Installed \<times> 's) option" where
  "run_boot_with_discovery E cell baked_peers fetch view genesis wait loop_state s =
     (case step E (discovery_deps (cell s) baked_peers) fetch view genesis loop_state s of
        (Inr (StepOutcome.Done installed), ls, s') \<Rightarrow> Some (installed, s')
      | (Inr Continue, ls, s') \<Rightarrow> run_boot_with_discovery E cell baked_peers fetch view genesis wait ls (wait s')
      | (Inl e, ls, s') \<Rightarrow> run_boot_with_discovery E cell baked_peers fetch view genesis wait ls (wait s'))"

definition own_pcr0 :: "'s nsm \<Rightarrow> 's \<Rightarrow> bytes option \<times> 's" where
  "own_pcr0 nsm s =
     (case describe_pcr nsm 0 s of
        (Inl _, s) \<Rightarrow> (None, s)
      | (Inr d, s) \<Rightarrow> (if length (pcr_data d) = 48 then Some (pcr_data d) else None, s))"

text \<open>The installed key as a price signer, which signs and attests as the enclave signer does.\<close>

definition KeyexSigner_from_key :: "('g, 'v, 'k) ecdsa \<Rightarrow> 'k \<Rightarrow> 'k OracleSigner" where
  "KeyexSigner_from_key E key =
     (let vk = verifying_key E key in EnclaveSigner key (address_from_key E vk) (encoded_point E vk))"

fun installed_key :: "'k Installed \<Rightarrow> 'k \<times> KeySource" where
  "installed_key (InstalledCandidate key) = (key, Genesis)"
| "installed_key (InstalledPeer _ key) = (key, Peer)"

definition install_boot_key :: "('g, 'v, 'k) ecdsa \<Rightarrow> ('k \<Rightarrow> bytes) \<Rightarrow> 'k Installed \<Rightarrow> OracleKeyexState \<Rightarrow> 'k OracleSigner \<times> OracleKeyexState" where
  "install_boot_key E key_bytes installed st =
     (let (key, source_kind) = installed_key installed; signer = KeyexSigner_from_key E key
      in (signer, oracle_install_key (key_bytes key) (address_from_key E (verifying_key E key)) (sg_pubkey_bytes signer) source_kind st))"

datatype BootError = BootConfigError BakedError | NsmUnavailable | PcrUnknown | NoEgress | NoHandoverListener

text \<open>
  Start-up of the image up to the signer it returns. The world holds the shared state; \<open>connect\<close>
  makes the failover transport over the baked endpoints, \<open>enc\<close> is what a peer fetch uses of the enclave,
  and \<open>listen_ok\<close> says whether the handover listener could be bound.
\<close>

definition boot_and_serve ::
    "('g, 'v, 'k) ecdsa \<Rightarrow> (bytes \<Rightarrow> 'k option) \<Rightarrow> ('k \<Rightarrow> bytes) \<Rightarrow> text_codec \<Rightarrow> codec \<Rightarrow> nitro_crypto \<Rightarrow> baked_env \<Rightarrow> 's machine
     \<Rightarrow> (string list \<Rightarrow> 's transport option) \<Rightarrow> 's enclave \<Rightarrow> ('k, 's) genesis \<Rightarrow> ('s \<Rightarrow> 's) \<Rightarrow> ('s \<Rightarrow> OracleKeyexState)
     \<Rightarrow> bool \<Rightarrow> 's \<Rightarrow> ((BootError, 'k OracleSigner \<times> OracleKeyexState) res \<times> 's) option" where
  "boot_and_serve E key_of key_bytes T C N env M connect enc genesis wait cell listen_ok s =
     (case from_baked T env of
        Inl e \<Rightarrow> Some (Inl (BootConfigError e), s)
      | Inr cfg \<Rightarrow>
     (case mc_open M s of
        (False, s) \<Rightarrow> Some (Inl NsmUnavailable, s)
      | (True, s) \<Rightarrow>
     (case own_pcr0 (mc_nsm M) s of
        (None, s) \<Rightarrow> Some (Inl PcrUnknown, s)
      | (Some pcr0, s) \<Rightarrow>
     (case connect (bo_rh_rpcs cfg) of
        None \<Rightarrow> Some (Inl NoEgress, s)
      | Some rh \<Rightarrow>
     (case mc_open M s of
        (False, s) \<Rightarrow> Some (Inl NsmUnavailable, s)
      | (True, s) \<Rightarrow>
          let view = rpc_view C rh (bo_registry cfg) OracleRegistry Tag;
              source = RatlsPeerSource_fetch E key_of N enc \<lparr>src_own_pcr0 = pcr0, src_baked_ancestors = bo_ancestors cfg\<rparr>
          in (case run_boot_with_discovery E cell (bo_peers cfg) source view genesis wait None s of
                None \<Rightarrow> None
              | Some (installed, s) \<Rightarrow>
                  if listen_ok then Some (Inr (install_boot_key E key_bytes installed (cell s)), s)
                  else Some (Inl NoHandoverListener, s)))))))"

section \<open>The whole enclave as a machine\<close>

text \<open>
  What happens to the shared state: a control request (with the world it ran in), and the two
  steps of the boot task, which happen before it ends with an installed key.
\<close>

datatype 's keyex_event = Request OracleRequest 's | Candidate address bytes | Install bytes address bytes KeySource

inductive keyex_step ::
    "('g, 'v, 'k) ecdsa \<Rightarrow> eip712 \<Rightarrow> text_codec \<Rightarrow> nitro_crypto \<Rightarrow> 's machine \<Rightarrow> 's live_quorum \<Rightarrow> ControlCtx
     \<Rightarrow> OracleKeyexState \<Rightarrow> 's keyex_event \<Rightarrow> OracleKeyexState \<Rightarrow> bool"
  for E hash T N M quorum ctx where
  request: "handle_oracle_request E hash T N M quorum ctx req st s = (reply, st', s') \<Longrightarrow>
    keyex_step E hash T N M quorum ctx st (Request req s) st'"
| candidate: "ok_root_key st = None \<Longrightarrow>
    keyex_step E hash T N M quorum ctx st (Candidate addr pubkey) (publish_candidate addr pubkey st)"
| install: "ok_root_key st = None \<Longrightarrow>
    keyex_step E hash T N M quorum ctx st (Install root_bytes addr pubkey src) (oracle_install_key root_bytes addr pubkey src st)"

inductive_cases keyex_requestE: "keyex_step E hash T N M quorum ctx st (Request req s) st'"
inductive_cases keyex_stepE: "keyex_step E hash T N M quorum ctx st ev st'"

section \<open>The control channel and the key\<close>

lemma approval_reply_state:
  assumes "approval_reply E hash T quorum ctx td sigs now st s = (reply, st', s')"
  shows "st' = st \<or> (\<exists>va req live lt owners t s1. st' = add_approval va st \<and> quorum s = (Inr (live, lt), s1)
    \<and> effective_quorum (cx_owners ctx) (cx_threshold ctx) live lt = Inr (owners, t)
    \<and> parse_approval_request T td (cx_chain_id ctx) = Inr req \<and> va = from_request req
    \<and> verify_approvals E hash req (filter_map (parse_signature T) sigs) owners t now = Inr ())"
proof -
  obtain q s1 where q: "quorum s = (q, s1)" by (cases "quorum s")
  show ?thesis
  proof (cases q)
    case (Inl e)
    with assms q show ?thesis by (simp add: approval_reply_def resolve_quorum_def)
  next
    case (Inr ot)
    obtain live lt where ot: "ot = (live, lt)" by (cases ot)
    show ?thesis
    proof (cases "effective_quorum (cx_owners ctx) (cx_threshold ctx) live lt")
      case (Inl e)
      with assms q Inr ot show ?thesis by (simp add: approval_reply_def resolve_quorum_def)
    next
      case eff: (Inr r)
      obtain owners t where r: "r = (owners, t)" by (cases r)
      show ?thesis
      proof (cases "process_approval E hash T td sigs (cx_chain_id ctx) owners t now (cx_pcr0 ctx) (cx_version ctx)")
        case (Inl e)
        with assms q Inr ot eff r show ?thesis by (simp add: approval_reply_def resolve_quorum_def)
      next
        case (Inr va)
        from Inr obtain req where "parse_approval_request T td (cx_chain_id ctx) = Inr req" "va = from_request req"
          "verify_approvals E hash req (filter_map (parse_signature T) sigs) owners t now = Inr ()"
          by (auto simp: process_approval_def try_res_Inr split: if_splits)
        moreover have "st' = add_approval va st"
          using assms q \<open>q = Inr ot\<close> ot eff r Inr by (simp add: approval_reply_def resolve_quorum_def)
        ultimately show ?thesis using q \<open>q = Inr ot\<close> ot eff r by blast
      qed
    qed
  qed
qed

lemma parse_approval_chain: "parse_approval_request T td c = Inr req \<Longrightarrow> req_chain_id req = c"
  by (auto simp: parse_approval_request_def try_res_Inr split: if_splits)

text \<open>
  A control event that stands behind an approval: the module gave the time before the approval's
  expiry, and the request was signed for this chain by enough owners who are baked and listed live.
\<close>

definition quorum_signed ::
    "('g, 'v, 'k) ecdsa \<Rightarrow> eip712 \<Rightarrow> text_codec \<Rightarrow> nitro_crypto \<Rightarrow> 's machine \<Rightarrow> 's live_quorum \<Rightarrow> ControlCtx \<Rightarrow> 's keyex_event
     \<Rightarrow> VerifiedApproval \<Rightarrow> bool" where
  "quorum_signed E hash T N M quorum ctx ev va \<longleftrightarrow>
     (\<exists>td sigs s s1 now s2 live lt s3 req. ev = Request (OracleApproval td sigs) s
        \<and> now_unix_secs N (mc_nsm M) s1 = (Inr now, s2) \<and> now < req_expiry req
        \<and> quorum s2 = (Inr (live, lt), s3)
        \<and> va = from_request req \<and> req_chain_id req = cx_chain_id ctx
        \<and> 1 \<le> lt \<and> max (cx_threshold ctx) lt
             \<le> card (set (cx_owners ctx) \<inter> set live \<inter> signers E hash req (filter_map (parse_signature T) sigs)))"

lemma accepted_quorum_signed:
  assumes "approval_reply E hash T quorum ctx td sigs now st s2 = (reply, st', s')" "now_unix_secs N (mc_nsm M) s1 = (Inr now, s2)"
    and "a \<in> set (ok_approvals st')"
  shows "a \<in> set (ok_approvals st) \<or> quorum_signed E hash T N M quorum ctx (Request (OracleApproval td sigs) s) a"
proof (cases "st' = st")
  case False
  with approval_reply_state[OF assms(1)] obtain va req live lt owners t s3 where
    v: "st' = add_approval va st" "quorum s2 = (Inr (live, lt), s3)"
    "effective_quorum (cx_owners ctx) (cx_threshold ctx) live lt = Inr (owners, t)"
    "parse_approval_request T td (cx_chain_id ctx) = Inr req" "va = from_request req"
    "verify_approvals E hash req (filter_map (parse_signature T) sigs) owners t now = Inr ()" by blast
  have "a \<in> set (ok_approvals st) \<or> a = va" using assms(3) v(1) by (auto simp: add_approval_def split: if_splits)
  moreover have "quorum_signed E hash T N M quorum ctx (Request (OracleApproval td sigs) s) va"
  proof -
    have q: "1 \<le> lt" "max (cx_threshold ctx) lt
        \<le> card (set (cx_owners ctx) \<inter> set live \<inter> signers E hash req (filter_map (parse_signature T) sigs))" "now < req_expiry req"
      using v(3,6) effective_owners[OF v(3)] by (auto simp: effective_quorum_Inr verify_approvals_iff)
    show ?thesis
      unfolding quorum_signed_def using q v(2,5) assms(2) parse_approval_chain[OF v(4)] by blast
  qed
  ultimately show ?thesis by blast
qed (use assms(3) in simp)

lemma request_approvals:
  assumes "handle_oracle_request E hash T N M quorum ctx req st s = (reply, st', s')" "a \<in> set (ok_approvals st')"
  shows "a \<in> set (ok_approvals st) \<or> quorum_signed E hash T N M quorum ctx (Request req s) a"
proof (cases req)
  case (OracleApproval td sigs)
  obtain opened s1 where o: "mc_open M s = (opened, s1)" by (cases "mc_open M s")
  obtain c s2 where c: "now_unix_secs N (mc_nsm M) s1 = (c, s2)" by (cases "now_unix_secs N (mc_nsm M) s1")
  show ?thesis
  proof (cases "opened \<and> (\<exists>now. c = Inr now)")
    case True
    then obtain now where "opened" "c = Inr now" by blast
    with assms(1) OracleApproval o c
    have "approval_reply E hash T quorum ctx td sigs now st s2 = (reply, st', s')" by (simp add: handle_oracle_request_def)
    from accepted_quorum_signed[OF this, of N M s1 a s] c \<open>c = Inr now\<close> assms(2) OracleApproval show ?thesis by simp
  next
    case False
    then have "st' = st"
      using assms(1) OracleApproval o c by (cases opened; cases c) (auto simp: handle_oracle_request_def)
    with assms(2) show ?thesis by simp
  qed
qed (use assms in \<open>auto simp: handle_oracle_request_def set_peer_hints_def split: if_splits prod.splits\<close>)

interpretation approvals: collector "keyex_step E hash T N M quorum ctx" "\<lambda>st. set (ok_approvals st)"
  "quorum_signed E hash T N M quorum ctx" for E hash T N M quorum ctx
proof
  fix s e s' a
  assume "keyex_step E hash T N M quorum ctx s e s'" "a \<in> set (ok_approvals s')"
  then show "a \<in> set (ok_approvals s) \<or> quorum_signed E hash T N M quorum ctx e a"
    by (cases rule: keyex_step.cases) (auto simp: publish_candidate_def oracle_install_key_def dest: request_approvals)
qed

lemma add_approval_key: "add_approval va (st\<lparr>ok_root_key := k\<rparr>) = (add_approval va st)\<lparr>ok_root_key := k\<rparr>"
  by (simp add: add_approval_def)

lemma approval_reply_key:
  assumes "approval_reply E hash T quorum ctx td sigs now st s = (r, st', s')"
  shows "approval_reply E hash T quorum ctx td sigs now (st\<lparr>ok_root_key := k\<rparr>) s = (r, st'\<lparr>ok_root_key := k\<rparr>, s')"
  using assms unfolding approval_reply_def
  by (cases "resolve_quorum quorum ctx s") (auto simp: add_approval_key split: sum.splits)

lemma add_approval_frame:
  "ok_root_key (add_approval va st) = ok_root_key st" "ok_boot_state (add_approval va st) = ok_boot_state st"
  "ok_signer_addr (add_approval va st) = ok_signer_addr st" "ok_signer_pubkey (add_approval va st) = ok_signer_pubkey st"
  "ok_source (add_approval va st) = ok_source st"
  by (simp_all add: add_approval_def)

text \<open>
  C35. The control channel neither shows nor touches the key. For every request, the reply and the new state are
  the same whatever the installed root key is, and the request leaves the key, its address and the boot state as they were.
\<close>

theorem control_channel_keyless:
  assumes "handle_oracle_request E hash T N M quorum ctx req st s = (reply, st', s')"
  shows "handle_oracle_request E hash T N M quorum ctx req (st\<lparr>ok_root_key := k\<rparr>) s = (reply, st'\<lparr>ok_root_key := k\<rparr>, s')
    \<and> ok_root_key st' = ok_root_key st \<and> ok_signer_addr st' = ok_signer_addr st \<and> ok_signer_pubkey st' = ok_signer_pubkey st
    \<and> ok_boot_state st' = ok_boot_state st \<and> ok_source st' = ok_source st"
proof (cases req)
  case (OracleApproval td sigs)
  obtain opened s1 where o: "mc_open M s = (opened, s1)" by (cases "mc_open M s")
  obtain c s2 where c: "now_unix_secs N (mc_nsm M) s1 = (c, s2)" by (cases "now_unix_secs N (mc_nsm M) s1")
  show ?thesis
  proof (cases "opened \<and> (\<exists>now. c = Inr now)")
    case True
    then obtain now where n: "opened" "c = Inr now" by blast
    with assms OracleApproval o c
    have a: "approval_reply E hash T quorum ctx td sigs now st s2 = (reply, st', s')" by (simp add: handle_oracle_request_def)
    have "ok_root_key st' = ok_root_key st \<and> ok_signer_addr st' = ok_signer_addr st \<and> ok_signer_pubkey st' = ok_signer_pubkey st
        \<and> ok_boot_state st' = ok_boot_state st \<and> ok_source st' = ok_source st"
      using approval_reply_state[OF a] by (elim disjE exE conjE) (simp_all add: add_approval_frame)
    then show ?thesis using approval_reply_key[OF a, of k] OracleApproval o c n by (simp add: handle_oracle_request_def)
  next
    case False
    then show ?thesis using assms OracleApproval o c by (cases opened; cases c) (auto simp: handle_oracle_request_def)
  qed
next
  case (OracleGetAttestation nonce)
  moreover have "attestation_reply T M ctx nonce (st\<lparr>ok_root_key := k\<rparr>) s = attestation_reply T M ctx nonce st s"
    by (simp add: attestation_reply_def)
  ultimately show ?thesis using assms by (auto simp: handle_oracle_request_def split: prod.splits)
qed (use assms in \<open>auto simp: handle_oracle_request_def set_peer_hints_def health_reply_def split: if_splits\<close>)

section \<open>Handover slots\<close>

interpretation handover_slots: state_machine slot_step
  "\<lambda>s. sl_counter s = sl_live s + (if sl_over s then 1 else 0) \<and> sl_live s \<le> MAX_HANDOVER_INFLIGHT"
  by unfold_locales (auto elim!: slot_step.cases)

text \<open>
  C36. At every moment at most eight handovers hold a copy of the key, however the endings of connections interleave with the two atomic
  steps of the accept loop; and the counter never leaks a slot: when the loop is between connections it
  equals the number of live ones, so a connection is admitted whenever fewer than eight are live.
\<close>

theorem handover_slots_bounded:
  assumes "runs slot_step \<lparr>sl_counter = 0, sl_live = 0, sl_over = False\<rparr> es s"
  shows "sl_live s \<le> 8 \<and> sl_counter s \<le> 9
    \<and> (\<not> sl_over s \<and> sl_live s < 8 \<longleftrightarrow> (\<exists>s'. slot_step s Admit s'))"
proof -
  have i: "sl_counter s = sl_live s + (if sl_over s then 1 else 0) \<and> sl_live s \<le> MAX_HANDOVER_INFLIGHT"
    by (rule handover_slots.inv_runs[OF assms]) simp
  then have "\<not> sl_over s \<and> sl_live s < 8 \<longleftrightarrow> (\<exists>s'. slot_step s Admit s')"
    by (auto simp: slot_step.simps MAX_HANDOVER_INFLIGHT_def)
  with i show ?thesis by (auto simp: MAX_HANDOVER_INFLIGHT_def)
qed

theorem handover_slots_bounded_witness:
  "sl_live \<lparr>sl_counter = 1, sl_live = 1, sl_over = False\<rparr> \<le> 8 \<and> (\<exists>s'. slot_step \<lparr>sl_counter = 1, sl_live = 1, sl_over = False\<rparr> Admit s')"
proof -
  have "slot_step \<lparr>sl_counter = 0, sl_live = 0, sl_over = False\<rparr> Admit \<lparr>sl_counter = 1, sl_live = 1, sl_over = False\<rparr>"
    using slot_step.admit[of "\<lparr>sl_counter = 0, sl_live = 0, sl_over = False\<rparr>"] by (simp add: MAX_HANDOVER_INFLIGHT_def)
  then have "runs slot_step \<lparr>sl_counter = 0, sl_live = 0, sl_over = False\<rparr> [Admit] \<lparr>sl_counter = 1, sl_live = 1, sl_over = False\<rparr>"
    by (simp add: runs_Cons_iff)
  from handover_slots_bounded[OF this] show ?thesis by simp
qed

section \<open>Who gets the key\<close>

lemma handover_conn_handshake:
  assumes "handle_handover_conn hkdf N M rcgen config elapsed pcr0 ver st st1 transport s = Some (Done (out, t))" "ok_root_key st1 = Some k"
  shows "(\<exists>ho. \<forall>st2. ok_root_key st2 \<noteq> None \<longrightarrow> handle_handover_conn hkdf N M rcgen config elapsed pcr0 ver st st2 transport s = Some (Done (ho, transport)))
    \<or> (\<exists>acceptor my_nonce cert now af. config cert = Some acceptor \<and> (\<forall>k2 st2. ok_root_key st2 = Some k2 \<longrightarrow>
        handle_handover_conn hkdf N M rcgen config elapsed pcr0 ver st st2 transport s =
          (let (ho, after) = run_server_handshake hkdf N acceptor transport
               \<lparr>hs_my_cert = cert, hs_my_nonce = my_nonce, hs_verifier = NsmPeerVerifier_verify N now, hs_attest_fn = af\<rparr>
               \<lparr>hi_own = \<lparr>img_pcr0 = pcr0, img_version = ver\<rparr>, hi_role = Oracle, hi_own_key_is_candidate = False,
                 hi_approvals = ok_approvals st2\<rparr> k2
           in Some (Done (case elapsed of
                 Some n \<Rightarrow> (HandshakeTimedOut, after\<lparr>tx := take n (tx after)\<rparr>)
               | None \<Rightarrow> (case ho of None \<Rightarrow> HandshakeFailed | Some e \<Rightarrow> Exchanged e, after))))))"
proof -
  obtain b1 s1 where 1: "mc_open M s = (b1, s1)" by (cases "mc_open M s")
  obtain c s2 where 2: "now_unix_secs N (mc_nsm M) s1 = (c, s2)" by (cases "now_unix_secs N (mc_nsm M) s1")
  obtain b3 s3 where 3: "mc_open M s2 = (b3, s3)" by (cases "mc_open M s2")
  show ?thesis
  proof (cases "ok_root_key st = None \<or> \<not> b1 \<or> (\<forall>now. c \<noteq> Inr now) \<or> \<not> b3")
    case True
    then show ?thesis
      by (intro disjI1, cases "ok_root_key st"; cases b1; cases c; cases b3) (auto simp: handle_handover_conn_def 1 2 3)
  next
    case False
    then obtain now k0 where n: "ok_root_key st = Some k0" "b1" "c = Inr now" "b3" by auto
    obtain my_nonce r s4 where 4: "fill_bytes (mc_nsm M) NONCE_LEN NsmRng_new s3 = Some (Some my_nonce, r, s4)"
      using assms(1) n by (auto simp: handle_handover_conn_def 1 2 3 split: option.splits)
    obtain certified s5 where 5: "rcgen s4 = (certified, s5)" by (cases "rcgen s4")
    show ?thesis
    proof (cases "generate_ephemeral_cert N certified")
      case None
      then show ?thesis using n by (intro disjI1) (auto simp: handle_handover_conn_def 1 2 3 4 5)
    next
      case (Some cert)
      show ?thesis
      proof (cases "config cert")
        case None
        then show ?thesis using n Some by (intro disjI1) (auto simp: handle_handover_conn_def 1 2 3 4 5)
      next
        case acc: (Some acceptor)
        show ?thesis
          by (intro disjI2 exI[of _ acceptor] exI[of _ my_nonce] exI[of _ cert] exI[of _ now]
              exI[of _ "\<lambda>peer_nonce my_point. case fst (attestation (mc_nsm M) None (Some peer_nonce) (Some my_point) s5) of Inr d \<Rightarrow> Some d | Inl _ \<Rightarrow> None"])
            (use n Some acc in \<open>simp add: handle_handover_conn_def 1 2 3 4 5 Let_def\<close>)
      qed
    qed
  qed
qed

text \<open>
  C4. The key leaves the enclave only to its own image and to images the owners approved. Take any
  history of control requests and boot steps, and a connection to the handover port served in the
  state it leads to. If what the peer sees would differ with another root key in that state, then the
  peer proved, in a document that verifies against the pinned root at the module's time and that answers
  this connection's nonce with the key of this TLS session, that it runs this very image, or an image that some
  request of the history approved: for this role and this chain, before its expiry by the module's clock, signed by at
  least the baked and the live threshold of owners who are both baked and listed live, and either
  as a successor with a higher version, or as a child.
\<close>

theorem key_release_authorised:
  assumes hist: "runs (keyex_step E hash T N M quorum ctx) OracleKeyexState_new es st1" and key: "ok_root_key st1 \<noteq> None"
    and c1: "handle_handover_conn hkdf N M rcgen config elapsed (cx_pcr0 ctx) (cx_version ctx) st st1 transport s = Some (Done (out1, t1))"
    and c2: "handle_handover_conn hkdf N M rcgen config elapsed (cx_pcr0 ctx) (cx_version ctx) st (st1\<lparr>ok_root_key := Some k2\<rparr>) transport s
      = Some (Done (out2, t2))"
    and differ: "(out1, tx t1) \<noteq> (out2, tx t2)"
  shows "\<exists>now doc nonce v cert acceptor tls certs. config cert = Some acceptor \<and>
    NsmPeerVerifier_verify N now doc nonce = Some v \<and> peer_nonce v = Some nonce
    \<and> acceptor transport = Some (tls, certs) \<and> live_peer_point N certs = Some (peer_public_key v)
    \<and> (peer_pcr0 v = cx_pcr0 ctx
       \<or> (\<exists>ev \<in> set es. \<exists>a. quorum_signed E hash T N M quorum ctx ev a \<and> va_pcr0 a = peer_pcr0 v \<and> va_role a = Oracle
            \<and> (va_mode a = Carry \<and> cx_version ctx < va_version a \<or> va_mode a = Child)))"
proof -
  obtain k1 where k1: "ok_root_key st1 = Some k1" using key by blast
  define st2 where "st2 = st1\<lparr>ok_root_key := Some k2\<rparr>"
  have k2: "ok_root_key st2 = Some k2" "ok_approvals st2 = ok_approvals st1" by (simp_all add: st2_def)
  from handover_conn_handshake[OF c1 k1] show ?thesis
  proof
    assume "\<exists>ho. \<forall>st2. ok_root_key st2 \<noteq> None \<longrightarrow>
      handle_handover_conn hkdf N M rcgen config elapsed (cx_pcr0 ctx) (cx_version ctx) st st2 transport s = Some (Done (ho, transport))"
    then show ?thesis using c1 c2 k1 k2(1) differ unfolding st2_def by force
  next
    assume "\<exists>acceptor my_nonce cert now af. config cert = Some acceptor \<and> (\<forall>k2 st2. ok_root_key st2 = Some k2 \<longrightarrow>
      handle_handover_conn hkdf N M rcgen config elapsed (cx_pcr0 ctx) (cx_version ctx) st st2 transport s =
        (let (ho, after) = run_server_handshake hkdf N acceptor transport
             \<lparr>hs_my_cert = cert, hs_my_nonce = my_nonce, hs_verifier = NsmPeerVerifier_verify N now, hs_attest_fn = af\<rparr>
             \<lparr>hi_own = \<lparr>img_pcr0 = cx_pcr0 ctx, img_version = cx_version ctx\<rparr>, hi_role = Oracle, hi_own_key_is_candidate = False,
               hi_approvals = ok_approvals st2\<rparr> k2
         in Some (Done (case elapsed of
               Some n \<Rightarrow> (HandshakeTimedOut, after\<lparr>tx := take n (tx after)\<rparr>)
             | None \<Rightarrow> (case ho of None \<Rightarrow> HandshakeFailed | Some e \<Rightarrow> Exchanged e, after)))))"
    then obtain acceptor my_nonce cert now af where cfg: "config cert = Some acceptor" and
      h: "\<And>k2 st2. ok_root_key st2 = Some k2 \<Longrightarrow>
        handle_handover_conn hkdf N M rcgen config elapsed (cx_pcr0 ctx) (cx_version ctx) st st2 transport s =
        (let (ho, after) = run_server_handshake hkdf N acceptor transport
             \<lparr>hs_my_cert = cert, hs_my_nonce = my_nonce, hs_verifier = NsmPeerVerifier_verify N now, hs_attest_fn = af\<rparr>
             \<lparr>hi_own = \<lparr>img_pcr0 = cx_pcr0 ctx, img_version = cx_version ctx\<rparr>, hi_role = Oracle, hi_own_key_is_candidate = False,
               hi_approvals = ok_approvals st2\<rparr> k2
         in Some (Done (case elapsed of
               Some n \<Rightarrow> (HandshakeTimedOut, after\<lparr>tx := take n (tx after)\<rparr>)
             | None \<Rightarrow> (case ho of None \<Rightarrow> HandshakeFailed | Some e \<Rightarrow> Exchanged e, after))))"
      by (elim exE conjE) blast
    let ?hs = "\<lparr>hs_my_cert = cert, hs_my_nonce = my_nonce, hs_verifier = NsmPeerVerifier_verify N now, hs_attest_fn = af\<rparr>"
    let ?i = "\<lparr>hi_own = \<lparr>img_pcr0 = cx_pcr0 ctx, img_version = cx_version ctx\<rparr>, hi_role = Oracle, hi_own_key_is_candidate = False,
      hi_approvals = ok_approvals st1\<rparr>"
    obtain o1 a1 where r1: "run_server_handshake hkdf N acceptor transport ?hs ?i k1 = (o1, a1)"
      by (cases "run_server_handshake hkdf N acceptor transport ?hs ?i k1")
    obtain o2 a2 where r2: "run_server_handshake hkdf N acceptor transport ?hs ?i k2 = (o2, a2)"
      by (cases "run_server_handshake hkdf N acceptor transport ?hs ?i k2")
    have d: "(o1, tx a1) \<noteq> (o2, tx a2)"
      using differ c1 c2 h[OF k1] h[OF k2(1)] r1 r2 k2(2) unfolding st2_def by (cases elapsed) (auto split: option.splits)
    then obtain tls certs p where p: "acceptor transport = Some (tls, certs)" "live_peer_point N certs = Some p"
      using r1 r2 by (auto simp: run_server_handshake_def split: option.splits)
    obtain l1 l2 where e: "server_exchange hkdf (channel_of ?hs p) ?i k1 tls = (o1, l1, a1)" "server_exchange hkdf (channel_of ?hs p) ?i k2 tls = (o2, l2, a2)"
      using r1 r2 p by (auto simp: run_server_handshake_def split: prod.splits)
    obtain nonce doc t v where v0: "bound_peer (channel_of ?hs p) doc v" "peer_pcr0 v = img_pcr0 (hi_own ?i) \<or>
        (\<exists>a \<in> set (hi_approvals ?i). va_pcr0 a = peer_pcr0 v \<and> va_role a = hi_role ?i \<and>
           (va_mode a = Carry \<and> img_version (hi_own ?i) < va_version a \<or>
            va_mode a = Child \<and> hi_role ?i = Oracle \<and> derive_child hkdf k1 (va_label a) \<noteq> derive_child hkdf k2 (va_label a)))"
      using server_exchange_reveals[OF e, THEN conjunct2, THEN mp, OF d, THEN conjunct2] by (elim exE conjE) (rule that)
    note v = v0(1)
    have auth: "peer_pcr0 v = cx_pcr0 ctx \<or> (\<exists>a \<in> set (ok_approvals st1). va_pcr0 a = peer_pcr0 v \<and> va_role a = Oracle \<and>
           (va_mode a = Carry \<and> cx_version ctx < va_version a \<or> va_mode a = Child))"
      using v0(2) by (simp, blast)
    have b: "NsmPeerVerifier_verify N now doc my_nonce = Some v" "peer_nonce v = Some my_nonce" "peer_public_key v = p"
      using v by (simp_all add: bound_peer_def channel_of_def)
    have "\<exists>ev \<in> set es. quorum_signed E hash T N M quorum ctx ev a" if "a \<in> set (ok_approvals st1)" for a
      using approvals.item_origin[OF hist that] by (simp add: OracleKeyexState_new_def)
    then have "peer_pcr0 v = cx_pcr0 ctx
       \<or> (\<exists>ev \<in> set es. \<exists>a. quorum_signed E hash T N M quorum ctx ev a \<and> va_pcr0 a = peer_pcr0 v \<and> va_role a = Oracle
            \<and> (va_mode a = Carry \<and> cx_version ctx < va_version a \<or> va_mode a = Child))"
      using auth by blast
    then show ?thesis
      using b p cfg by (intro exI[of _ now] exI[of _ doc] exI[of _ my_nonce] exI[of _ v] exI[of _ cert] exI[of _ acceptor]) auto
  qed
qed

section \<open>A concrete handover\<close>

definition demo_random :: bytes where
  "demo_random = replicate 32 7 @ replicate 224 0"

lemma demo_random_simps: "length demo_random = 256" "take 32 demo_random = replicate 32 7" "demo_random \<noteq> []"
  by (simp_all add: demo_random_def)

definition keyex_machine :: "unit machine" where
  "keyex_machine = \<lparr>mc_nsm = (\<lambda>r s. ((case r of GetRandom \<Rightarrow> RandomBytes demo_random | _ \<Rightarrow> AttestationDocument [1]), s)),
     mc_open = (\<lambda>s. (True, s)), mc_now = (\<lambda>_. 5)\<rparr>"

lemma demo_device_seed:
  assumes g: "\<And>s. nsm GetRandom s = (RandomBytes demo_random, s)"
  shows "\<exists>r. fill_bytes nsm 32 NsmRng_new s = Some (Some (replicate 32 7), r, s)"
proof -
  have "get_random nsm 256 [] s = (Inr demo_random, s)"
    by (subst get_random.simps, simp add: g demo_random_simps, subst get_random.simps, simp add: demo_random_simps)
  then have r: "refill nsm NsmRng_new s = (Inr (NsmRng_new\<lparr>rng_buf := demo_random, rng_pos := 0, rng_end := 256\<rparr>), s)"
    by (simp add: refill_def REFILL_BUF_def)
  have "fill_loop (refill nsm) 32 [] NsmRng_new s = fill_loop (refill nsm) 32 (replicate 32 7)
      (NsmRng_new\<lparr>rng_buf := demo_random, rng_pos := 32, rng_end := 256\<rparr>) s"
    by (subst fill_loop.simps) (simp add: NsmRng_new_def r[unfolded NsmRng_new_def] demo_random_simps Let_def)
  also have "\<dots> = Some (Inr (replicate 32 7), NsmRng_new\<lparr>rng_buf := demo_random, rng_pos := 32, rng_end := 256\<rparr>, s)"
    by (subst fill_loop.simps) simp
  finally show ?thesis by (simp add: fill_bytes_def try_fill_bytes_def)
qed

lemma keyex_machine_nonce: "\<exists>r. fill_bytes (mc_nsm keyex_machine) 32 NsmRng_new () = Some (Some (replicate 32 7), r, ())"
  by (rule demo_device_seed) (simp add: keyex_machine_def)

definition demo_peer_stream :: stream where
  "demo_peer_stream = fresh_stream (frame (replicate 32 3) @ frame [1]) 500"

definition demo_accept :: "EphemeralCert \<Rightarrow> tls option" where
  "demo_accept = (\<lambda>_. Some (\<lambda>_. Some (demo_peer_stream, Some [[1]])))"

definition demo_ctx :: ControlCtx where
  "demo_ctx = \<lparr>cx_pcr0 = replicate 48 1, cx_version = 1, cx_owners = [], cx_threshold = 1, cx_chain_id = 1, cx_registry = []\<rparr>"

lemma demo_handover_exchange:
  assumes r: "pinned_root = Some rt" and hs: "hs_my_nonce hs = replicate 32 7" "hs_verifier hs = NsmPeerVerifier_verify (nonce_crypto (replicate 32 7) rt) 5"
    "hs_attest_fn hs = (\<lambda>n p. Some [1])" and k: "length k = 32" and i: "img_pcr0 (hi_own i) = replicate 48 1" "\<not> hi_own_key_is_candidate i"
  shows "\<exists>left t. server_exchange hkdf (channel_of hs (4 # replicate 64 7)) i k demo_peer_stream = (Some HandedOwnKey, left, t)
    \<and> tx t = frame (replicate 32 7) @ frame [1] @ frame (TAG_GRANT # k)"
proof -
  let ?p = "4 # replicate 64 7" and ?N = "nonce_crypto (replicate 32 7) rt" and ?n = "replicate 32 (7 :: byte)"
  let ?v = "\<lparr>peer_pcr0 = replicate 48 1, peer_nonce = Some ?n, peer_public_key = ?p\<rparr>"
  let ?s = demo_peer_stream
  let ?s1 = "?s\<lparr>tx := frame ?n, room := 464\<rparr>"
  let ?s2 = "?s1\<lparr>rx := frame [1]\<rparr>"
  let ?s3 = "?s2\<lparr>tx := frame ?n @ frame [1], room := 459\<rparr>"
  let ?t = "?s3\<lparr>rx := []\<rparr>"
  have v: "NsmPeerVerifier_verify ?N 5 [1] ?n = Some ?v"
    unfolding NsmPeerVerifier_verify_def using demo_attested[OF r, of 5 ?n] by (simp add: demo_parses demo_va_def)
  have l: "length (frame ?n) = 36" "length (frame [1]) = 5" by (simp_all add: frame_def)
  have "write_frame ?n ?s = (True, ?s1)" "write_frame [1] ?s2 = (True, ?s3)"
    using l by (simp_all add: write_frame_enough demo_peer_stream_def)
  moreover have "read_frame ?s1 = (Some (replicate 32 3), ?s2)" "read_frame ?s3 = (Some [1], ?t)"
    by (simp_all add: read_frame_Some MAX_FRAME_def demo_peer_stream_def)
  ultimately have h: "nonce_and_doc_exchange (channel_of hs ?p) ?s = (Some (replicate 32 3, [1]), ?t)"
    using hs by (simp add: nonce_and_doc_exchange_def channel_of_def NONCE_LEN_def)
  have b: "bound_peer (channel_of hs ?p) [1] ?v" using v hs by (simp add: bound_peer_def channel_of_def)
  have d: "decide_handover (hi_own i) (hi_role i) (peer_pcr0 ?v) (hi_own_key_is_candidate i) (hi_approvals i) = OwnKey"
    using i by (simp add: decide_handover_def)
  have "length (frame (TAG_GRANT # k)) = 37" using k by (simp add: frame_def)
  then have "write_frame (TAG_GRANT # k) ?t = (True, ?t\<lparr>tx := tx ?t @ frame (TAG_GRANT # k), room := 422\<rparr>)"
    using k by (simp add: write_frame_enough)
  then show ?thesis using server_exchange_granting[OF h b d, of k k HandedOwnKey undefined hkdf] by simp
qed

lemma demo_handover_conn:
  assumes r: "pinned_root = Some rt" and k: "ok_root_key st1 = Some k" "length k = 32"
  shows "\<exists>t. handle_handover_conn hkdf (nonce_crypto (replicate 32 7) rt) keyex_machine (\<lambda>s. (Some ([1], [2]), s)) demo_accept None
      (cx_pcr0 demo_ctx) (cx_version demo_ctx) st1 st1 s0 () = Some (Done (Exchanged HandedOwnKey, t))
    \<and> tx t = frame (replicate 32 7) @ frame [1] @ frame (TAG_GRANT # k)"
proof -
  let ?N = "nonce_crypto (replicate 32 7) rt"
  have now: "now_unix_secs ?N (mc_nsm keyex_machine) () = (Inr 5, ())"
    by (simp add: now_unix_secs_def attestation_def keyex_machine_def demo_parses)
  have att: "attestation (mc_nsm keyex_machine) a b c () = (Inr [1], ())" for a b c
    by (simp add: attestation_def keyex_machine_def)
  have p: "public_point_from_cert ?N d = Some (4 # replicate 64 7)" for d by (simp add: public_point_from_cert_def Let_def)
  let ?cert = "\<lparr>cert_der = [1], key_der = [2], public_point = 4 # replicate 64 7\<rparr>"
  let ?hs = "\<lparr>hs_my_cert = ?cert, hs_my_nonce = replicate 32 7, hs_verifier = NsmPeerVerifier_verify ?N 5, hs_attest_fn = \<lambda>n p. Some [1]\<rparr>"
  let ?i = "\<lparr>hi_own = \<lparr>img_pcr0 = cx_pcr0 demo_ctx, img_version = cx_version demo_ctx\<rparr>, hi_role = Oracle, hi_own_key_is_candidate = False,
    hi_approvals = ok_approvals st1\<rparr>"
  obtain left t where e: "server_exchange hkdf (channel_of ?hs (4 # replicate 64 7)) ?i k demo_peer_stream = (Some HandedOwnKey, left, t)"
    "tx t = frame (replicate 32 7) @ frame [1] @ frame (TAG_GRANT # k)"
    using demo_handover_exchange[OF r, of ?hs k ?i hkdf] k(2) by (auto simp: demo_ctx_def)
  obtain rg where n: "fill_bytes (mc_nsm keyex_machine) 32 NsmRng_new () = Some (Some (replicate 32 7), rg, ())"
    using keyex_machine_nonce by blast
  have "generate_ephemeral_cert ?N (Some ([1], [2])) = Some ?cert" using p by (simp add: generate_ephemeral_cert_def)
  moreover have "run_server_handshake hkdf ?N (\<lambda>_. Some (demo_peer_stream, Some [[1]])) s0 ?hs ?i k = (Some HandedOwnKey, t)"
    using e(1) p by (simp add: run_server_handshake_def live_peer_point_def)
  ultimately show ?thesis
    using k e(2) now n att by (simp add: handle_handover_conn_def NONCE_LEN_def demo_accept_def keyex_machine_def[THEN arg_cong[where f = mc_open]] Let_def)
qed

theorem key_release_authorised_witness:
  "\<exists>N now doc nonce v. NsmPeerVerifier_verify N now doc nonce = Some v \<and> peer_pcr0 v = cx_pcr0 demo_ctx"
proof -
  obtain rt where r: "pinned_root = Some rt" using pinned_root_decodes by blast
  let ?N = "nonce_crypto (replicate 32 7) rt"
  let ?st = "oracle_install_key (replicate 32 5) [] [] Genesis OracleKeyexState_new"
  let ?q = "\<lambda>s :: unit. (Inl [] :: (string, address list \<times> nat) res, s)"
  have "keyex_step toy_curve toy_hash plain_codec ?N keyex_machine ?q demo_ctx OracleKeyexState_new (Install (replicate 32 5) [] [] Genesis) ?st"
    by (rule keyex_step.install) (simp add: OracleKeyexState_new_def)
  then have hist: "runs (keyex_step toy_curve toy_hash plain_codec ?N keyex_machine ?q demo_ctx) OracleKeyexState_new
      [Install (replicate 32 5) [] [] Genesis] ?st" by (simp add: runs_Cons_iff)
  let ?h = "\<lambda>_ _ _. []" and ?s0 = "fresh_stream [] 0"
  obtain t1 where c1: "handle_handover_conn ?h ?N keyex_machine (\<lambda>s. (Some ([1], [2]), s)) demo_accept None
      (cx_pcr0 demo_ctx) (cx_version demo_ctx) ?st ?st ?s0 () = Some (Done (Exchanged HandedOwnKey, t1))"
    "tx t1 = frame (replicate 32 7) @ frame [1] @ frame (TAG_GRANT # replicate 32 5)"
    using demo_handover_conn[OF r, of ?st "replicate 32 5" ?h ?s0] by (auto simp: oracle_install_key_def)
  let ?st2 = "?st\<lparr>ok_root_key := Some (replicate 32 6)\<rparr>"
  obtain t2 where c2: "handle_handover_conn ?h ?N keyex_machine (\<lambda>s. (Some ([1], [2]), s)) demo_accept None
      (cx_pcr0 demo_ctx) (cx_version demo_ctx) ?st2 ?st2 ?s0 () = Some (Done (Exchanged HandedOwnKey, t2))"
    "tx t2 = frame (replicate 32 7) @ frame [1] @ frame (TAG_GRANT # replicate 32 6)"
    using demo_handover_conn[OF r, of ?st2 "replicate 32 6" ?h ?s0] by auto
  have "handle_handover_conn ?h ?N keyex_machine (\<lambda>s. (Some ([1], [2]), s)) demo_accept None
      (cx_pcr0 demo_ctx) (cx_version demo_ctx) ?st ?st2 ?s0 () = Some (Done (Exchanged HandedOwnKey, t2))"
    using c2(1) by (simp add: handle_handover_conn_def oracle_install_key_def)
  moreover have "(Exchanged HandedOwnKey, tx t1) \<noteq> (Exchanged HandedOwnKey, tx t2)" using c1(2) c2(2) by (simp add: frame_def)
  ultimately show ?thesis
    using key_release_authorised[OF hist _ c1(1)] by (fastforce simp: oracle_install_key_def quorum_signed_def)
qed

theorem control_channel_keyless_witness:
  "\<exists>reply. handle_oracle_request toy_curve toy_hash plain_codec (nonce_crypto [] []) keyex_machine (\<lambda>s. (Inl [], s)) demo_ctx
     (OracleGetAttestation None) (publish_candidate [2] [3] OracleKeyexState_new\<lparr>ok_root_key := Some [9]\<rparr>) () = (reply,
     publish_candidate [2] [3] OracleKeyexState_new\<lparr>ok_root_key := Some [9]\<rparr>, ()) \<and> reply = OracleAttestation (hex_0x [1]) [] (hex_0x (replicate 48 1))"
proof -
  let ?st = "publish_candidate [2] [3] OracleKeyexState_new"
  have "handle_oracle_request toy_curve toy_hash plain_codec (nonce_crypto [] []) keyex_machine (\<lambda>s. (Inl [], s)) demo_ctx
      (OracleGetAttestation None) ?st () = (OracleAttestation (hex_0x [1]) [] (hex_0x (replicate 48 1)), ?st, ())"
    by (simp add: handle_oracle_request_def attestation_reply_def publish_candidate_def keyex_machine_def attestation_def
        plain_codec_def demo_ctx_def)
  from control_channel_keyless[OF this, of "Some [9]"] show ?thesis by simp
qed

section \<open>Boot with discovery\<close>

text \<open>What the discovering loop can install, with the peers taken from whatever the state was at some tick.\<close>

definition discovery_ok ::
    "('g, 'v, 'k) ecdsa \<Rightarrow> string list \<Rightarrow> ('k, 's) peer_source \<Rightarrow> 's chain_view \<Rightarrow> ('k, 's) genesis \<Rightarrow> 'k Installed \<Rightarrow> bool" where
  "discovery_ok E baked fetch view genesis i \<longleftrightarrow> (\<exists>st. install_ok E (discovery_deps st baked) fetch view genesis i)"

lemma candidate_ok_deps: "candidate_ok E (discovery_deps st baked) genesis ls \<longleftrightarrow> candidate_ok E (discovery_deps st' baked) genesis ls"
  by (simp add: candidate_ok_def discovery_deps_def)

lemma run_boot_with_discovery_ok:
  assumes "run_boot_with_discovery E cell baked fetch view genesis wait ls s = Some (i, s')"
    "candidate_ok E (discovery_deps OracleKeyexState_new baked) genesis ls"
  shows "discovery_ok E baked fetch view genesis i"
proof -
  let ?P = "\<lambda>E (cell :: 's \<Rightarrow> OracleKeyexState) baked fetch view genesis wait ls s y.
      candidate_ok E (discovery_deps OracleKeyexState_new baked) genesis ls \<longrightarrow> discovery_ok E baked fetch view genesis (fst y)"
  have "?P E cell baked fetch view genesis wait ls s y"
    if "run_boot_with_discovery E cell baked fetch view genesis wait ls s = Some y" for y
    using that
  proof (rule run_boot_with_discovery.raw_induct[where P = ?P, rotated])
    fix run and E :: "('g, 'v, 'k) ecdsa" and cell :: "'s \<Rightarrow> OracleKeyexState" and baked and fetch :: "('k, 's) peer_source"
      and view genesis wait ls s y
    assume ih: "\<And>E cell baked fetch view genesis wait ls s y. run E cell baked fetch view genesis wait ls s = Some y \<Longrightarrow>
        ?P E cell baked fetch view genesis wait ls s y"
      and eq: "(case step E (discovery_deps (cell s) baked) fetch view genesis ls s of
          (Inl e, ls', s') \<Rightarrow> run E cell baked fetch view genesis wait ls' (wait s')
        | (Inr Continue, ls', s') \<Rightarrow> run E cell baked fetch view genesis wait ls' (wait s')
        | (Inr (StepOutcome.Done installed), ls', s') \<Rightarrow> Some (installed, s')) = Some y"
    obtain r ls' s1 where st: "step E (discovery_deps (cell s) baked) fetch view genesis ls s = (r, ls', s1)"
      by (cases "step E (discovery_deps (cell s) baked) fetch view genesis ls s")
    show "?P E cell baked fetch view genesis wait ls s y"
    proof
      assume "candidate_ok E (discovery_deps OracleKeyexState_new baked) genesis ls"
      then have ok: "candidate_ok E (discovery_deps (cell s) baked) genesis ls" using candidate_ok_deps by blast
      note so = step_ok(1,2)[OF ok st]
      show "discovery_ok E baked fetch view genesis (fst y)"
      proof (cases "\<exists>i. r = Inr (StepOutcome.Done i)")
        case True
        then obtain i where "r = Inr (StepOutcome.Done i)" by blast
        with eq st so(2)[of i] have "install_ok E (discovery_deps (cell s) baked) fetch view genesis (fst y)" by auto
        then show ?thesis unfolding discovery_ok_def by blast
      next
        case False
        then have "run E cell baked fetch view genesis wait ls' (wait s1) = Some y"
          using eq st by (auto split: sum.splits StepOutcome.splits)
        moreover have "candidate_ok E (discovery_deps OracleKeyexState_new baked) genesis ls'" using so(1) candidate_ok_deps by blast
        ultimately show ?thesis using ih by blast
      qed
    qed
  qed
  from this[OF assms(1)] assms(2) show ?thesis by simp
qed

lemma boot_and_serve_Inr:
  assumes "boot_and_serve E key_of key_bytes T C N env M connect enc genesis wait cell listen_ok s = Some (Inr (signer, st), s')"
  obtains cfg pcr0 s1 s2 rh s3 installed where "from_baked T env = Inr cfg" "own_pcr0 (mc_nsm M) s1 = (Some pcr0, s2)"
    "connect (bo_rh_rpcs cfg) = Some rh"
    "run_boot_with_discovery E cell (bo_peers cfg)
       (RatlsPeerSource_fetch E key_of N enc \<lparr>src_own_pcr0 = pcr0, src_baked_ancestors = bo_ancestors cfg\<rparr>)
       (rpc_view C rh (bo_registry cfg) OracleRegistry Tag) genesis wait None s3 = Some (installed, s')"
    "install_boot_key E key_bytes installed (cell s') = (signer, st)"
proof -
  obtain cfg where cfg: "from_baked T env = Inr cfg"
    using assms by (cases "from_baked T env") (auto simp: boot_and_serve_def)
  obtain b1 s1 where 1: "mc_open M s = (b1, s1)" by (cases "mc_open M s")
  obtain p s2 where 2: "own_pcr0 (mc_nsm M) s1 = (p, s2)" by (cases "own_pcr0 (mc_nsm M) s1")
  obtain b3 s3 where 3: "mc_open M s2 = (b3, s3)" by (cases "mc_open M s2")
  obtain pcr0 rh where b: "b1" "p = Some pcr0" "connect (bo_rh_rpcs cfg) = Some rh" "b3"
    using assms by (cases b1; cases p; cases "connect (bo_rh_rpcs cfg)"; cases b3) (auto simp: boot_and_serve_def cfg 1 2 3)
  let ?run = "run_boot_with_discovery E cell (bo_peers cfg)
       (RatlsPeerSource_fetch E key_of N enc \<lparr>src_own_pcr0 = pcr0, src_baked_ancestors = bo_ancestors cfg\<rparr>)
       (rpc_view C rh (bo_registry cfg) OracleRegistry Tag) genesis wait None s3"
  obtain installed s4 where r: "?run = Some (installed, s4)"
    using assms b by (cases ?run) (auto simp: boot_and_serve_def cfg 1 2 3 Let_def)
  then have "install_boot_key E key_bytes installed (cell s4) = (signer, st)" "s4 = s'"
    using assms b by (auto simp: boot_and_serve_def cfg 1 2 3 Let_def split: if_splits)
  with cfg 2 b r show ?thesis by (intro that) auto
qed

text \<open>The candidates of the boot loop are those of \<open>NsmGenesis\<close>, wherever it returns.\<close>

definition module_genesis ::
    "('g, 'v, 'k) ecdsa \<Rightarrow> (bytes \<Rightarrow> 'k option) \<Rightarrow> 's machine \<Rightarrow> ('s \<Rightarrow> OracleKeyexState) \<Rightarrow> ('k, 's) genesis \<Rightarrow> bool" where
  "module_genesis E key_of M cell genesis \<longleftrightarrow>
     (\<forall>t r t'. genesis t = (r, t') \<longrightarrow> (\<exists>st t''. NsmGenesis_generate E key_of M (cell t) t = Some (Done (r, st, t''))))"

lemma mint_loop_key:
  "mint_loop key_of nsm n rng s = Some (Done (Some k, s')) \<Longrightarrow>
   \<exists>seed rng t rng' t'. fill_bytes nsm 32 rng t = Some (Some seed, rng', t') \<and> key_of seed = Some k"
  by (induction key_of nsm n rng s rule: mint_loop.induct) (fastforce split: option.splits)+

lemma module_genesis_key:
  assumes "module_genesis E key_of M cell genesis" "genesis t = (Some k, t')"
  shows "\<exists>seed rng t rng' t'. fill_bytes (mc_nsm M) 32 rng t = Some (Some seed, rng', t') \<and> key_of seed = Some k"
proof -
  obtain st t'' where "NsmGenesis_generate E key_of M (cell t) t = Some (Done (Some k, st, t''))"
    using assms unfolding module_genesis_def by blast
  then have "\<exists>s s'. mint_loop key_of (mc_nsm M) 64 NsmRng_new s = Some (Done (Some k, s'))"
    by (auto simp: NsmGenesis_generate_def Let_def split: prod.splits bool.splits option.splits run.splits)
  then show ?thesis by (elim exE) (rule mint_loop_key)
qed


text \<open>A first boot with no peers: nobody is listed until this enclave's candidate is.\<close>

definition first_codec :: codec where
  "first_codec = \<lparr>hex_decode = (\<lambda>s. Some (replicate 32 (if s = [] then 0 else 5))), hex_encode_prefixed = (\<lambda>b. []),
     address_to_string = (\<lambda>b. [])\<rparr>"

definition first_host :: "bool transport" where
  "first_host method params listed =
     (Some (if method = ''eth_getBlockByNumber''
            then JObj [(''number'', JStr (quantity 100)), (''hash'', JStr ''0xa''), (''timestamp'', JStr (quantity 7))]
            else JStr (if listed then ''0xa'' else ''0x'')), listed)"

definition first_machine :: "bool machine" where
  "first_machine = \<lparr>mc_nsm = (\<lambda>req s. (case req of GetRandom \<Rightarrow> RandomBytes demo_random | _ \<Rightarrow> PcrData True (replicate 48 4), s)), mc_open = (\<lambda>s. (True, s)), mc_now = (\<lambda>s. 0)\<rparr>"

lemma first_decode: "decode_hex first_codec ''0x'' = Some (replicate 32 0)" "decode_hex first_codec ''0xa'' = Some (replicate 32 5)"
  by (simp_all add: decode_hex_def first_codec_def strip_prefix_def)

lemma first_block: "finalized_block first_codec first_host Tag s = (Inr \<lparr>blk_number = 100, blk_hash = replicate 32 5, blk_timestamp = 7\<rparr>, s)"
  by (simp add: finalized_block_def read_block_def first_host_def Let_def parse_quantity_format parse_b256_def first_decode)

lemma first_word: "eth_call_word first_codec first_host to data blk s = (Inr (replicate 32 (if s then 5 else 0)), s)"
  by (simp add: eth_call_word_def eth_call_bytes_def Let_def first_host_def first_decode)

lemma u256_be_zeros: "u256_be (replicate n 0) = 0"
  by (induction n) (simp_all add: u256_be_def)

lemma first_view:
  "registered (rpc_view first_codec first_host reg OracleRegistry Tag) a s = (Inr s, s)"
  "view_signer_count (rpc_view first_codec first_host reg OracleRegistry Tag) False = (Inr 0, False)"
  by (auto simp: rpc_view_def is_valid_signer_def signer_count_def first_block first_word u256_be_zeros)

lemma first_snapshot: "peer_snapshot OracleKeyexState_new [] = []"
  by (simp add: peer_snapshot_def OracleKeyexState_new_def bounded_peers_def)

lemma first_run:
  "run_boot_with_discovery toy_curve (\<lambda>_. OracleKeyexState_new) [] fetch (rpc_view first_codec first_host reg OracleRegistry Tag)
     (\<lambda>_. (Some (toy_key 7), True)) (\<lambda>s. s) None False = Some (InstalledCandidate (toy_key 7), True)"
proof -
  let ?v = "rpc_view first_codec first_host reg OracleRegistry Tag"
  let ?st = "step toy_curve (discovery_deps OracleKeyexState_new []) fetch ?v (\<lambda>_. (Some (toy_key 7), True))"
  have "?st None False = (Inr Continue, Some (address_from_key toy_curve (verifying_key toy_curve (toy_key 7)), toy_key 7), True)"
    "?st (Some (a, toy_key 7)) True = (Inr (StepOutcome.Done (InstalledCandidate (toy_key 7))), None, True)" for a
    by (simp_all add: step_def discovery_deps_def first_snapshot tick_def first_view read_bind_def read_ok_def Let_def)
  then show ?thesis by (simp add: run_boot_with_discovery.simps[of toy_curve])
qed

lemma first_genesis: "module_genesis toy_curve (\<lambda>seed. Some (take 20 seed)) first_machine cell (\<lambda>_. (Some (toy_key 7), True))"
proof -
  have "\<exists>t'. mint_loop (\<lambda>seed. Some (take 20 seed)) (mc_nsm first_machine) (Suc n) NsmRng_new s = Some (Done (Some (toy_key 7), t'))" for s n
    using demo_device_seed[of "mc_nsm first_machine" s] by (auto simp: first_machine_def toy_key_def)
  from this[of 63] have m: "\<exists>t'. mint_loop (\<lambda>seed. Some (take 20 seed)) (mc_nsm first_machine) 64 NsmRng_new s = Some (Done (Some (toy_key 7), t'))" for s
    by simp
  have op: "mc_open first_machine s = (True, s)" for s by (simp add: first_machine_def)
  have "\<exists>st t''. NsmGenesis_generate toy_curve (\<lambda>seed. Some (take 20 seed)) first_machine (cell t) t = Some (Done (Some (toy_key 7), st, t''))" for t
    using m[of t] by (auto simp: NsmGenesis_generate_def op Let_def)
  then show ?thesis by (simp add: module_genesis_def)
qed


end
