(* ===== verification/Bridge_Runner.thy ===== *)
theory Bridge_Runner
  imports Bridge Keyex_Oracle
begin

text \<open>
  The bridge image from start-up to service: \<open>crates/pontifex-bridge/src/config.rs\<close> (what is baked),
  \<open>runner.rs\<close> (boot), \<open>nitro.rs\<close> and \<open>serve.rs\<close> (connections). Its helpers for baked values and its own
  measurement are the text of the oracle's, which \<open>Keyex_State\<close> and \<open>Keyex_Oracle\<close> model.

  The world holds the shared state, which \<open>cell\<close> reads: requests are served while the boot task runs, so the
  state may be another one after every call of that task.
\<close>

section \<open>The baked identity\<close>

definition BakedIdentity_from_baked :: "text_codec \<Rightarrow> baked_env \<Rightarrow> (BakedError, BakedIdentity) res" where
  "BakedIdentity_from_baked T env =
     try_res (baked_addr T ''PONTIFEX_EXIT'' (env ''PONTIFEX_EXIT'')) (\<lambda>exit.
     try_res (baked_addr T ''PONTIFEX_KSKD'' (env ''PONTIFEX_KSKD'')) (\<lambda>kskd.
     try_res (baked_addr_nonzero T ''PONTIFEX_ENTRY'' (env ''PONTIFEX_ENTRY'')) (\<lambda>entry.
     try_res (baked_u64 ''PONTIFEX_CHAIN_ID'' (env ''PONTIFEX_CHAIN_ID'')) (\<lambda>chain_id.
     Inr \<lparr>baked_exit = exit, baked_kskd = kskd, baked_entry = entry, baked_chain_id = chain_id\<rparr>))))"

definition baked_igra_rpcs :: "baked_env \<Rightarrow> (BakedError, string list) res" where
  "baked_igra_rpcs env = baked_rpcs ''PONTIFEX_IGRA_RPCS'' (env ''PONTIFEX_IGRA_RPCS'')"

definition baked_ancestor_pcrs :: "text_codec \<Rightarrow> baked_env \<Rightarrow> (BakedError, bytes list) res" where
  "baked_ancestor_pcrs T env = parse_ancestor_pcrs T (env ''PONTIFEX_ANCESTOR_PCRS'')"

definition bridge_version :: "baked_env \<Rightarrow> u64" where
  "bridge_version env =
     (case Option.bind (env ''PONTIFEX_VERSION'') (parse_uint 10 (2 ^ 64)) of Some v \<Rightarrow> of_nat v | None \<Rightarrow> 1)"

section \<open>Boot\<close>

definition RefusingGenesis_generate :: "('k, 's) genesis" where
  "RefusingGenesis_generate s = (None, s)"

definition bridge_deps :: "BridgeConfig \<Rightarrow> BootDeps" where
  "bridge_deps cfg =
     \<lparr>deps_role = RoleBridge, deps_peers = map (\<lambda>p. (p, BridgeFromParent)) (cfg_oracle_peers cfg),
      deps_fresh_approved = False\<rparr>"

text \<open>The peer source acts on the network only, beside the failover's position and request counters.\<close>

definition net_source :: "('k, 'w) peer_source \<Rightarrow> ('k, nat \<times> 'w net) peer_source" where
  "net_source fetch endpoint kind s =
     (let (sticky, ids, w) = s; (r, w') = fetch endpoint kind w in (r, (sticky, ids, w')))"

text \<open>One tick with one configuration: \<open>None\<close> when no failover can be made of its endpoints.\<close>

definition bridge_tick ::
    "('g, 'v, 'k) ecdsa \<Rightarrow> codec \<Rightarrow> 'w http \<Rightarrow> ('k, 'w) peer_source \<Rightarrow> BridgeConfig \<Rightarrow> 'k BootLoopState \<Rightarrow> 'w
     \<Rightarrow> ((StepError, 'k StepOutcome) res \<times> 'k BootLoopState \<times> 'w) option" where
  "bridge_tick E C http fetch cfg loop_state w =
     (case failover_new http (cfg_rh_rpcs cfg) of
        None \<Rightarrow> None
      | Some rh \<Rightarrow>
          let view = rpc_view C (failover_rpc rh) (cfg_entry cfg) BridgeRegistry Tag;
              (r, loop_state, (sticky, ids, w)) =
                step E (bridge_deps cfg) (net_source fetch) view RefusingGenesis_generate loop_state
                  (0, replicate (length (cfg_rh_rpcs cfg)) 1, w)
          in Some (r, loop_state, w))"

text \<open>What a tick's result does to the state: the key is installed, boot is given up, or it goes on.\<close>

definition boot_outcome ::
    "BridgeConfig \<Rightarrow> (StepError, 'k StepOutcome) res \<Rightarrow> 'k BridgeState \<Rightarrow> 'k BridgeState option option" where
  "boot_outcome cfg r st =
     (case r of
        Inr (StepOutcome.Done (InstalledPeer address key)) \<Rightarrow>
          (case bs_config st of
             Some current \<Rightarrow>
               if cfg_rh_rpcs current = cfg_rh_rpcs cfg \<and> cfg_oracle_peers current = cfg_oracle_peers cfg
               then Some (Some (install_key st key address)) else None
           | None \<Rightarrow> None)
      | Inr (StepOutcome.Done (InstalledCandidate _)) \<Rightarrow> Some None
      | Inr Continue \<Rightarrow> None
      | Inl e \<Rightarrow> None)"

definition usable_config :: "'k BridgeState \<Rightarrow> BridgeConfig option" where
  "usable_config st =
     (case bs_config st of Some cfg \<Rightarrow> if cfg_rh_rpcs cfg \<noteq> [] then Some cfg else None | None \<Rightarrow> None)"

partial_function (option) boot_with_config ::
    "('g, 'v, 'k) ecdsa \<Rightarrow> codec \<Rightarrow> 'w http \<Rightarrow> ('k, 'w) peer_source \<Rightarrow> ('w \<Rightarrow> 'k BridgeState) \<Rightarrow> ('w \<Rightarrow> 'w)
     \<Rightarrow> 'k BootLoopState \<Rightarrow> 'w \<Rightarrow> ('k BridgeState option \<times> 'w) option" where
  "boot_with_config E C http fetch cell backoff loop_state w =
     (case usable_config (cell w) of
        None \<Rightarrow> boot_with_config E C http fetch cell backoff loop_state (backoff w)
      | Some cfg \<Rightarrow>
          (case bridge_tick E C http fetch cfg loop_state w of
             None \<Rightarrow> boot_with_config E C http fetch cell backoff loop_state (backoff w)
           | Some (r, loop_state, w) \<Rightarrow>
               (case boot_outcome cfg r (cell w) of
                  Some out \<Rightarrow> Some (out, w)
                | None \<Rightarrow> boot_with_config E C http fetch cell backoff loop_state (backoff w))))"

datatype RunError =
    NoForwarder | RunConfigError BakedError | NoIgraRpc | NoParentAllowlist | RunNsmUnavailable | RunPcrUnknown | SetUpFailed | BootMadeCandidate

text \<open>
  Start-up. \<open>egress\<close> says whether the forwarder could be started, \<open>set_up\<close> whether the HTTP client and the listener could be made. The value is the state after the key was
  installed, with the endpoint and the identity the handlers use.
\<close>

definition run_bridge ::
    "('g, 'v, 'k) ecdsa \<Rightarrow> (bytes \<Rightarrow> 'k option) \<Rightarrow> text_codec \<Rightarrow> codec \<Rightarrow> nitro_crypto \<Rightarrow> baked_env \<Rightarrow> 'w machine \<Rightarrow> 'w http \<Rightarrow> 'w enclave
     \<Rightarrow> bool \<Rightarrow> bool \<Rightarrow> ('w \<Rightarrow> 'k BridgeState) \<Rightarrow> ('w \<Rightarrow> 'w) \<Rightarrow> 'w
     \<Rightarrow> ((RunError, 'k BridgeState \<times> string \<times> BakedIdentity) res \<times> 'w) option" where
  "run_bridge E key_of T C N env M http enc egress set_up cell backoff w =
     (if \<not> egress then Some (Inl NoForwarder, w)
      else case BakedIdentity_from_baked T env of
        Inl e \<Rightarrow> Some (Inl (RunConfigError e), w)
      | Inr baked \<Rightarrow>
     (case baked_igra_rpcs env of
        Inl e \<Rightarrow> Some (Inl (RunConfigError e), w)
      | Inr rpcs \<Rightarrow>
     (case first rpcs of
        None \<Rightarrow> Some (Inl NoIgraRpc, w)
      | Some igra_url \<Rightarrow>
     (case baked_ancestor_pcrs T env of
        Inl e \<Rightarrow> Some (Inl (RunConfigError e), w)
      | Inr ancestors \<Rightarrow>
     (if ancestors = [] then Some (Inl NoParentAllowlist, w)
      else case mc_open M w of
        (False, w) \<Rightarrow> Some (Inl RunNsmUnavailable, w)
      | (True, w) \<Rightarrow>
     (case own_pcr0 (mc_nsm M) w of
        (None, w) \<Rightarrow> Some (Inl RunPcrUnknown, w)
      | (Some pcr0, w) \<Rightarrow>
     (case mc_open M w of
        (False, w) \<Rightarrow> Some (Inl RunNsmUnavailable, w)
      | (True, w) \<Rightarrow>
     (if \<not> set_up then Some (Inl SetUpFailed, w)
      else case mc_open M w of
        (False, w) \<Rightarrow> Some (Inl RunNsmUnavailable, w)
      | (True, w) \<Rightarrow>
          (let fetch = RatlsPeerSource_fetch E key_of N enc \<lparr>src_own_pcr0 = pcr0, src_baked_ancestors = ancestors\<rparr>
           in case boot_with_config E C http fetch cell backoff None w of
                None \<Rightarrow> None
              | Some (None, w) \<Rightarrow> Some (Inl BootMadeCandidate, w)
              | Some (Some st, w) \<Rightarrow> Some (Inr (st, igra_url, baked), w))))))))))"

section \<open>Connections\<close>

definition BRIDGE_DEADLINE :: nat where "BRIDGE_DEADLINE = 15 * 1000"

text \<open>The shared state and the flag beside it, which is read without the state's lock.\<close>

record 'k Serve =
  sv_state :: "'k BridgeState"
  sv_key_installed :: bool

text \<open>What a connection is answered with. The fixed bodies are not made by the JSON library.\<close>

datatype BridgeAnswer = Answered BridgeRequest BridgeReply | BadRequest | HandlerTimeout BridgeRequest

definition quoted :: "string \<Rightarrow> string" where
  "quoted s = [CHR 0x22] @ s @ [CHR 0x22]"

definition error_body :: "string \<Rightarrow> bytes" where
  "error_body code = string_bytes (''{'' @ quoted ''error'' @ '':'' @ quoted code @ ''}'')"

fun answer_bytes :: "(BridgeReply \<Rightarrow> bytes) \<Rightarrow> BridgeAnswer \<Rightarrow> bytes" where
  "answer_bytes print (Answered req reply) = print reply"
| "answer_bytes print BadRequest = error_body ''bad_request''"
| "answer_bytes print (HandlerTimeout req) = error_body ''timeout''"

text \<open>
  One connection, answered in the state it finds when it takes the lock. \<open>expired = Some w\<close> means that the handler was
  still waiting for the network when its time ran out and was dropped with the world at \<open>w\<close>. It only waits before it touches the
  state, so nothing of it remains.
\<close>

definition handle_bridge_connection ::
    "('g, 'v, 'k) ecdsa \<Rightarrow> claim_hash \<Rightarrow> wire \<Rightarrow> 'w http \<Rightarrow> (bytes option \<Rightarrow> bytes \<Rightarrow> bytes option) \<Rightarrow> (bytes \<Rightarrow> BridgeRequest option)
     \<Rightarrow> (BridgeReply \<Rightarrow> bytes) \<Rightarrow> 'w socket \<Rightarrow> string \<Rightarrow> BakedIdentity \<Rightarrow> ('w \<Rightarrow> u64) \<Rightarrow> 'w option \<Rightarrow> 'k Serve \<Rightarrow> 'w
     \<Rightarrow> BridgeAnswer option \<times> bytes option \<times> 'k Serve \<times> 'w" where
  "handle_bridge_connection E H A http attest parse print S url baked wall expired sv w =
     (case read_frame_deadline S VSOCK_MAX_FRAME (sock_now S w + BRIDGE_DEADLINE) w of
        (Inl _, w) \<Rightarrow> (None, None, sv, w)
      | (Inr req_buf, w) \<Rightarrow>
          (case (case parse req_buf of
                   None \<Rightarrow> (BadRequest, sv, w)
                 | Some req \<Rightarrow>
                     if req = Readiness then (Answered req (ReadinessReply (sv_key_installed sv)), sv, w)
                     else case expired of
                       Some w \<Rightarrow> (HandlerTimeout req, sv, w)
                     | None \<Rightarrow>
                         let ctx = \<lparr>ctx_igra_url = url, ctx_baked = baked, ctx_enclave_now = wall w\<rparr>
                         in case handle E H A http attest ctx req (sv_state sv) w of
                              (reply, st, w) \<Rightarrow> (Answered req reply, sv\<lparr>sv_state := st\<rparr>, w)) of
             (ans, sv, w) \<Rightarrow>
               (Some ans, case vsock_write_frame (answer_bytes print ans) VSOCK_MAX_FRAME of Inr out \<Rightarrow> Some out | Inl _ \<Rightarrow> None, sv, w)))"

text \<open>
  The running service: connections, and the last two steps of the boot task, which it makes under the lock: it installs the
  key, then sets the flag.
\<close>

datatype 'k service_event = Connection "BridgeAnswer option" "bytes option" | KeyStored 'k | FlagSet

inductive service_step ::
    "('g, 'v, 'k) ecdsa \<Rightarrow> claim_hash \<Rightarrow> wire \<Rightarrow> 'w http \<Rightarrow> (bytes option \<Rightarrow> bytes \<Rightarrow> bytes option) \<Rightarrow> (bytes \<Rightarrow> BridgeRequest option)
     \<Rightarrow> (BridgeReply \<Rightarrow> bytes) \<Rightarrow> 'w socket \<Rightarrow> string \<Rightarrow> BakedIdentity \<Rightarrow> ('w \<Rightarrow> u64) \<Rightarrow> 'k Serve \<Rightarrow> 'k service_event \<Rightarrow> 'k Serve \<Rightarrow> bool"
  for E H A http attest parse print S url baked wall where
  connection: "handle_bridge_connection E H A http attest parse print S url baked wall expired sv w = (ans, out, sv', w') \<Longrightarrow>
    service_step E H A http attest parse print S url baked wall sv (Connection ans out) sv'"
| stored: "service_step E H A http attest parse print S url baked wall sv (KeyStored k)
    (sv\<lparr>sv_state := install_key (sv_state sv) k (address_from_key E (verifying_key E k))\<rparr>)"
| flag: "bs_key (sv_state sv) \<noteq> None \<Longrightarrow>
    service_step E H A http attest parse print S url baked wall sv FlagSet (sv\<lparr>sv_key_installed := True\<rparr>)"

inductive_cases service_stepE: "service_step E H A http attest parse print S url baked wall sv e sv'"

section \<open>The service as the bridge machine\<close>

fun bridge_label :: "'k service_event \<Rightarrow> 'k bridge_event option" where
  "bridge_label (Connection (Some (Answered req reply)) _) = (if req = Readiness then None else Some (Served req reply))"
| "bridge_label (KeyStored k) = Some (KeyInstalled k)"
| "bridge_label _ = None"

lemma connection_refines:
  assumes "handle_bridge_connection E H A http attest parse print S url baked wall expired sv w = (ans, out, sv', w')"
  shows "sv_key_installed sv' = sv_key_installed sv
    \<and> (case bridge_label (Connection ans out :: 'k service_event) of
         None \<Rightarrow> sv' = sv
       | Some e \<Rightarrow> bridge_step E H A http attest url baked (sv_state sv) e (sv_state sv'))
    \<and> (\<forall>b. ans = Some (Answered Readiness (ReadinessReply b)) \<longrightarrow> b = sv_key_installed sv)"
proof -
  obtain r w1 where r: "read_frame_deadline S VSOCK_MAX_FRAME (sock_now S w + BRIDGE_DEADLINE) w = (r, w1)"
    by (cases "read_frame_deadline S VSOCK_MAX_FRAME (sock_now S w + BRIDGE_DEADLINE) w")
  show ?thesis
  proof (cases r)
    case (Inr buf)
    show ?thesis
    proof (cases "parse buf")
      case (Some req)
      let ?ctx = "\<lparr>ctx_igra_url = url, ctx_baked = baked, ctx_enclave_now = wall w1\<rparr>"
      obtain reply st w2 where h: "handle E H A http attest ?ctx req (sv_state sv) w1 = (reply, st, w2)"
        by (cases "handle E H A http attest ?ctx req (sv_state sv) w1")
      show ?thesis
        using assms r Inr Some h bridge_step.serve[OF h]
        by (auto simp: handle_bridge_connection_def Let_def split: if_splits option.splits)
    qed (use assms r Inr in \<open>auto simp: handle_bridge_connection_def\<close>)
  qed (use assms r in \<open>auto simp: handle_bridge_connection_def\<close>)
qed

lemma served_key:
  assumes "bridge_step E H A http attest url baked st (Served req reply) st'"
  shows "bs_key st' = bs_key st"
  using assms
proof (cases rule: bridge_step.cases)
  case (serve now w w')
  from serve show ?thesis
  proof (cases rule: handle_cases)
    case (signed s g w1)
    from sign_claim_frame[OF signed(3)] show ?thesis by simp
  qed (auto simp: set_config_def)
qed

lemma service_refines_run:
  assumes "runs (service_step E H A http attest parse print S url baked wall) sv es sv'"
  shows "runs (bridge_step E H A http attest url baked) (sv_state sv) (filter_map bridge_label es) (sv_state sv')"
  using assms
proof (induction rule: runs.induct)
  case (runs_Cons sv e sv1 es sv')
  from runs_Cons(1) show ?case
  proof (cases rule: service_step.cases)
    case (connection expired w ans out w')
    from connection_refines[OF connection(2)] runs_Cons(3) connection(1) show ?thesis
      by (cases "bridge_label e") (auto intro: runs.runs_Cons)
  next
    case (stored k)
    then show ?thesis using runs_Cons(3) by (auto intro!: runs.runs_Cons bridge_step.install)
  next
    case flag
    then show ?thesis using runs_Cons(3) by (simp)
  qed
qed (simp)

text \<open>The flag follows the key, and the key follows the boot task.\<close>

lemma service_flag_run:
  assumes "runs (service_step E H A http attest parse print S url baked wall) sv es sv'"
    "sv_key_installed sv \<longrightarrow> bs_key (sv_state sv) \<noteq> None"
  shows "(sv_key_installed sv' \<longrightarrow> bs_key (sv_state sv') \<noteq> None)
    \<and> (bs_key (sv_state sv') \<noteq> None \<longrightarrow> bs_key (sv_state sv) \<noteq> None \<or> (\<exists>k. KeyStored k \<in> set es))"
  using assms
proof (induction rule: runs.induct)
  case (runs_Cons sv e sv1 es sv')
  have k: "(bs_key (sv_state sv1) = bs_key (sv_state sv) \<or> (\<exists>k. e = KeyStored k \<and> bs_key (sv_state sv1) \<noteq> None))
    \<and> (sv_key_installed sv1 \<longrightarrow> sv_key_installed sv \<or> bs_key (sv_state sv1) \<noteq> None)"
    using runs_Cons(1)
  proof (cases rule: service_step.cases)
    case (connection expired w ans out w')
    note c = connection_refines[OF connection(2)]
    have "bs_key (sv_state sv1) = bs_key (sv_state sv)"
    proof (cases "bridge_label e")
      case None
      then show ?thesis using c connection(1) by simp
    next
      case (Some be)
      then obtain req reply where "be = Served req reply" using connection(1) by (cases e rule: bridge_label.cases) (auto split: if_splits)
      then show ?thesis using c connection(1) Some served_key by auto
    qed
    then show ?thesis using c by simp
  qed (auto simp: install_key_def)
  show ?case using runs_Cons k by (cases "bs_key (sv_state sv)") auto
qed simp


section \<open>Boot\<close>

text \<open>What the boot loop installs: a key that one of the configured oracles granted, in the state it finds at the end.\<close>

definition bridge_boot_ok :: "('k, 'w) peer_source \<Rightarrow> 'k BridgeState \<Rightarrow> 'k BridgeState option \<Rightarrow> bool" where
  "bridge_boot_ok fetch st out \<longleftrightarrow>
     (\<exists>a k cfg p t t'. out = Some (install_key st k a) \<and> bs_config st = Some cfg \<and> p \<in> set (cfg_oracle_peers cfg)
        \<and> fetch p BridgeFromParent t = (Inr (Some \<lparr>fk_address = a, fk_key = k\<rparr>), t'))"

lemma net_source_fetched:
  "fetched_from (net_source fetch) (deps_peers (bridge_deps cfg)) fk \<Longrightarrow>
   \<exists>p t t'. p \<in> set (cfg_oracle_peers cfg) \<and> fetch p BridgeFromParent t = (Inr (Some fk), t')"
proof -
  assume "fetched_from (net_source fetch) (deps_peers (bridge_deps cfg)) fk"
  then obtain p s s' where p: "p \<in> set (cfg_oracle_peers cfg)" "net_source fetch p BridgeFromParent s = (Inr (Some fk), s')"
    by (auto simp: fetched_from_def bridge_deps_def)
  obtain sk ids t where "s = (sk, ids, t)" by (cases s)
  with p(2) have "\<exists>t'. fetch p BridgeFromParent t = (Inr (Some fk), t')"
    by (auto simp: net_source_def split: prod.splits)
  with p(1) show ?thesis by blast
qed

lemma bridge_tick_ok:
  assumes "bridge_tick E C http fetch cfg None w = Some (r, ls, w')"
  shows "ls = None" and "boot_outcome cfg r st = Some out \<Longrightarrow> bridge_boot_ok fetch st out"
proof -
  obtain rh where rh: "failover_new http (cfg_rh_rpcs cfg) = Some rh"
    using assms by (cases "failover_new http (cfg_rh_rpcs cfg)") (auto simp: bridge_tick_def)
  let ?view = "rpc_view C (failover_rpc rh) (cfg_entry cfg) BridgeRegistry Tag"
  obtain sk ids where st: "step E (bridge_deps cfg) (net_source fetch) ?view RefusingGenesis_generate None
      (0, replicate (length (cfg_rh_rpcs cfg)) 1, w) = (r, ls, (sk, ids, w'))"
    using assms rh by (auto simp: bridge_tick_def Let_def split: prod.splits)
  have c: "candidate_ok E (bridge_deps cfg) RefusingGenesis_generate None" by (simp add: candidate_ok_def)
  note ok = step_ok(1,2)[OF c st]
  have d: "deps_role (bridge_deps cfg) = RoleBridge" by (simp add: bridge_deps_def)
  show "ls = None" using ok(1) d by (cases ls) (auto simp: candidate_ok_def)
  assume oc: "boot_outcome cfg r st = Some out"
  then obtain i where i: "r = Inr (StepOutcome.Done i)" by (auto simp: boot_outcome_def split: sum.splits StepOutcome.splits)
  then have io: "install_ok E (bridge_deps cfg) (net_source fetch) ?view RefusingGenesis_generate i" by (rule ok(2))
  then obtain a k where p: "i = InstalledPeer a k" using d by (cases i) (auto simp: install_ok_def)
  then have "fetched_from (net_source fetch) (deps_peers (bridge_deps cfg)) \<lparr>fk_address = a, fk_key = k\<rparr>"
    using io by (simp add: install_ok_def)
  then show "bridge_boot_ok fetch st out"
    using net_source_fetched oc i p by (fastforce simp: bridge_boot_ok_def boot_outcome_def split: option.splits if_splits)
qed

lemma boot_with_config_ok:
  assumes "boot_with_config E C http fetch cell backoff None w = Some (out, w')"
  shows "bridge_boot_ok fetch (cell w') out"
proof -
  let ?P = "\<lambda>E C http fetch (cell :: 'w \<Rightarrow> 'k BridgeState) backoff ls w y. ls = None \<longrightarrow> bridge_boot_ok fetch (cell (snd y)) (fst y)"
  have "?P E C http fetch cell backoff ls w y" if "boot_with_config E C http fetch cell backoff ls w = Some y" for ls y
    using that
  proof (rule boot_with_config.raw_induct[where P = ?P, rotated])
    fix run and E :: "('g, 'v, 'k) ecdsa" and C and http :: "'w http" and fetch :: "('k, 'w) peer_source"
      and cell :: "'w \<Rightarrow> 'k BridgeState" and backoff ls w y
    assume ih: "\<And>E C http fetch cell backoff ls w y. run E C http fetch cell backoff ls w = Some y \<Longrightarrow>
        ?P E C http fetch cell backoff ls w y"
      and eq: "(case usable_config (cell w) of None \<Rightarrow> run E C http fetch cell backoff ls (backoff w)
        | Some cfg \<Rightarrow> (case bridge_tick E C http fetch cfg ls w of None \<Rightarrow> run E C http fetch cell backoff ls (backoff w)
            | Some (r, ls', w) \<Rightarrow> (case boot_outcome cfg r (cell w) of None \<Rightarrow> run E C http fetch cell backoff ls' (backoff w)
                | Some out \<Rightarrow> Some (out, w)))) = Some y"
    show "?P E C http fetch cell backoff ls w y"
    proof
      assume ls: "ls = None"
      consider (again) ls' w1 where "ls' = None" "run E C http fetch cell backoff ls' w1 = Some y"
        | (over) cfg r ls' out w1 where "bridge_tick E C http fetch cfg None w = Some (r, ls', w1)"
            "boot_outcome cfg r (cell w1) = Some out" "y = (out, w1)"
        using eq ls by (auto split: option.splits) (frule bridge_tick_ok(1), blast)
      then show "bridge_boot_ok fetch (cell (snd y)) (fst y)"
      proof cases
        case again
        then show ?thesis using ih by blast
      next
        case over
        then show ?thesis using bridge_tick_ok(2) by fastforce
      qed
    qed
  qed
  from this[OF assms] show ?thesis by simp
qed

lemma run_bridge_boots:
  assumes "run_bridge E key_of T C N env M http enc egress set_up cell backoff w = Some (r, w')"
    and "r = Inl BootMadeCandidate \<or> r = Inr res"
  obtains baked igra url pcr0 ancestors w1 out where "BakedIdentity_from_baked T env = Inr baked"
    "baked_igra_rpcs env = Inr igra" "first igra = Some url" "baked_ancestor_pcrs T env = Inr ancestors"
    "boot_with_config E C http (RatlsPeerSource_fetch E key_of N enc \<lparr>src_own_pcr0 = pcr0, src_baked_ancestors = ancestors\<rparr>)
       cell backoff None w1 = Some (out, w')"
    "r = (case out of None \<Rightarrow> Inl BootMadeCandidate | Some st \<Rightarrow> Inr (st, url, baked))"
  using assms
  by (auto simp: run_bridge_def Let_def split: if_splits sum.splits option.splits prod.splits bool.splits)


section \<open>A bridge that boots and serves, for the witnesses\<close>

definition bridge_codec :: text_codec where
  "bridge_codec = \<lparr>addr_from_str = (\<lambda>s. Some (replicate 20 7)), hex_crate_decode = (\<lambda>s. None),
     alloy_hex_decode = (\<lambda>s. Some (replicate 48 1)), addr_display = (\<lambda>_. [])\<rparr>"

definition bridge_env :: baked_env where
  "bridge_env = map_of [(''PONTIFEX_EXIT'', ''x''), (''PONTIFEX_KSKD'', ''k''), (''PONTIFEX_ENTRY'', ''e''), (''PONTIFEX_CHAIN_ID'', ''7''),
     (''PONTIFEX_IGRA_RPCS'', ''https://a''), (''PONTIFEX_ANCESTOR_PCRS'', ''o'')]"

definition bridge_machine :: "nat machine" where
  "bridge_machine = \<lparr>mc_nsm = (\<lambda>req s. (PcrData True (replicate 48 2), s)), mc_open = (\<lambda>s. (True, s)), mc_now = (\<lambda>s. 0)\<rparr>"

definition configured :: "nat \<Rightarrow> bytes BridgeState" where
  "configured w = set_config (BridgeState_new [] 1) (from_parts Bridge.demo_baked [''https://rh''] [''p:1''])"

lemma bridge_env_baked:
  "\<exists>baked. BakedIdentity_from_baked bridge_codec bridge_env = Inr baked" "baked_igra_rpcs bridge_env = Inr [''https://a'']"
  "baked_ancestor_pcrs bridge_codec bridge_env = Inr [replicate 48 1]"
  by (simp_all add: BakedIdentity_from_baked_def baked_addr_def baked_addr_nonzero_def baked_u64_def bridge_env_def bridge_codec_def
      demo_numbers[simplified] zero_address_def baked_igra_rpcs_def baked_rpcs_def demo_entries baked_ancestor_pcrs_def
      parse_ancestor_pcrs_def strip_prefix_def)

lemma steady_failover: "steady (failover_rpc [proxy_rpc demo_http url 0])"
  by (auto simp: steady_def failover_rpc_def proxy_rpc_def demo_http_def build_rpc_body_def parse_rpc_result_def split: prod.splits)

lemma steady_valid_signer:
  assumes "steady t"
  shows "\<exists>s'. is_valid_signer demo_codec t reg kind who Tag s = (Inr True, s')"
proof -
  obtain s1 where 1: "read_block demo_codec t None s = (Inr (Chain.demo_block 100), s1)"
    using steady_read_block[OF assms, of None s] by auto
  obtain s2 where 2: "eth_call_word demo_codec t reg (encode_call (valid_signer_selector kind) who) (Number 100) s1 = (Inr (replicate 32 5), s2)"
    using steady_call[OF assms] by blast
  from 1 2 show ?thesis
    by (intro exI[of _ s2]) (simp add: is_valid_signer_def finalized_block_def Chain.demo_block_def)
qed

lemma demo_bridge_tick:
  assumes "pinned_root = Some rt"
  shows "\<exists>w'. bridge_tick toy_curve demo_codec demo_http (RatlsPeerSource_fetch toy_curve Some (demo_crypto rt) demo_enclave demo_source)
      (from_parts Bridge.demo_baked [''https://rh''] [''p:1'']) None w
    = Some (Inr (StepOutcome.Done (InstalledPeer (address_from_key toy_curve (verifying_key toy_curve (replicate 32 5))) (replicate 32 5))), None, w')"
proof -
  let ?rh = "[proxy_rpc demo_http ''https://rh'' 0]" and ?cfg = "from_parts Bridge.demo_baked [''https://rh''] [''p:1'']"
  let ?a = "address_from_key toy_curve (verifying_key toy_curve (replicate 32 5))"
  let ?f = "RatlsPeerSource_fetch toy_curve Some (demo_crypto rt) demo_enclave demo_source"
  have rh: "failover_new demo_http [''https://rh''] = Some ?rh" "cfg_oracle_peers ?cfg = [''p:1'']" "cfg_rh_rpcs ?cfg = [''https://rh'']"
    by (simp_all add: failover_new_def from_endpoints_def from_parts_def)
  have f: "fetch_all (net_source ?f) (deps_peers (bridge_deps ?cfg)) (0, [1], w)
      = ([\<lparr>fk_address = ?a, fk_key = replicate 32 5\<rparr>], (0, [1], Suc w))"
    by (simp add: bridge_deps_def rh net_source_def demo_fetch_run[OF assms])
  obtain s' where "is_valid_signer demo_codec (failover_rpc ?rh) (cfg_entry ?cfg) BridgeRegistry ?a Tag (0, [1], Suc w) = (Inr True, s')"
    using steady_valid_signer[OF steady_failover] by blast
  then show ?thesis
    by (cases s') (simp add: bridge_tick_def rh step_def f tick_def rpc_view_def read_bind_def read_ok_def Let_def)
qed


definition idle_socket :: "nat socket" where
  "idle_socket = \<lparr>sock_read = (\<lambda>m t s. (Got (replicate m 0), s)), sock_now = (\<lambda>s. 0)\<rparr>"


end
