(* ===== verification/Feed.thy ===== *)
theory Feed
  imports Books Std_Text "HOL-Library.Monad_Syntax"
begin

text \<open>
  \<open>src/collectors/util.rs\<close>, \<open>src/collectors/sink.rs\<close> and what the sessions of \<open>src/collectors/impls/\<close>
  share: reading numbers out of a venue's JSON, one round of a session's loop, the emission of a
  book, and the sink that throttles the books on their way to the shared table.

  A round of a session takes what the \<open>select!\<close> yields, a frame of the socket or the ping timer,
  and the moment it happens at, and either ends the session with an error or gives the next state
  and the round's actions in order. The parser of JSON, the calendar of \<open>chrono\<close> and the case
  mapping of Unicode text are the fields of the record \<open>feed\<close>. Text is its UTF-8 bytes.

  Two contracts of a session are stated as locales. \<open>venue\<close>: whatever the venue sends, the books
  stay well formed and only well-formed, uncrossed books of the venue are emitted. \<open>sequenced\<close>:
  when the messages that arrive are true, in whatever order and with whatever losses, every book
  that carries a sequence number equals the venue's own book at that number, and so does what is
  emitted. Each venue's session is an instance of the first, and each session with gap detection
  of the second.
\<close>

section \<open>Numbers in text\<close>

definition parse_i64_str :: "string \<Rightarrow> int option" where
  "parse_i64_str s =
     (let (neg, ds) = (case s of [] \<Rightarrow> (False, [])
          | c # r \<Rightarrow> if c = CHR ''-'' then (True, r) else if c = CHR ''+'' then (False, r) else (False, s));
          n = int (digits_value 10 ds);
          v = (if neg then - n else n)
      in if ds = [] \<or> list_ex (\<lambda>c. \<not> is_ascii_digit c) ds \<or> \<not> is_i64 v then None else Some v)"

definition parse_u64_str :: "string \<Rightarrow> u64 option" where
  "parse_u64_str s = map_option of_nat (parse_uint 10 (2 ^ 64) s)"

text \<open>
  \<open>str::parse::<f64>\<close>. The exponent is read digit by digit until it reaches 65536, after which
  further digits are consumed and ignored.
\<close>

definition float_exponent :: "string \<Rightarrow> int option" where
  "float_exponent s =
     (case s of
        [] \<Rightarrow> Some 0
      | c # r \<Rightarrow>
          if c = CHR ''e'' \<or> c = CHR ''E'' then
            (let neg = (take 1 r = ''-'');
                 ds = (if take 1 r = ''-'' \<or> take 1 r = ''+'' then drop 1 r else r);
                 n = foldl (\<lambda>e d. if e < 65536 then 10 * e + int (the (to_digit 10 d)) else e) 0 ds
             in if ds = [] \<or> list_ex (\<lambda>d. \<not> is_ascii_digit d) ds then None else Some (if neg then - n else n))
          else None)"

definition float_magnitude :: "string \<Rightarrow> rat option" where
  "float_magnitude s =
     (let whole = takeWhile is_ascii_digit s;
          r = dropWhile is_ascii_digit s;
          point = (take 1 r = ''.'');
          frac = (if point then takeWhile is_ascii_digit (drop 1 r) else []);
          r = (if point then dropWhile is_ascii_digit (drop 1 r) else r)
      in if whole @ frac = [] then None
         else map_option (\<lambda>e. of_nat (digits_value 10 (whole @ frac)) * 10 powi (e - int (length frac)))
                (float_exponent r))"

definition parse_f64_str :: "string \<Rightarrow> f64 option" where
  "parse_f64_str s =
     (let neg = (take 1 s = ''-'');
          body = (if take 1 s = ''-'' \<or> take 1 s = ''+'' then drop 1 s else s);
          word = to_ascii_lowercase body
      in case float_magnitude body of
           Some q \<Rightarrow> Some (mkf neg (if neg then - q else q))
         | None \<Rightarrow>
             if word = ''nan'' then Some NaN
             else if word = ''inf'' \<or> word = ''infinity'' then Some (if neg then NInf else PInf)
             else None)"

section \<open>JSON values\<close>

fun as_f64 :: "Value \<Rightarrow> f64 option" where
  "as_f64 (JNum n) = Some (f64_of_int n)"
| "as_f64 (JFloat neg m e) = Some (mkf neg ((if neg then - 1 else 1) * of_nat m * 2 powi e))"
| "as_f64 _ = None"

fun as_u64 :: "Value \<Rightarrow> u64 option" where
  "as_u64 (JNum n) = (if 0 \<le> n \<and> n < 2 ^ 64 then Some (of_int n) else None)"
| "as_u64 _ = None"

fun as_i64 :: "Value \<Rightarrow> int option" where
  "as_i64 (JNum n) = (if is_i64 n then Some n else None)"
| "as_i64 _ = None"

fun as_bool :: "Value \<Rightarrow> bool option" where
  "as_bool (JBool b) = Some b"
| "as_bool _ = None"

fun as_array :: "Value \<Rightarrow> Value list option" where
  "as_array (JArr vs) = Some vs"
| "as_array _ = None"

definition parse_f64 :: "Value \<Rightarrow> f64 option" where
  "parse_f64 v = (case as_f64 v of Some n \<Rightarrow> Some n | None \<Rightarrow> as_str v \<bind> parse_f64_str)"

definition parse_u64 :: "Value \<Rightarrow> u64 option" where
  "parse_u64 v = (case as_u64 v of Some n \<Rightarrow> Some n | None \<Rightarrow> as_str v \<bind> parse_u64_str)"

definition parse_i64 :: "Value \<Rightarrow> int option" where
  "parse_i64 v = (case as_i64 v of Some n \<Rightarrow> Some n | None \<Rightarrow> as_str v \<bind> parse_i64_str)"

text \<open>Fields: \<open>.get(k).and_then(\<dots>)\<close> with the default the sessions give.\<close>

definition str_or :: "string \<Rightarrow> Value \<Rightarrow> string \<Rightarrow> string" where
  "str_or dflt v k = (case json_get v k \<bind> as_str of Some s \<Rightarrow> s | None \<Rightarrow> dflt)"

definition ts_u64 :: "Value \<Rightarrow> string \<Rightarrow> int" where
  "ts_u64 v k = (case json_get v k \<bind> parse_u64 of Some x \<Rightarrow> sint x | None \<Rightarrow> 0)"

definition ts_i64 :: "Value \<Rightarrow> string \<Rightarrow> int" where
  "ts_i64 v k = (case json_get v k \<bind> parse_i64 of Some x \<Rightarrow> x | None \<Rightarrow> 0)"

definition nth_opt :: "'a list \<Rightarrow> nat \<Rightarrow> 'a option" where
  "nth_opt xs i = (if i < length xs then Some (xs ! i) else None)"

type_synonym levels = "(f64 \<times> f64) list"

definition parse_row :: "Value \<Rightarrow> (f64 \<times> f64) option" where
  "parse_row row =
     do {
       r \<leftarrow> as_array row;
       p \<leftarrow> nth_opt r 0 \<bind> parse_f64;
       q \<leftarrow> nth_opt r 1 \<bind> parse_f64;
       Some (p, q)
     }"

definition rows_of :: "(Value \<Rightarrow> (f64 \<times> f64) option) \<Rightarrow> Value option \<Rightarrow> levels" where
  "rows_of row v = (case v \<bind> as_array of None \<Rightarrow> [] | Some arr \<Rightarrow> filter_map row arr)"

definition parse_levels :: "Value option \<Rightarrow> levels" where
  "parse_levels v = rows_of parse_row v"

section \<open>The round of a session\<close>

record feed =
  from_json :: "string \<Rightarrow> Value option"
  to_uppercase :: "string \<Rightarrow> string"
  to_lowercase :: "string \<Rightarrow> string"
  rfc3339_ms :: "string \<Rightarrow> int option"

record moment =
  received_at :: int
  send_ok :: bool

datatype WsEvent =
    WsText string | WsBinary bytes | WsPing bytes | WsPong bytes | WsClose | WsEnd | WsError | PingTick

datatype action = Emit OrderBookData | SendJson Value | SendText string | SendPong bytes

datatype 's outcome = Failed string "action list" | Next 's "action list"

definition fail :: "string \<Rightarrow> 's outcome" where
  "fail err = Failed err []"

type_synonym book_table = "string \<rightharpoonup> LocalBook"

text \<open>The frames every session treats alike; a session without a timer has no keepalive.\<close>

definition ws_round ::
    "(string \<Rightarrow> 's \<Rightarrow> 's outcome) \<Rightarrow> (bytes \<Rightarrow> 's \<Rightarrow> 's outcome) \<Rightarrow> action option \<Rightarrow> moment \<Rightarrow> WsEvent \<Rightarrow> 's \<Rightarrow> 's outcome" where
  "ws_round on_text on_binary keepalive m e s =
     (case e of
        WsText t \<Rightarrow> on_text t s
      | WsBinary b \<Rightarrow> on_binary b s
      | WsPing p \<Rightarrow> Next s [SendPong p]
      | WsPong _ \<Rightarrow> Next s []
      | WsClose \<Rightarrow> fail ''WS closed''
      | WsEnd \<Rightarrow> fail ''WS closed''
      | WsError \<Rightarrow> fail ''WS error''
      | PingTick \<Rightarrow> (case keepalive of None \<Rightarrow> Next s []
                    | Some a \<Rightarrow> if send_ok m then Next s [a] else fail ''ping send failed''))"

definition ignore :: "'a \<Rightarrow> 's \<Rightarrow> 's outcome" where
  "ignore x s = Next s []"

fun session :: "('e \<Rightarrow> 's \<Rightarrow> 's outcome) \<Rightarrow> 'e list \<Rightarrow> 's \<Rightarrow> action list \<times> string option \<times> 's" where
  "session step [] s = ([], None, s)"
| "session step (e # es) s =
     (case step e s of
        Failed err acts \<Rightarrow> (acts, Some err, s)
      | Next s' acts \<Rightarrow> (case session step es s' of (acts', r) \<Rightarrow> (acts @ acts', r)))"

text \<open>A \<open>for\<close> loop in a round: an error keeps what was done before it.\<close>

fun each :: "('i \<Rightarrow> 's \<Rightarrow> 's outcome) \<Rightarrow> 'i list \<Rightarrow> 's \<Rightarrow> 's outcome" where
  "each f [] s = Next s []"
| "each f (i # is) s =
     (case f i s of
        Failed err acts \<Rightarrow> Failed err acts
      | Next s' acts \<Rightarrow>
          (case each f is s' of
             Failed err acts' \<Rightarrow> Failed err (acts @ acts')
           | Next s'' acts' \<Rightarrow> Next s'' (acts @ acts')))"

text \<open>The table of books at the start: one new book per configured pair.\<close>

definition open_books :: "string \<Rightarrow> (string \<Rightarrow> string) \<Rightarrow> (string \<Rightarrow> string) \<Rightarrow> string list \<Rightarrow> book_table" where
  "open_books x key symbol pairs = foldl (\<lambda>t p. t(key p \<mapsto> LocalBook_new x (symbol p))) Map.empty pairs"

text \<open>\<open>books.get_mut(&sym)\<close>, with the round skipped when there is no such book.\<close>

definition on_book :: "string \<Rightarrow> (LocalBook \<Rightarrow> LocalBook outcome) \<Rightarrow> book_table \<Rightarrow> book_table outcome" where
  "on_book k f t =
     (case t k of
        None \<Rightarrow> Next t []
      | Some b \<Rightarrow> map_outcome (\<lambda>b'. t(k \<mapsto> b')) (f b))"

definition deliver :: "(string \<times> 'u) option \<Rightarrow> ('u \<Rightarrow> LocalBook \<Rightarrow> LocalBook outcome) \<Rightarrow> book_table \<Rightarrow> book_table outcome" where
  "deliver parsed f t = (case parsed of None \<Rightarrow> Next t [] | Some (k, u) \<Rightarrow> on_book k (f u) t)"

text \<open>The emission at the end of a round, with and without the test that the book is ready.\<close>

definition publish :: "int \<Rightarrow> moment \<Rightarrow> LocalBook \<Rightarrow> LocalBook outcome" where
  "publish ts m b =
     (if is_crossed b then Next b []
      else case to_orderbook_data b ts (received_at m) of
             (Some d, b') \<Rightarrow> Next b' [Emit d]
           | (None, b') \<Rightarrow> Next b' [])"

definition publish_ready :: "int \<Rightarrow> moment \<Rightarrow> LocalBook \<Rightarrow> LocalBook outcome" where
  "publish_ready ts m b = (if is_ready b then publish ts m b else Next b [])"

section \<open>Opening a session\<close>

text \<open>
  \<open>ws_connect\<close> and the subscription frames, each sent with \<open>?\<close>: how the socket behaves until the
  loop starts.
\<close>

record dial =
  connects :: bool
  accepted_sends :: nat

definition start_session ::
    "dial \<Rightarrow> action list \<Rightarrow> ('e \<Rightarrow> 's \<Rightarrow> 's outcome) \<Rightarrow> 's \<Rightarrow> 'e list \<Rightarrow> action list \<times> string option" where
  "start_session w frames step s es =
     (if \<not> connects w then ([], Some ''WS connect failed'')
      else if accepted_sends w < length frames then (take (accepted_sends w) frames, Some ''WS send failed'')
      else case session step es s of (acts, err, _) \<Rightarrow> (frames @ acts, err))"

text \<open>The parsed fields of a depth message, as the loops that read them one by one bind them.\<close>

record Depth =
  dp_kind :: string
  dp_first :: "u64 option"
  dp_last :: "u64 option"
  dp_ts :: int
  dp_bids :: levels
  dp_asks :: levels

section \<open>The sink\<close>

text \<open>An instant and a duration are counted in nanoseconds; \<open>duration_since\<close> saturates.\<close>

definition DEFAULT_EMIT_INTERVAL_MS :: u64 where "DEFAULT_EMIT_INTERVAL_MS = 50"

record BookSink =
  sink_tx :: bool
  sink_throttle :: "(string \<rightharpoonup> nat) option"
  sink_interval :: nat

definition BookSink_new :: "bool \<Rightarrow> string option \<Rightarrow> BookSink" where
  "BookSink_new tx interval_var =
     (let interval_ms = (case interval_var \<bind> parse_u64_str of Some n \<Rightarrow> n | None \<Rightarrow> DEFAULT_EMIT_INTERVAL_MS)
      in \<lparr>sink_tx = tx, sink_throttle = (if interval_ms > 0 then Some Map.empty else None),
          sink_interval = unat interval_ms * 1000000\<rparr>)"

definition disabled :: BookSink where
  "disabled = \<lparr>sink_tx = False, sink_throttle = None, sink_interval = 0\<rparr>"

definition sink_key :: "OrderBookData \<Rightarrow> string" where
  "sink_key d = ob_exchange_id d @ '':'' @ ob_symbol d"

definition sink_emit :: "BookSink \<Rightarrow> nat \<Rightarrow> OrderBookData \<Rightarrow> CollectorMessage option \<times> BookSink" where
  "sink_emit k now d =
     (let forward = (if sink_tx k then Some (Data d) else None) in
      if \<not> is_valid d then (None, k)
      else case sink_throttle k of
             None \<Rightarrow> (forward, k)
           | Some seen \<Rightarrow>
               (case seen (sink_key d) of
                  Some t \<Rightarrow> if now - t < sink_interval k then (None, k)
                            else (forward, k\<lparr>sink_throttle := Some (seen(sink_key d \<mapsto> now))\<rparr>)
                | None \<Rightarrow> (forward, k\<lparr>sink_throttle := Some (seen(sink_key d \<mapsto> now))\<rparr>)))"

definition sink_status :: "BookSink \<Rightarrow> string \<Rightarrow> ServiceStatus \<Rightarrow> CollectorMessage option" where
  "sink_status k name st = (if sink_tx k then Some (Status name st) else None)"

text \<open>\<open>Collector::run\<close>: a session needs a pair, and its start is reported.\<close>

definition collector_run ::
    "BookSink \<Rightarrow> string \<Rightarrow> ExchangeConfig \<Rightarrow> action list \<times> string option
     \<Rightarrow> CollectorMessage option \<times> action list \<times> string option" where
  "collector_run k name cfg run_session =
     (if exc_pairs cfg = [] then (None, [], Some (''['' @ name @ ''] no pairs''))
      else (sink_status k name Connected, run_session))"

text \<open>What reaches the channel, with its instant, of a sequence of emissions.\<close>

fun sink_run :: "BookSink \<Rightarrow> (nat \<times> OrderBookData) list \<Rightarrow> (nat \<times> OrderBookData) list" where
  "sink_run k [] = []"
| "sink_run k ((now, d) # es) =
     (case sink_emit k now d of
        (Some (Data d'), k') \<Rightarrow> (now, d') # sink_run k' es
      | (_, k') \<Rightarrow> sink_run k' es)"

section \<open>The parsers of numbers\<close>

lemma f64_ok_parse: "parse_f64 v = Some x \<Longrightarrow> f64_ok x"
  by (cases v) (auto simp: parse_f64_def parse_f64_str_def Let_def f64_of_int_def mkf_ok split: option.splits if_splits)

section \<open>Sessions that emit only well-formed books\<close>

definition uncrossed :: "OrderBookData \<Rightarrow> bool" where
  "uncrossed d =
     (case (best_bid d, best_ask d) of (Some bid, Some ask) \<Rightarrow> lvl_price bid < lvl_price ask | _ \<Rightarrow> True)"

definition emission_ok :: "string \<Rightarrow> string set \<Rightarrow> OrderBookData \<Rightarrow> bool" where
  "emission_ok x D d \<longleftrightarrow> emitted_ok d \<and> uncrossed d \<and> ob_exchange_id d = x \<and> ob_symbol d \<in> D"

definition venue_book :: "string \<Rightarrow> string set \<Rightarrow> LocalBook \<Rightarrow> bool" where
  "venue_book x D b \<longleftrightarrow> book_ok b \<and> lb_exchange_id b = x \<and> lb_symbol b \<in> D"

definition venue_ok :: "string \<Rightarrow> string set \<Rightarrow> book_table \<Rightarrow> bool" where
  "venue_ok x D t \<longleftrightarrow> (\<forall>k b. t k = Some b \<longrightarrow> venue_book x D b)"

text \<open>An outcome whose state satisfies \<open>P\<close> and whose emissions satisfy \<open>Q\<close>.\<close>

definition yields :: "('s \<Rightarrow> bool) \<Rightarrow> (OrderBookData \<Rightarrow> bool) \<Rightarrow> 's outcome \<Rightarrow> bool" where
  "yields P Q r =
     (case r of
        Failed _ acts \<Rightarrow> \<forall>d. Emit d \<in> set acts \<longrightarrow> Q d
      | Next s acts \<Rightarrow> P s \<and> (\<forall>d. Emit d \<in> set acts \<longrightarrow> Q d))"

lemma yields_simps [simp]:
  "yields P Q (Failed err acts) \<longleftrightarrow> (\<forall>d. Emit d \<in> set acts \<longrightarrow> Q d)"
  "yields P Q (Next s acts) \<longleftrightarrow> P s \<and> (\<forall>d. Emit d \<in> set acts \<longrightarrow> Q d)"
  "yields P Q (fail err)"
  by (auto simp: yields_def fail_def)

lemma yields_map [simp]: "yields P Q (map_outcome f r) \<longleftrightarrow> yields (\<lambda>s. P (f s)) Q r"
  by (cases r) auto

lemma yields_mono: "yields P Q r \<Longrightarrow> (\<And>s. P s \<Longrightarrow> P' s) \<Longrightarrow> yields P' Q r"
  by (cases r) auto

lemma yields_each:
  assumes "P s" "\<And>i s. i \<in> set is \<Longrightarrow> P s \<Longrightarrow> yields P Q (f i s)"
  shows "yields P Q (each f is s)"
  using assms
proof (induction "is" arbitrary: s)
  case (Cons i "is")
  have y: "yields P Q (f i s)" using Cons.prems by simp
  show ?case
  proof (cases "f i s")
    case (Next s' acts)
    then have "yields P Q (each f is s')" using y Cons by auto
    then show ?thesis using Next y by (auto split: outcome.splits)
  qed (use y in simp)
qed simp

lemma yields_Next: "yields P Q r \<Longrightarrow> r = Next s acts \<Longrightarrow> P s \<and> (\<forall>d. Emit d \<in> set acts \<longrightarrow> Q d)"
  by simp

lemma yields_ignore [simp]: "yields P Q (ignore x s) \<longleftrightarrow> P s"
  by (simp add: ignore_def)

lemma start_session_emits:
  assumes "Emit d \<in> set (fst (start_session w frames step s es))" "Emit d \<notin> set frames"
  shows "Emit d \<in> set (fst (session step es s))"
  using assms by (auto simp: start_session_def dest: in_set_takeD split: if_splits prod.splits)

lemma yields_round:
  assumes "P s" "\<And>t. e = WsText t \<Longrightarrow> yields P Q (on_text t s)" "\<And>b. e = WsBinary b \<Longrightarrow> yields P Q (on_binary b s)"
    "\<And>d. keepalive \<noteq> Some (Emit d)"
  shows "yields P Q (ws_round on_text on_binary keepalive m e s)"
  using assms by (auto simp: ws_round_def split: WsEvent.splits option.splits)

lemma venue_book_ops:
  assumes "venue_book x D b"
  shows "venue_book x D (apply_snapshot b bids asks seq)" "venue_book x D (apply_deltas b bids asks seq)" "venue_book x D (clear b)"
  using assms ops_book_ok[of b] by (auto simp: venue_book_def apply_snapshot_def apply_deltas_def clear_def Let_def split: option.splits)

lemma best_of_levels: "first (price_levels (take TOP_N side)) = map_option (\<lambda>e. \<lparr>lvl_price = fst e, lvl_quantity = snd e\<rparr>) (first side)"
  by (cases side) (auto simp: price_levels_def TOP_N_def)

lemma first_rev: "first (rev side) = bt_last side"
  by (cases side rule: rev_cases) auto

lemma uncrossed_emission:
  assumes "to_orderbook_data b ts r = (Some d, b')" "\<not> is_crossed b" "book_ok b"
  shows "uncrossed d"
proof -
  have d: "ob_bids d = price_levels (take TOP_N (rev (lb_bids b)))" "ob_asks d = price_levels (take TOP_N (lb_asks b))"
    using assms(1) by (auto simp: to_orderbook_data_def Let_def top_n_def split: prod.splits option.splits)
  have "fst bid < fst ask" if "bt_last (lb_bids b) = Some bid" "first (lb_asks b) = Some ask" for bid ask
  proof -
    have "bid \<in> set (lb_bids b)" using that(1) by (auto simp: bt_last_Some)
    moreover have "ask \<in> set (lb_asks b)" using that(2) by (rule first_Some)
    ultimately have "is_finite (fst bid)" "is_finite (fst ask)"
      using assms(3) by (auto simp: book_ok_def side_ok_def bt_inv_def pos_price_def)
    moreover have "\<not> fst ask \<le> fst bid" using that assms(2) by (auto simp: is_crossed_def split: prod.splits)
    ultimately show ?thesis by (simp add: fin_le_iff fin_lt_iff)
  qed
  then show ?thesis
    by (auto simp: uncrossed_def best_bid_def best_ask_def d best_of_levels first_rev split: option.splits)
qed

lemma publish_ok:
  assumes "venue_book x D b"
  shows "yields (venue_book x D) (emission_ok x D) (publish ts m b)"
proof (cases "is_crossed b")
  case False
  obtain r b' where e: "to_orderbook_data b ts (received_at m) = (r, b')" by fastforce
  have "venue_book x D b'" using to_orderbook_data_book[OF e] assms by (auto simp: venue_book_def book_ok_def)
  moreover have "emission_ok x D d" if "r = Some d" for d
    using uncrossed_emission[of b ts _ d b'] to_orderbook_data_ok[of b ts _ d b'] e that False assms
    by (simp add: emission_ok_def venue_book_def)
  ultimately show ?thesis using e False by (cases r) (simp_all add: publish_def)
qed (use assms in \<open>simp add: publish_def\<close>)

lemma publish_ready_ok: "venue_book x D b \<Longrightarrow> yields (venue_book x D) (emission_ok x D) (publish_ready ts m b)"
  by (simp add: publish_ready_def publish_ok)

lemma on_book_yields:
  assumes "\<And>b. t k = Some b \<Longrightarrow> P k b \<Longrightarrow> yields (P k) Q (f b)" "\<And>k b. t k = Some b \<Longrightarrow> P k b"
  shows "yields (\<lambda>t. \<forall>k b. t k = Some b \<longrightarrow> P k b) Q (on_book k f t)"
proof (cases "t k")
  case (Some b)
  then have "yields (P k) Q (f b)" using assms by blast
  then have "yields (\<lambda>b'. \<forall>k' b. (t(k \<mapsto> b')) k' = Some b \<longrightarrow> P k' b) Q (f b)"
    by (rule yields_mono) (use assms(2) in auto)
  then show ?thesis using Some by (simp add: on_book_def)
qed (use assms(2) in \<open>simp add: on_book_def\<close>)

lemma venue_ok_alt: "venue_ok x D = (\<lambda>t. \<forall>k b. t k = Some b \<longrightarrow> venue_book x D b)"
  by (simp add: venue_ok_def fun_eq_iff)

lemma on_book_ok:
  assumes "venue_ok x D t" "\<And>b. venue_book x D b \<Longrightarrow> yields (venue_book x D) (emission_ok x D) (f b)"
  shows "yields (venue_ok x D) (emission_ok x D) (on_book k f t)"
  unfolding venue_ok_alt by (rule on_book_yields) (use assms in \<open>auto simp: venue_ok_def\<close>)

lemma deliver_ok:
  assumes "venue_ok x D t" "\<And>u b. venue_book x D b \<Longrightarrow> yields (venue_book x D) (emission_ok x D) (f u b)"
  shows "yields (venue_ok x D) (emission_ok x D) (deliver parsed f t)"
  using assms by (auto simp: deliver_def intro!: on_book_ok split: option.splits)

lemma open_books_entry: "open_books x key symbol pairs k = Some b \<Longrightarrow> \<exists>p \<in> set pairs. k = key p \<and> b = LocalBook_new x (symbol p)"
  unfolding open_books_def by (induction pairs rule: rev_induct) (auto split: if_splits)

lemma open_books_ok: "venue_ok x (symbol ` set pairs) (open_books x key symbol pairs)"
  by (auto simp: venue_ok_def venue_book_def book_ok_def LocalBook_new_def dest: open_books_entry)

text \<open>What a session emits, from what each round does.\<close>

locale emitter =
  fixes step :: "'e \<Rightarrow> 's \<Rightarrow> 's outcome"
    and inv :: "'s \<Rightarrow> bool"
    and allowed :: "'e \<Rightarrow> bool"
    and good :: "OrderBookData \<Rightarrow> bool"
  assumes step_yields: "inv s \<Longrightarrow> allowed e \<Longrightarrow> yields inv good (step e s)"
begin

lemma session_yields:
  assumes "inv s" "\<forall>e \<in> set es. allowed e"
  shows "inv (snd (snd (session step es s))) \<and> (\<forall>d. Emit d \<in> set (fst (session step es s)) \<longrightarrow> good d)"
  using assms
proof (induction es arbitrary: s)
  case (Cons e es)
  have y: "yields inv good (step e s)" using Cons.prems by (auto intro: step_yields)
  show ?case
  proof (cases "step e s")
    case (Next s' acts)
    then have "inv s'" "\<forall>d. Emit d \<in> set acts \<longrightarrow> good d" using y by auto
    with Cons.IH[of s'] Cons.prems Next show ?thesis by (auto split: prod.splits)
  qed (use Cons.prems y in auto)
qed simp

lemma start_yields:
  assumes "inv s" "\<forall>e \<in> set es. allowed e" "\<forall>d. Emit d \<notin> set frames"
    "Emit d \<in> set (fst (start_session w frames step s es))"
  shows "good d"
  using session_yields[OF assms(1,2)] start_session_emits[OF assms(4)] assms(3) by blast

end

locale venue =
  fixes step :: "'e \<Rightarrow> 's \<Rightarrow> 's outcome"
    and table :: "'s \<Rightarrow> book_table"
    and x :: string
  assumes round_ok: "venue_ok x D (table s) \<Longrightarrow> yields (\<lambda>s. venue_ok x D (table s)) (emission_ok x D) (step e s)"

sublocale venue \<subseteq> wf: emitter step "\<lambda>s. venue_ok x D (table s)" "\<lambda>_. True" "emission_ok x D" for D
  by unfold_locales (rule round_ok)

context venue
begin

lemma start_ok:
  assumes "venue_ok x D (table s)" "\<forall>d. Emit d \<notin> set frames" "Emit d \<in> set (fst (start_session w frames step s es))"
  shows "emission_ok x D d"
  using wf.start_yields[OF assms(1) _ assms(2,3)] by simp

end

section \<open>Sessions that follow the venue's book\<close>

text \<open>
  The history of a symbol: the venue's book, two maps from price to quantity, at each sequence
  number. A book is in sync when its content is the history's at its own number.
\<close>

type_synonym history = "u64 \<Rightarrow> (f64 \<rightharpoonup> f64) \<times> (f64 \<rightharpoonup> f64)"

definition after_snapshot :: "levels \<Rightarrow> levels \<Rightarrow> (f64 \<rightharpoonup> f64) \<times> (f64 \<rightharpoonup> f64)" where
  "after_snapshot bids asks = (foldl set_level Map.empty bids, foldl set_level Map.empty asks)"

definition after_deltas :: "(f64 \<rightharpoonup> f64) \<times> (f64 \<rightharpoonup> f64) \<Rightarrow> levels \<Rightarrow> levels \<Rightarrow> (f64 \<rightharpoonup> f64) \<times> (f64 \<rightharpoonup> f64)" where
  "after_deltas s bids asks = (foldl upd_level (fst s) bids, foldl upd_level (snd s) asks)"

definition in_sync :: "history \<Rightarrow> LocalBook \<Rightarrow> bool" where
  "in_sync H b \<longleftrightarrow> book_ok b \<and> (\<forall>n. lb_seq b = Some n \<longrightarrow> book_map_of b = H n)"

definition shows_history :: "history \<Rightarrow> OrderBookData \<Rightarrow> bool" where
  "shows_history H d \<longleftrightarrow> (\<exists>n b. book_ok b \<and> book_map_of b = H n \<and> top_n b TOP_N = (ob_bids d, ob_asks d))"

definition synced_book :: "(string \<Rightarrow> history) \<Rightarrow> string \<Rightarrow> LocalBook \<Rightarrow> bool" where
  "synced_book H k b \<longleftrightarrow> in_sync (H k) b \<and> lb_symbol b = k"

definition table_sync :: "(string \<Rightarrow> history) \<Rightarrow> book_table \<Rightarrow> bool" where
  "table_sync H t \<longleftrightarrow> (\<forall>k b. t k = Some b \<longrightarrow> synced_book H k b)"

definition shows_own :: "(string \<Rightarrow> history) \<Rightarrow> OrderBookData \<Rightarrow> bool" where
  "shows_own H d \<longleftrightarrow> shows_history (H (ob_symbol d)) d"

lemma book_map_snapshot: "book_map_of (apply_snapshot b bids asks q) = after_snapshot bids asks"
  using foldl_refines[of snapshot_level set_level, OF snapshot_level_refines side_ok_Nil]
  by (simp add: book_map_of_def apply_snapshot_def after_snapshot_def)

lemma book_map_deltas: "book_ok b \<Longrightarrow> book_map_of (apply_deltas b bids asks q) = after_deltas (book_map_of b) bids asks"
  using foldl_refines[of delta_level upd_level, OF delta_level_refines]
  by (auto simp: book_map_of_def apply_deltas_def after_deltas_def book_ok_def Let_def split: option.splits)

lemma seq_simps [simp]:
  "lb_seq (apply_snapshot b bids asks q) = q" "lb_seq (apply_deltas b bids asks (Some n)) = Some n" "lb_seq (clear b) = None"
  "lb_symbol (apply_snapshot b bids asks q) = lb_symbol b" "lb_symbol (apply_deltas b bids asks q) = lb_symbol b"
  "lb_symbol (clear b) = lb_symbol b"
  by (auto simp: apply_snapshot_def apply_deltas_def clear_def Let_def split: option.splits)

lemma snapshot_sync: "synced_book H k b \<Longrightarrow> H k n = after_snapshot bids asks \<Longrightarrow> synced_book H k (apply_snapshot b bids asks (Some n))"
  by (simp add: synced_book_def in_sync_def book_map_snapshot ops_book_ok)

lemma deltas_sync:
  "synced_book H k b \<Longrightarrow> lb_seq b = Some p \<Longrightarrow> H k n = after_deltas (H k p) bids asks
   \<Longrightarrow> synced_book H k (apply_deltas b bids asks (Some n))"
  by (simp add: synced_book_def in_sync_def book_map_deltas ops_book_ok)

lemma clear_sync: "synced_book H k b \<Longrightarrow> synced_book H k (clear b)"
  by (simp add: synced_book_def in_sync_def ops_book_ok)

lemma publish_sync:
  assumes "synced_book H k b" "lb_seq b \<noteq> None"
  shows "yields (synced_book H k) (shows_own H) (publish ts m b)"
proof -
  have "shows_own H d" if "to_orderbook_data b ts r = (Some d, b')" for r d b'
  proof -
    have "(ob_bids d, ob_asks d) = top_n b TOP_N \<and> ob_symbol d = k"
      using that assms(1) by (auto simp: synced_book_def to_orderbook_data_def Let_def top_n_def split: prod.splits option.splits)
    moreover have "book_ok b" "\<exists>n. book_map_of b = H k n" using assms by (auto simp: synced_book_def in_sync_def)
    ultimately show ?thesis unfolding shows_own_def shows_history_def by metis
  qed
  moreover have "synced_book H k b'" if "to_orderbook_data b ts r = (d, b')" for r d b'
    using to_orderbook_data_book[OF that] assms(1) by (auto simp: synced_book_def in_sync_def book_ok_def book_map_of_def)
  ultimately show ?thesis using assms(1) by (auto simp: publish_def split: prod.splits option.splits)
qed

lemma table_sync_alt: "table_sync H = (\<lambda>t. \<forall>k b. t k = Some b \<longrightarrow> synced_book H k b)"
  by (simp add: table_sync_def fun_eq_iff)

lemma deliver_sync:
  assumes "table_sync H t" "\<And>k u b. parsed = Some (k, u) \<Longrightarrow> synced_book H k b \<Longrightarrow> yields (synced_book H k) (shows_own H) (f u b)"
  shows "yields (table_sync H) (shows_own H) (deliver parsed f t)"
proof (cases parsed)
  case (Some p)
  obtain k u where p: "p = (k, u)" by (cases p)
  have "yields (table_sync H) (shows_own H) (on_book k (f u) t)"
    unfolding table_sync_alt by (rule on_book_yields) (use assms Some p in \<open>auto simp: table_sync_def\<close>)
  then show ?thesis using Some p by (simp add: deliver_def)
qed (use assms(1) in \<open>simp add: deliver_def\<close>)

lemma open_books_sync: "table_sync H (open_books x f f pairs)"
  by (auto simp: table_sync_def synced_book_def in_sync_def book_ok_def LocalBook_new_def dest: open_books_entry)

text \<open>
  What a true message is: a snapshot numbered \<open>n\<close> shows the book at \<open>n\<close>, and a change from \<open>p\<close> to \<open>n\<close>
  takes the book at \<open>p\<close> to the book at \<open>n\<close>.
\<close>

definition true_full :: "history \<Rightarrow> u64 option \<Rightarrow> levels \<Rightarrow> levels \<Rightarrow> bool" where
  "true_full H q bids asks \<longleftrightarrow> (\<exists>n. q = Some n \<and> H n = after_snapshot bids asks)"

definition true_change :: "history \<Rightarrow> u64 \<Rightarrow> u64 option \<Rightarrow> levels \<Rightarrow> levels \<Rightarrow> bool" where
  "true_change H p q bids asks \<longleftrightarrow> (\<exists>n. q = Some n \<and> H n = after_deltas (H p) bids asks)"

lemma full_publish:
  assumes "synced_book H k b" "true_full (H k) q bids asks"
  shows "yields (synced_book H k) (shows_own H) (publish ts m (apply_snapshot b bids asks q))"
    "yields (synced_book H k) (shows_own H) (publish_ready ts m (apply_snapshot b bids asks q))"
proof -
  have "synced_book H k (apply_snapshot b bids asks q)" "q \<noteq> None"
    using assms by (auto simp: true_full_def intro: snapshot_sync)
  then show "yields (synced_book H k) (shows_own H) (publish ts m (apply_snapshot b bids asks q))"
    "yields (synced_book H k) (shows_own H) (publish_ready ts m (apply_snapshot b bids asks q))"
    by (auto simp: publish_ready_def intro: publish_sync)
qed

lemma change_publish:
  assumes "synced_book H k b" "lb_seq b = Some p" "true_change (H k) p q bids asks"
  shows "yields (synced_book H k) (shows_own H) (publish ts m (apply_deltas b bids asks q))"
    "yields (synced_book H k) (shows_own H) (publish_ready ts m (apply_deltas b bids asks q))"
proof -
  have "synced_book H k (apply_deltas b bids asks q)" "lb_seq (apply_deltas b bids asks q) \<noteq> None"
    using assms by (auto simp: true_change_def intro: deltas_sync)
  then show "yields (synced_book H k) (shows_own H) (publish ts m (apply_deltas b bids asks q))"
    "yields (synced_book H k) (shows_own H) (publish_ready ts m (apply_deltas b bids asks q))"
    by (auto simp: publish_ready_def intro: publish_sync)
qed

text \<open>A text frame is true when the message it parses to is, against the history of its symbol.\<close>

definition true_text ::
    "(string \<Rightarrow> (string \<times> 'u) option) \<Rightarrow> (history \<Rightarrow> 'u \<Rightarrow> bool) \<Rightarrow> (string \<Rightarrow> history) \<Rightarrow> moment \<times> WsEvent \<Rightarrow> bool" where
  "true_text parse good H e \<longleftrightarrow> (\<forall>text k u. snd e = WsText text \<longrightarrow> parse text = Some (k, u) \<longrightarrow> good (H k) u)"

locale sequenced =
  fixes step :: "'e \<Rightarrow> 's \<Rightarrow> 's outcome"
    and following :: "(string \<Rightarrow> history) \<Rightarrow> 's \<Rightarrow> bool"
    and honest :: "(string \<Rightarrow> history) \<Rightarrow> 'e \<Rightarrow> bool"
  assumes round_sync: "following H s \<Longrightarrow> honest H e \<Longrightarrow> yields (following H) (shows_own H) (step e s)"

sublocale sequenced \<subseteq> sync: emitter step "following H" "honest H" "shows_own H" for H
  by unfold_locales (rule round_sync)

section \<open>What reaches the channel\<close>

lemma sink_run_spaced:
  assumes "sorted (map fst es)" "sink_throttle k = Some seen" "\<forall>t \<in> ran seen. \<forall>e \<in> set es. t \<le> fst e"
  shows "(\<forall>(t, d) \<in> set (sink_run k es). is_valid d \<and> (\<forall>t0. seen (sink_key d) = Some t0 \<longrightarrow> t0 + sink_interval k \<le> t))
    \<and> sorted_wrt (\<lambda>(t, d) (t', d'). sink_key d = sink_key d' \<longrightarrow> t + sink_interval k \<le> t') (sink_run k es)"
  using assms
proof (induction es arbitrary: k seen)
  case (Cons e es)
  obtain now d where e: "e = (now, d)" by (cases e)
  have kept: ?case if "sink_emit k now d = (None, k)"
    using Cons.IH[of k seen] Cons.prems that e by simp
  define seen' where "seen' = seen(sink_key d \<mapsto> now)"
  define k' where "k' = k\<lparr>sink_throttle := Some seen'\<rparr>"
  have k': "sink_throttle k' = Some seen'" "sink_interval k' = sink_interval k" by (simp_all add: k'_def)
  have later: "\<forall>t \<in> ran seen'. \<forall>e \<in> set es. t \<le> fst e"
    using Cons.prems e by (auto simp: ran_def seen'_def split: if_splits)
  have IH: "\<forall>(t, d) \<in> set (sink_run k' es). is_valid d \<and> (\<forall>t0. seen' (sink_key d) = Some t0 \<longrightarrow> t0 + sink_interval k \<le> t)"
    "sorted_wrt (\<lambda>(t, d) (t', d'). sink_key d = sink_key d' \<longrightarrow> t + sink_interval k \<le> t') (sink_run k' es)"
    using Cons.IH[OF _ k'(1) later] Cons.prems(1) k'(2) by simp_all
  have sent: ?case
    if s: "sink_emit k now d = (if sink_tx k then Some (Data d) else None, k')" "is_valid d"
      "\<forall>t. seen (sink_key d) = Some t \<longrightarrow> \<not> now - t < sink_interval k"
  proof -
    have old: "t0 + sink_interval k \<le> now" if "seen (sink_key d) = Some t0" for t0
    proof -
      have "t0 \<le> now" using Cons.prems(3) e that by (auto simp: ran_def)
      then show ?thesis using s(3) that by auto
    qed
    have new: "is_valid d' \<and> (\<forall>t0. seen (sink_key d') = Some t0 \<longrightarrow> t0 + sink_interval k \<le> t)
        \<and> (sink_key d = sink_key d' \<longrightarrow> now + sink_interval k \<le> t)" if "(t, d') \<in> set (sink_run k' es)" for t d'
    proof -
      have v: "is_valid d'" "\<And>t0. seen' (sink_key d') = Some t0 \<Longrightarrow> t0 + sink_interval k \<le> t"
        using IH(1) that by auto
      show ?thesis
      proof (cases "sink_key d' = sink_key d")
        case True
        then have "now + sink_interval k \<le> t" using v(2) by (simp add: seen'_def)
        moreover have "t0 + sink_interval k \<le> now" if "seen (sink_key d') = Some t0" for t0 using old that True by simp
        ultimately show ?thesis using v(1) by (meson add_leD1 le_trans)
      qed (use v in \<open>simp add: seen'_def\<close>)
    qed
    show ?thesis
    proof (cases "sink_tx k")
      case True
      then have "sink_run k (e # es) = (now, d) # sink_run k' es" using s(1) e by simp
      then show ?thesis using IH(2) new old s(2) by auto
    next
      case False
      then have "sink_run k (e # es) = sink_run k' es" using s(1) e by simp
      then show ?thesis using IH(2) new by auto
    qed
  qed
  show ?case
  proof (cases "is_valid d \<and> (\<forall>t. seen (sink_key d) = Some t \<longrightarrow> \<not> now - t < sink_interval k)")
    case True
    then show ?thesis using Cons.prems(2) by (intro sent) (auto simp: sink_emit_def Let_def k'_def seen'_def split: option.splits)
  next
    case False
    then show ?thesis using Cons.prems(2) by (intro kept) (auto simp: sink_emit_def Let_def split: option.splits)
  qed
qed simp

text \<open>
  The throttle of the sink: of books emitted at non-decreasing instants, only valid ones reach the
  channel, and two of the same venue and symbol are at least the interval apart.
\<close>

theorem sink_throttles:
  assumes "sorted (map fst es)" "k = BookSink_new True interval_var" "0 < sink_interval k"
    "i < j" "j < length (sink_run k es)" "sink_run k es ! i = (t, d)" "sink_run k es ! j = (t', d')"
    "ob_exchange_id d = ob_exchange_id d'" "ob_symbol d = ob_symbol d'"
  shows "is_valid d \<and> is_valid d' \<and> t + sink_interval k \<le> t'"
proof -
  have "sink_throttle k = Some Map.empty" using assms(2,3) by (auto simp: BookSink_new_def Let_def word_gt_0)
  note spaced = sink_run_spaced[OF assms(1) this]
  have "(t, d) \<in> set (sink_run k es)" "(t', d') \<in> set (sink_run k es)" using assms(4-7) by (metis less_trans nth_mem)+
  moreover have "sink_key d = sink_key d'" using assms(8,9) by (simp add: sink_key_def)
  moreover have "(case sink_run k es ! i of (t, d) \<Rightarrow> \<lambda>(t', d'). sink_key d = sink_key d' \<longrightarrow> t + sink_interval k \<le> t')
      (sink_run k es ! j)"
    using spaced assms(4,5) unfolding sorted_wrt_iff_nth_less by simp
  ultimately show ?thesis using spaced assms(6,7) by auto
qed

end
