(* ===== verification/Venues_Linked.thy ===== *)
theory Venues_Linked
  imports Feed
begin

text \<open>
  The sessions of \<open>src/collectors/impls/\<close> that start from a snapshot on the socket and link each
  delta to the one before it: Bybit, Bitget, OKX, Gate, Poloniex, WEEX, WhiteBIT, Crypto.com,
  Coinbase, BitMart and AscendEX.

  For each venue there is the parser of a message, what the message does to the book, the round of
  the loop and the session with its subscription. Each is an instance of \<open>venue\<close>; those that
  check the link are instances of \<open>sequenced\<close>, with what a true message of that venue is.
\<close>

definition skip :: "LocalBook \<Rightarrow> LocalBook outcome" where
  "skip b = Next b []"

section \<open>Bybit\<close>

definition bybit_parse :: "feed \<Rightarrow> string \<Rightarrow> (string \<times> Depth) option" where
  "bybit_parse F text =
     do {
       v \<leftarrow> from_json F text;
       if json_get v ''op'' \<noteq> None \<and> json_get v ''data'' = None then None else do {
         topic \<leftarrow> json_get v ''topic'' \<bind> as_str;
         symbol \<leftarrow> nth_opt (split_on (CHR ''.'') topic) 2;
         data \<leftarrow> json_get v ''data'';
         u \<leftarrow> json_get data ''u'' \<bind> parse_u64;
         Some (to_uppercase F symbol, \<lparr>dp_kind = str_or '''' v ''type'', dp_first = None, dp_last = Some u, dp_ts = ts_u64 v ''ts'',
           dp_bids = parse_levels (json_get data ''b''), dp_asks = parse_levels (json_get data ''a'')\<rparr>)
       }
     }"

definition bybit_apply :: "moment \<Rightarrow> Depth \<Rightarrow> LocalBook \<Rightarrow> LocalBook outcome" where
  "bybit_apply m u b =
     (if dp_kind u = ''snapshot''
      then publish (dp_ts u) m (apply_snapshot b (dp_bids u) (dp_asks u) (dp_last u))
      else if dp_kind u = ''delta'' then
        (case lb_seq b of
           None \<Rightarrow> skip b
         | Some last_u \<Rightarrow>
             if dp_last u \<noteq> Some (last_u + 1) then fail ''bybit gap''
             else publish (dp_ts u) m (apply_deltas b (dp_bids u) (dp_asks u) (dp_last u)))
      else skip b)"

definition bybit_round :: "feed \<Rightarrow> moment \<times> WsEvent \<Rightarrow> book_table \<Rightarrow> book_table outcome" where
  "bybit_round F e t =
     (case e of (m, ev) \<Rightarrow>
        ws_round (\<lambda>text. deliver (bybit_parse F text) (bybit_apply m)) ignore
          (Some (SendText ''{\"op\":\"ping\"}'')) m ev t)"

definition bybit_frames :: "feed \<Rightarrow> ExchangeConfig \<Rightarrow> action list" where
  "bybit_frames F cfg =
     [SendJson (JObj [(''op'', JStr ''subscribe''),
        (''args'', JArr (map (\<lambda>p. JStr (''orderbook.200.'' @ to_uppercase F p)) (exc_pairs cfg)))])]"

definition bybit_session :: "feed \<Rightarrow> ExchangeConfig \<Rightarrow> dial \<Rightarrow> (moment \<times> WsEvent) list \<Rightarrow> action list \<times> string option" where
  "bybit_session F cfg w es =
     start_session w (bybit_frames F cfg) (bybit_round F)
       (open_books ''bybit'' (to_uppercase F) (to_uppercase F) (exc_pairs cfg)) es"

section \<open>Bitget\<close>

definition bitget_parse :: "feed \<Rightarrow> string \<Rightarrow> (string \<times> Depth) option" where
  "bitget_parse F text =
     (if text = ''pong'' then None else do {
        v \<leftarrow> from_json F text;
        if json_get v ''event'' \<noteq> None then None else do {
          act \<leftarrow> json_get v ''action'' \<bind> as_str;
          inst_id \<leftarrow> json_get v ''arg'' \<bind> (\<lambda>a. json_get a ''instId'') \<bind> as_str;
          data \<leftarrow> json_get v ''data'' \<bind> as_array \<bind> first;
          seq \<leftarrow> json_get data ''seq'' \<bind> parse_u64;
          Some (inst_id, \<lparr>dp_kind = act, dp_first = None, dp_last = Some seq, dp_ts = ts_u64 data ''ts'',
            dp_bids = parse_levels (json_get data ''bids''), dp_asks = parse_levels (json_get data ''asks'')\<rparr>)
        }
      })"

definition bitget_apply :: "moment \<Rightarrow> Depth \<Rightarrow> LocalBook \<Rightarrow> LocalBook outcome" where
  "bitget_apply m u b =
     (if dp_kind u = ''snapshot''
      then publish (dp_ts u) m (apply_snapshot b (dp_bids u) (dp_asks u) (dp_last u))
      else if dp_kind u = ''update'' then
        (case (lb_seq b, dp_last u) of
           (Some local, Some seq) \<Rightarrow>
             if seq \<le> local then skip b
             else if seq > local + 1 then fail ''bitget gap''
             else publish (dp_ts u) m (apply_deltas b (dp_bids u) (dp_asks u) (Some seq))
         | _ \<Rightarrow> skip b)
      else skip b)"

definition bitget_round :: "feed \<Rightarrow> moment \<times> WsEvent \<Rightarrow> book_table \<Rightarrow> book_table outcome" where
  "bitget_round F e t =
     (case e of (m, ev) \<Rightarrow>
        ws_round (\<lambda>text. deliver (bitget_parse F text) (bitget_apply m)) ignore (Some (SendText ''ping'')) m ev t)"

definition bitget_frames :: "feed \<Rightarrow> ExchangeConfig \<Rightarrow> action list" where
  "bitget_frames F cfg =
     [SendJson (JObj [(''op'', JStr ''subscribe''),
        (''args'', JArr (map (\<lambda>p. JObj [(''instType'', JStr ''SPOT''), (''channel'', JStr ''books''),
           (''instId'', JStr (to_uppercase F p))]) (exc_pairs cfg)))])]"

definition bitget_session :: "feed \<Rightarrow> ExchangeConfig \<Rightarrow> dial \<Rightarrow> (moment \<times> WsEvent) list \<Rightarrow> action list \<times> string option" where
  "bitget_session F cfg w es =
     start_session w (bitget_frames F cfg) (bitget_round F)
       (open_books ''bitget'' (to_uppercase F) (to_uppercase F) (exc_pairs cfg)) es"

section \<open>OKX\<close>

datatype PrevSeq = SnapshotAnchor | Continuity u64 | InvalidPrev string

definition classify_prev_seq :: "Value option \<Rightarrow> PrevSeq" where
  "classify_prev_seq v =
     (case v \<bind> parse_i64 of
        None \<Rightarrow> InvalidPrev ''update missing prevSeqId; protocol violation''
      | Some raw \<Rightarrow>
          if raw = - 1 then SnapshotAnchor
          else if raw < 0 then InvalidPrev ''invalid negative prevSeqId''
          else Continuity (of_int raw))"

definition okx_parse :: "feed \<Rightarrow> string \<Rightarrow> (string \<times> Depth \<times> PrevSeq) option" where
  "okx_parse F text =
     (if text = ''pong'' then None else do {
        v \<leftarrow> from_json F text;
        if json_get v ''event'' \<noteq> None then None else do {
          act \<leftarrow> json_get v ''action'' \<bind> as_str;
          inst_id \<leftarrow> json_get v ''arg'' \<bind> (\<lambda>a. json_get a ''instId'') \<bind> as_str;
          data \<leftarrow> json_get v ''data'' \<bind> as_array \<bind> first;
          seq_id \<leftarrow> json_get data ''seqId'' \<bind> parse_u64;
          Some (inst_id, \<lparr>dp_kind = act, dp_first = None, dp_last = Some seq_id, dp_ts = ts_u64 data ''ts'',
            dp_bids = parse_levels (json_get data ''bids''), dp_asks = parse_levels (json_get data ''asks'')\<rparr>,
            classify_prev_seq (json_get data ''prevSeqId''))
        }
      })"

definition okx_apply :: "moment \<Rightarrow> Depth \<times> PrevSeq \<Rightarrow> LocalBook \<Rightarrow> LocalBook outcome" where
  "okx_apply m d b =
     (case d of (u, prev) \<Rightarrow>
      if dp_kind u = ''snapshot''
      then publish (dp_ts u) m (apply_snapshot b (dp_bids u) (dp_asks u) (dp_last u))
      else if dp_kind u = ''update'' then
        (case prev of
           SnapshotAnchor \<Rightarrow> publish (dp_ts u) m (apply_snapshot b (dp_bids u) (dp_asks u) (dp_last u))
         | Continuity prev \<Rightarrow>
             (case (lb_seq b, dp_last u) of
                (Some local, Some seq_id) \<Rightarrow>
                  if seq_id \<le> local then skip b
                  else if prev \<noteq> local then Next (clear b) []
                  else publish (dp_ts u) m (apply_deltas b (dp_bids u) (dp_asks u) (Some seq_id))
              | _ \<Rightarrow> skip b)
         | InvalidPrev reason \<Rightarrow> fail reason)
      else skip b)"

definition okx_round :: "feed \<Rightarrow> moment \<times> WsEvent \<Rightarrow> book_table \<Rightarrow> book_table outcome" where
  "okx_round F e t =
     (case e of (m, ev) \<Rightarrow>
        ws_round (\<lambda>text. deliver (okx_parse F text) (okx_apply m)) ignore (Some (SendText ''ping'')) m ev t)"

definition okx_frames :: "ExchangeConfig \<Rightarrow> action list" where
  "okx_frames cfg =
     [SendJson (JObj [(''op'', JStr ''subscribe''),
        (''args'', JArr (map (\<lambda>p. JObj [(''channel'', JStr ''books''), (''instId'', JStr p)]) (exc_pairs cfg)))])]"

definition okx_session :: "feed \<Rightarrow> ExchangeConfig \<Rightarrow> dial \<Rightarrow> (moment \<times> WsEvent) list \<Rightarrow> action list \<times> string option" where
  "okx_session F cfg w es =
     start_session w (okx_frames cfg) (okx_round F) (open_books ''okx'' (\<lambda>p. p) (\<lambda>p. p) (exc_pairs cfg)) es"

section \<open>Gate\<close>

definition pair_from_obu_symbol :: "string \<Rightarrow> string" where
  "pair_from_obu_symbol s = (case nth_opt (split_on (CHR ''.'') s) 1 of Some p \<Rightarrow> p | None \<Rightarrow> s)"

definition gate_parse :: "feed \<Rightarrow> string \<Rightarrow> (string \<times> bool \<times> Depth) option" where
  "gate_parse F text =
     do {
       v \<leftarrow> from_json F text;
       result \<leftarrow> json_get v ''result'';
       if result = JNull then None else do {
         s \<leftarrow> json_get result ''s'' \<bind> as_str;
         Some (to_uppercase F (pair_from_obu_symbol s),
           (case json_get result ''full'' \<bind> as_bool of Some full \<Rightarrow> full | None \<Rightarrow> False),
           \<lparr>dp_kind = [], dp_first = json_get result ''U'' \<bind> parse_u64, dp_last = json_get result ''u'' \<bind> parse_u64,
            dp_ts = ts_u64 result ''t'', dp_bids = parse_levels (json_get result ''b''),
            dp_asks = parse_levels (json_get result ''a'')\<rparr>)
       }
     }"

definition gate_apply :: "moment \<Rightarrow> bool \<times> Depth \<Rightarrow> LocalBook \<Rightarrow> LocalBook outcome" where
  "gate_apply m d b =
     (case d of (is_full, r) \<Rightarrow>
      if is_full then publish (dp_ts r) m (apply_snapshot b (dp_bids r) (dp_asks r) (dp_last r))
      else case (lb_seq b, dp_last r) of
             (Some local, Some u) \<Rightarrow>
               if u \<le> local then skip b
               else if (case dp_first r of Some big_u \<Rightarrow> big_u \<noteq> local + 1 | None \<Rightarrow> False) then fail ''gate gap''
               else publish (dp_ts r) m (apply_deltas b (dp_bids r) (dp_asks r) (Some u))
           | _ \<Rightarrow> skip b)"

definition gate_round :: "feed \<Rightarrow> moment \<times> WsEvent \<Rightarrow> book_table \<Rightarrow> book_table outcome" where
  "gate_round F e t =
     (case e of (m, ev) \<Rightarrow>
        ws_round (\<lambda>text. deliver (gate_parse F text) (gate_apply m)) ignore
          (Some (SendJson (JObj [(''time'', JNum (received_at m div 1000)), (''channel'', JStr ''spot.ping''),
             (''event'', JStr ''ping'')]))) m ev t)"

definition gate_frames :: "feed \<Rightarrow> int \<Rightarrow> ExchangeConfig \<Rightarrow> action list" where
  "gate_frames F now_secs cfg =
     map (\<lambda>p. SendJson (JObj [(''time'', JNum now_secs), (''channel'', JStr ''spot.obu''), (''event'', JStr ''subscribe''),
       (''payload'', JArr [JStr (''ob.'' @ to_uppercase F p @ ''.400'')])])) (exc_pairs cfg)"

definition gate_session :: "feed \<Rightarrow> int \<Rightarrow> ExchangeConfig \<Rightarrow> dial \<Rightarrow> (moment \<times> WsEvent) list \<Rightarrow> action list \<times> string option" where
  "gate_session F now_secs cfg w es =
     start_session w (gate_frames F now_secs cfg) (gate_round F)
       (open_books ''gate'' (to_uppercase F) (to_uppercase F) (exc_pairs cfg)) es"

section \<open>Poloniex\<close>

definition poloniex_item :: "string \<Rightarrow> moment \<Rightarrow> Value \<Rightarrow> book_table \<Rightarrow> book_table outcome" where
  "poloniex_item act m d t =
     (case json_get d ''symbol'' \<bind> as_str of
        None \<Rightarrow> Next t []
      | Some symbol \<Rightarrow> on_book symbol (\<lambda>b.
          let new_id = json_get d ''id'' \<bind> parse_u64;
              bids = parse_levels (json_get d ''bids'');
              asks = parse_levels (json_get d ''asks'');
              ts = ts_u64 d ''ts''
          in if act = ''snapshot'' then publish_ready ts m (apply_snapshot b bids asks new_id)
             else if act = ''update'' then
               (case lb_seq b of
                  None \<Rightarrow> skip b
                | Some local \<Rightarrow>
                    let last_id = (case json_get d ''lastId'' \<bind> parse_u64 of Some n \<Rightarrow> n | None \<Rightarrow> local)
                    in if last_id \<noteq> local then fail ''poloniex gap''
                       else publish_ready ts m (apply_deltas b bids asks new_id))
             else skip b) t)"

definition poloniex_items :: "feed \<Rightarrow> string \<Rightarrow> (string \<times> Value list) option" where
  "poloniex_items F text =
     do {
       v \<leftarrow> from_json F text;
       if json_get v ''event'' \<noteq> None \<and> json_get v ''data'' = None then None
       else if json_get v ''channel'' \<bind> as_str \<noteq> Some ''book_lv2'' then None
       else do {
         items \<leftarrow> json_get v ''data'' \<bind> as_array;
         Some (str_or ''snapshot'' v ''action'', items)
       }
     }"

definition poloniex_round :: "feed \<Rightarrow> moment \<times> WsEvent \<Rightarrow> book_table \<Rightarrow> book_table outcome" where
  "poloniex_round F e t =
     (case e of (m, ev) \<Rightarrow>
        ws_round (\<lambda>text t. case poloniex_items F text of None \<Rightarrow> Next t []
            | Some (act, items) \<Rightarrow> each (poloniex_item act m) items t) ignore
          (Some (SendJson (JObj [(''event'', JStr ''ping'')]))) m ev t)"

definition poloniex_frames :: "ExchangeConfig \<Rightarrow> action list" where
  "poloniex_frames cfg =
     [SendJson (JObj [(''event'', JStr ''subscribe''), (''channel'', JArr [JStr ''book_lv2'']),
        (''symbols'', JArr (map JStr (exc_pairs cfg)))])]"

definition poloniex_session :: "feed \<Rightarrow> ExchangeConfig \<Rightarrow> dial \<Rightarrow> (moment \<times> WsEvent) list \<Rightarrow> action list \<times> string option" where
  "poloniex_session F cfg w es =
     start_session w (poloniex_frames cfg) (poloniex_round F) (open_books ''poloniex'' (\<lambda>p. p) (\<lambda>p. p) (exc_pairs cfg)) es"

section \<open>WEEX\<close>

definition weex_parse :: "feed \<Rightarrow> Value \<Rightarrow> (string \<times> Depth) option" where
  "weex_parse F v =
     (if str_or '''' v ''e'' \<noteq> ''depth'' \<and> str_or '''' v ''e'' \<noteq> ''depthSnapshot'' then None else do {
        s \<leftarrow> json_get v ''s'' \<bind> as_str;
        Some (to_uppercase F s,
          \<lparr>dp_kind = str_or '''' v ''d'', dp_first = json_get v ''U'' \<bind> parse_u64, dp_last = json_get v ''u'' \<bind> parse_u64,
           dp_ts = ts_u64 v ''E'', dp_bids = parse_levels (json_get v ''b''), dp_asks = parse_levels (json_get v ''a'')\<rparr>)
      })"

definition weex_apply :: "moment \<Rightarrow> Depth \<Rightarrow> LocalBook \<Rightarrow> LocalBook outcome" where
  "weex_apply m u b =
     (if dp_kind u = ''SNAPSHOT''
      then publish_ready (dp_ts u) m (apply_snapshot b (dp_bids u) (dp_asks u) (dp_last u))
      else if dp_kind u = ''CHANGED'' then
        (case lb_seq b of
           None \<Rightarrow> skip b
         | Some local \<Rightarrow>
             if (case dp_first u of Some big_u \<Rightarrow> big_u \<noteq> local | None \<Rightarrow> False) then fail ''weex gap''
             else publish_ready (dp_ts u) m (apply_deltas b (dp_bids u) (dp_asks u) (dp_last u)))
      else skip b)"

definition weex_text :: "feed \<Rightarrow> moment \<Rightarrow> string \<Rightarrow> book_table \<Rightarrow> book_table outcome" where
  "weex_text F m text t =
     (case from_json F text of
        None \<Rightarrow> Next t []
      | Some v \<Rightarrow>
          if json_get v ''event'' \<bind> as_str = Some ''ping''
          then Next t [SendJson (JObj [(''method'', JStr ''PONG''), (''id'', JNum 1)])]
          else deliver (weex_parse F v) (weex_apply m) t)"

definition weex_round :: "feed \<Rightarrow> moment \<times> WsEvent \<Rightarrow> book_table \<Rightarrow> book_table outcome" where
  "weex_round F e t = (case e of (m, ev) \<Rightarrow> ws_round (weex_text F m) ignore None m ev t)"

definition weex_frames :: "feed \<Rightarrow> ExchangeConfig \<Rightarrow> action list" where
  "weex_frames F cfg =
     [SendJson (JObj [(''method'', JStr ''SUBSCRIBE''),
        (''params'', JArr (map (\<lambda>p. JStr (to_uppercase F p @ ''@depth200'')) (exc_pairs cfg))), (''id'', JNum 1)])]"

definition weex_session :: "feed \<Rightarrow> ExchangeConfig \<Rightarrow> dial \<Rightarrow> (moment \<times> WsEvent) list \<Rightarrow> action list \<times> string option" where
  "weex_session F cfg w es =
     start_session w (weex_frames F cfg) (weex_round F)
       (open_books ''weex'' (to_uppercase F) (to_uppercase F) (exc_pairs cfg)) es"

section \<open>WhiteBIT\<close>

definition is_error_frame :: "Value \<Rightarrow> bool" where
  "is_error_frame v = (case json_get v ''error'' of Some e \<Rightarrow> e \<noteq> JNull | None \<Rightarrow> False)"

definition ts_ms_from_seconds :: "Value \<Rightarrow> int" where
  "ts_ms_from_seconds data =
     (case json_get data ''timestamp'' \<bind> parse_f64 of
        Some s \<Rightarrow> f64_to_int (- (2 ^ 63)) (2 ^ 63 - 1) (s * lit 1000)
      | None \<Rightarrow> 0)"

definition whitebit_parse :: "feed \<Rightarrow> Value \<Rightarrow> (string \<times> bool \<times> Value) option" where
  "whitebit_parse F v =
     (if json_get v ''method'' \<bind> as_str \<noteq> Some ''depth_update'' then None else do {
        params \<leftarrow> json_get v ''params'' \<bind> as_array;
        if length params < 3 then None else
          Some (to_uppercase F (case as_str (params ! 2) of Some s \<Rightarrow> s | None \<Rightarrow> []),
            (case as_bool (params ! 0) of Some full \<Rightarrow> full | None \<Rightarrow> False), params ! 1)
      })"

definition whitebit_apply :: "moment \<Rightarrow> bool \<times> Value \<Rightarrow> LocalBook \<Rightarrow> LocalBook outcome" where
  "whitebit_apply m d b =
     (case d of (is_full, data) \<Rightarrow>
      let bids = parse_levels (json_get data ''bids'');
          asks = parse_levels (json_get data ''asks'');
          new_id = json_get data ''update_id'' \<bind> parse_u64
      in if is_full then publish (ts_ms_from_seconds data) m (apply_snapshot b bids asks new_id)
         else case lb_seq b of
                None \<Rightarrow> skip b
              | Some local \<Rightarrow>
                  (case json_get data ''past_update_id'' \<bind> parse_u64 of
                     None \<Rightarrow> fail ''whitebit delta missing past_update_id''
                   | Some past \<Rightarrow>
                       if past \<noteq> local then fail ''whitebit gap''
                       else publish (ts_ms_from_seconds data) m (apply_deltas b bids asks new_id)))"

definition whitebit_text :: "feed \<Rightarrow> moment \<Rightarrow> string \<Rightarrow> book_table \<Rightarrow> book_table outcome" where
  "whitebit_text F m text t =
     (case from_json F text of
        None \<Rightarrow> Next t []
      | Some v \<Rightarrow> if is_error_frame v then fail ''whitebit error frame''
                  else deliver (whitebit_parse F v) (whitebit_apply m) t)"

definition whitebit_round :: "feed \<Rightarrow> moment \<times> WsEvent \<Rightarrow> book_table \<Rightarrow> book_table outcome" where
  "whitebit_round F e t =
     (case e of (m, ev) \<Rightarrow>
        ws_round (whitebit_text F m) ignore
          (Some (SendJson (JObj [(''id'', JNum 0), (''method'', JStr ''ping''), (''params'', JArr [])]))) m ev t)"

definition whitebit_frames :: "feed \<Rightarrow> ExchangeConfig \<Rightarrow> action list" where
  "whitebit_frames F cfg =
     map (\<lambda>(i, p). SendJson (JObj [(''id'', JNum (int i + 1)), (''method'', JStr ''depth_subscribe''),
        (''params'', JArr [JStr (to_uppercase F p), JNum 100, JStr ''0'', JBool True])])) (enumerate 0 (exc_pairs cfg))"

definition whitebit_session :: "feed \<Rightarrow> ExchangeConfig \<Rightarrow> dial \<Rightarrow> (moment \<times> WsEvent) list \<Rightarrow> action list \<times> string option" where
  "whitebit_session F cfg w es =
     start_session w (whitebit_frames F cfg) (whitebit_round F)
       (open_books ''whitebit'' (to_uppercase F) (to_uppercase F) (exc_pairs cfg)) es"

section \<open>Crypto.com\<close>

definition cryptocom_snapshot :: "moment \<Rightarrow> Value \<Rightarrow> LocalBook \<Rightarrow> LocalBook outcome" where
  "cryptocom_snapshot m item b =
     publish (ts_u64 item ''t'') m
       (apply_snapshot b (parse_levels (json_get item ''bids'')) (parse_levels (json_get item ''asks''))
          (json_get item ''u'' \<bind> parse_u64))"

text \<open>The sequence number \<open>local\<close> is read once, before the loop over the items.\<close>

definition cryptocom_update :: "moment \<Rightarrow> u64 \<Rightarrow> Value \<Rightarrow> LocalBook \<Rightarrow> LocalBook outcome" where
  "cryptocom_update m local item b =
     (case json_get item ''pu'' \<bind> parse_u64 of
        None \<Rightarrow> skip b
      | Some pu \<Rightarrow>
          if pu \<noteq> local then fail ''cryptocom gap''
          else case json_get item ''u'' \<bind> parse_u64 of
                 None \<Rightarrow> skip b
               | Some u \<Rightarrow>
                   let upd = (case json_get item ''update'' of Some x \<Rightarrow> x | None \<Rightarrow> item)
                   in publish (ts_u64 item ''t'') m
                        (apply_deltas b (parse_levels (json_get upd ''bids'')) (parse_levels (json_get upd ''asks'')) (Some u)))"

definition cryptocom_parse :: "feed \<Rightarrow> Value \<Rightarrow> (string \<times> string \<times> Value list) option" where
  "cryptocom_parse F v =
     do {
       result \<leftarrow> json_get v ''result'';
       s \<leftarrow> json_get result ''instrument_name'' \<bind> as_str;
       items \<leftarrow> json_get result ''data'' \<bind> as_array;
       Some (to_uppercase F s, str_or '''' result ''channel'', items)
     }"

definition cryptocom_apply :: "moment \<Rightarrow> string \<times> Value list \<Rightarrow> LocalBook \<Rightarrow> LocalBook outcome" where
  "cryptocom_apply m d b =
     (case d of (channel, items) \<Rightarrow>
      if channel = ''book'' then each (cryptocom_snapshot m) items b
      else if channel = ''book.update'' then
        (case lb_seq b of None \<Rightarrow> skip b | Some local \<Rightarrow> each (cryptocom_update m local) items b)
      else skip b)"

definition cryptocom_text :: "feed \<Rightarrow> moment \<Rightarrow> string \<Rightarrow> book_table \<Rightarrow> book_table outcome" where
  "cryptocom_text F m text t =
     (case from_json F text of
        None \<Rightarrow> Next t []
      | Some v \<Rightarrow>
          if json_get v ''method'' \<bind> as_str = Some ''public/heartbeat''
          then (case json_get v ''id'' of
                  Some i \<Rightarrow> Next t [SendJson (JObj [(''id'', i), (''method'', JStr ''public/respond-heartbeat'')])]
                | None \<Rightarrow> Next t [])
          else deliver (cryptocom_parse F v) (cryptocom_apply m) t)"

definition cryptocom_round :: "feed \<Rightarrow> moment \<times> WsEvent \<Rightarrow> book_table \<Rightarrow> book_table outcome" where
  "cryptocom_round F e t = (case e of (m, ev) \<Rightarrow> ws_round (cryptocom_text F m) ignore None m ev t)"

definition cryptocom_frames :: "feed \<Rightarrow> int \<Rightarrow> ExchangeConfig \<Rightarrow> action list" where
  "cryptocom_frames F now cfg =
     [SendJson (JObj [(''id'', JNum 1), (''method'', JStr ''subscribe''),
        (''params'', JObj [(''channels'', JArr (map (\<lambda>p. JStr (''book.'' @ to_uppercase F p @ ''.50'')) (exc_pairs cfg))),
           (''book_subscription_type'', JStr ''SNAPSHOT_AND_UPDATE''), (''book_update_frequency'', JNum 10)]),
        (''nonce'', JNum now)])]"

definition cryptocom_session :: "feed \<Rightarrow> int \<Rightarrow> ExchangeConfig \<Rightarrow> dial \<Rightarrow> (moment \<times> WsEvent) list \<Rightarrow> action list \<times> string option" where
  "cryptocom_session F now cfg w es =
     start_session w (cryptocom_frames F now cfg) (cryptocom_round F)
       (open_books ''cryptocom'' (to_uppercase F) (to_uppercase F) (exc_pairs cfg)) es"

section \<open>Coinbase\<close>

record CoinbaseState =
  cb_books :: book_table
  cb_last_seq :: "u64 option"

definition split_side :: "levels \<times> levels \<Rightarrow> Value \<Rightarrow> levels \<times> levels" where
  "split_side acc u =
     (case (json_get u ''price_level'' \<bind> parse_f64, json_get u ''new_quantity'' \<bind> parse_f64) of
        (Some p, Some q) \<Rightarrow>
          let side = str_or '''' u ''side'' in
          if side = ''bid'' then (fst acc @ [(p, q)], snd acc)
          else if side = ''offer'' \<or> side = ''ask'' then (fst acc, snd acc @ [(p, q)])
          else acc
      | _ \<Rightarrow> acc)"

definition split_sides :: "Value list \<Rightarrow> levels \<times> levels" where
  "split_sides updates = foldl split_side ([], []) updates"

definition parse_rfc3339_ms :: "feed \<Rightarrow> Value option \<Rightarrow> int option" where
  "parse_rfc3339_ms F v = v \<bind> as_str \<bind> rfc3339_ms F"

definition coinbase_event :: "moment \<Rightarrow> int \<Rightarrow> u64 option \<Rightarrow> Value \<Rightarrow> book_table \<Rightarrow> book_table outcome" where
  "coinbase_event m ts last_seq event t =
     deliver (do {
         product_id \<leftarrow> json_get event ''product_id'' \<bind> as_str;
         updates \<leftarrow> json_get event ''updates'' \<bind> as_array;
         Some (product_id, split_sides updates)
       })
       (\<lambda>(bids, asks) b.
          let etype = str_or '''' event ''type'' in
          if etype = ''snapshot'' then publish ts m (apply_snapshot b bids asks last_seq)
          else if etype = ''update'' then (if \<not> is_ready b then skip b else publish ts m (apply_deltas b bids asks last_seq))
          else skip b) t"

definition coinbase_seq :: "Value \<Rightarrow> u64 option \<Rightarrow> u64 option option" where
  "coinbase_seq v last_seq =
     (case json_get v ''sequence_num'' \<bind> parse_u64 of
        None \<Rightarrow> Some last_seq
      | Some seq \<Rightarrow> (case last_seq of
            Some l \<Rightarrow> if seq \<noteq> l + 1 then None else Some (Some seq)
          | None \<Rightarrow> Some (Some seq)))"

definition coinbase_text :: "feed \<Rightarrow> moment \<Rightarrow> string \<Rightarrow> CoinbaseState \<Rightarrow> CoinbaseState outcome" where
  "coinbase_text F m text s =
     (case from_json F text of
        None \<Rightarrow> Next s []
      | Some v \<Rightarrow>
     (case coinbase_seq v (cb_last_seq s) of
        None \<Rightarrow> fail ''coinbase sequence gap''
      | Some last_seq \<Rightarrow>
          let s = s\<lparr>cb_last_seq := last_seq\<rparr>;
              ts = (case parse_rfc3339_ms F (json_get v ''timestamp'') of Some n \<Rightarrow> n | None \<Rightarrow> 0)
          in if json_get v ''channel'' \<bind> as_str \<noteq> Some ''l2_data'' then Next s []
             else case json_get v ''events'' \<bind> as_array of
                    None \<Rightarrow> Next s []
                  | Some events \<Rightarrow>
                      map_outcome (\<lambda>t. s\<lparr>cb_books := t\<rparr>) (each (coinbase_event m ts last_seq) events (cb_books s))))"

definition coinbase_round :: "feed \<Rightarrow> moment \<times> WsEvent \<Rightarrow> CoinbaseState \<Rightarrow> CoinbaseState outcome" where
  "coinbase_round F e s = (case e of (m, ev) \<Rightarrow> ws_round (coinbase_text F m) ignore None m ev s)"

definition coinbase_frames :: "ExchangeConfig \<Rightarrow> action list" where
  "coinbase_frames cfg =
     map (\<lambda>channel. SendJson (JObj [(''type'', JStr ''subscribe''), (''channel'', JStr channel),
        (''product_ids'', JArr (map JStr (exc_pairs cfg)))])) [''heartbeats'', ''level2'']"

definition coinbase_session :: "feed \<Rightarrow> ExchangeConfig \<Rightarrow> dial \<Rightarrow> (moment \<times> WsEvent) list \<Rightarrow> action list \<times> string option" where
  "coinbase_session F cfg w es =
     start_session w (coinbase_frames cfg) (coinbase_round F)
       \<lparr>cb_books = open_books ''coinbase'' (\<lambda>p. p) (\<lambda>p. p) (exc_pairs cfg), cb_last_seq = None\<rparr> es"

section \<open>BitMart and AscendEX\<close>

text \<open>Updates that arrive before the snapshot wait in a queue per symbol.\<close>

record BufferedUpdate =
  bu_version :: u64
  bu_bids :: levels
  bu_asks :: levels

record Buffered =
  bf_books :: book_table
  bf_buf :: "string \<Rightarrow> BufferedUpdate list"

definition put_book :: "string \<Rightarrow> LocalBook outcome \<Rightarrow> Buffered \<Rightarrow> Buffered outcome" where
  "put_book k r s = map_outcome (\<lambda>b. s\<lparr>bf_books := (bf_books s)(k \<mapsto> b)\<rparr>) r"

definition enqueue :: "string \<Rightarrow> BufferedUpdate \<Rightarrow> Buffered \<Rightarrow> Buffered outcome" where
  "enqueue k u s = Next (s\<lparr>bf_buf := (bf_buf s)(k := bf_buf s k @ [u])\<rparr>) []"

text \<open>Draining the queue after a snapshot, which has set the sequence number that \<open>unwrap\<close> reads.\<close>

fun bitmart_drain :: "u64 \<Rightarrow> BufferedUpdate list \<Rightarrow> LocalBook \<Rightarrow> LocalBook option" where
  "bitmart_drain version [] b = Some b"
| "bitmart_drain version (u # us) b =
     (if bu_version u \<le> version then bitmart_drain version us b
      else if Some (bu_version u) \<noteq> map_option (\<lambda>s. s + 1) (lb_seq b) then None
      else bitmart_drain version us (apply_deltas b (bu_bids u) (bu_asks u) (Some (bu_version u))))"

definition bitmart_parse :: "feed \<Rightarrow> Value \<Rightarrow> (string \<times> string \<times> int \<times> BufferedUpdate) option" where
  "bitmart_parse F d =
     do {
       symbol \<leftarrow> json_get d ''symbol'' \<bind> as_str;
       version \<leftarrow> json_get d ''version'' \<bind> parse_u64;
       Some (to_uppercase F symbol, str_or '''' d ''type'', ts_u64 d ''ms_t'',
         \<lparr>bu_version = version, bu_bids = parse_levels (json_get d ''bids''), bu_asks = parse_levels (json_get d ''asks'')\<rparr>)
     }"

definition bitmart_item :: "feed \<Rightarrow> moment \<Rightarrow> Value \<Rightarrow> Buffered \<Rightarrow> Buffered outcome" where
  "bitmart_item F m d s =
     (case bitmart_parse F d of
        None \<Rightarrow> Next s []
      | Some (k, typ, ts, u) \<Rightarrow>
     (case bf_books s k of
        None \<Rightarrow> Next s []
      | Some b \<Rightarrow>
          if typ = ''snapshot'' then
            (case bitmart_drain (bu_version u) (bf_buf s k) (apply_snapshot b (bu_bids u) (bu_asks u) (Some (bu_version u))) of
               None \<Rightarrow> fail ''bitmart bootstrap gap''
             | Some b' \<Rightarrow> put_book k (publish_ready ts m b') (s\<lparr>bf_buf := (bf_buf s)(k := [])\<rparr>))
          else if typ = ''update'' then
            (case lb_seq b of
               None \<Rightarrow> enqueue k u s
             | Some local \<Rightarrow>
                 if bu_version u \<le> local then Next s []
                 else if bu_version u \<noteq> local + 1 then fail ''bitmart gap''
                 else put_book k (publish_ready ts m (apply_deltas b (bu_bids u) (bu_asks u) (Some (bu_version u)))) s)
          else Next s []))"

definition bitmart_text :: "feed \<Rightarrow> moment \<Rightarrow> string \<Rightarrow> Buffered \<Rightarrow> Buffered outcome" where
  "bitmart_text F m text s =
     (if text = ''pong'' then Next s []
      else case from_json F text of
             None \<Rightarrow> Next s []
           | Some v \<Rightarrow>
               if json_get v ''table'' \<bind> as_str \<noteq> Some ''spot/depth/increase100'' then Next s []
               else case json_get v ''data'' \<bind> as_array of
                      None \<Rightarrow> Next s []
                    | Some items \<Rightarrow> each (bitmart_item F m) items s)"

definition bitmart_round :: "feed \<Rightarrow> moment \<times> WsEvent \<Rightarrow> Buffered \<Rightarrow> Buffered outcome" where
  "bitmart_round F e s =
     (case e of (m, ev) \<Rightarrow> ws_round (bitmart_text F m) ignore (Some (SendText ''ping'')) m ev s)"

definition bitmart_frames :: "feed \<Rightarrow> ExchangeConfig \<Rightarrow> action list" where
  "bitmart_frames F cfg =
     [SendJson (JObj [(''op'', JStr ''subscribe''),
        (''args'', JArr (map (\<lambda>p. JStr (''spot/depth/increase100:'' @ to_uppercase F p)) (exc_pairs cfg)))])]"

definition bitmart_session :: "feed \<Rightarrow> ExchangeConfig \<Rightarrow> dial \<Rightarrow> (moment \<times> WsEvent) list \<Rightarrow> action list \<times> string option" where
  "bitmart_session F cfg w es =
     start_session w (bitmart_frames F cfg) (bitmart_round F)
       \<lparr>bf_books = open_books ''bitmart'' (to_uppercase F) (to_uppercase F) (exc_pairs cfg), bf_buf = (\<lambda>_. [])\<rparr> es"

fun ascendex_drain :: "u64 \<Rightarrow> BufferedUpdate list \<Rightarrow> LocalBook \<Rightarrow> LocalBook" where
  "ascendex_drain seqnum [] b = b"
| "ascendex_drain seqnum (u # us) b =
     (if bu_version u \<le> seqnum then ascendex_drain seqnum us b
      else ascendex_drain seqnum us (apply_deltas b (bu_bids u) (bu_asks u) (Some (bu_version u))))"

definition ascendex_parse :: "Value \<Rightarrow> (string \<times> string \<times> int \<times> BufferedUpdate) option" where
  "ascendex_parse v =
     do {
       symbol \<leftarrow> json_get v ''symbol'' \<bind> as_str;
       data \<leftarrow> json_get v ''data'';
       seqnum \<leftarrow> json_get data ''seqnum'' \<bind> parse_u64;
       Some (symbol, str_or '''' v ''m'', ts_u64 data ''ts'',
         \<lparr>bu_version = seqnum, bu_bids = parse_levels (json_get data ''bids''), bu_asks = parse_levels (json_get data ''asks'')\<rparr>)
     }"

definition ascendex_text :: "feed \<Rightarrow> moment \<Rightarrow> string \<Rightarrow> Buffered \<Rightarrow> Buffered outcome" where
  "ascendex_text F m text s =
     (case from_json F text \<bind> ascendex_parse of
        None \<Rightarrow> Next s []
      | Some (k, typ, ts, u) \<Rightarrow>
     (case bf_books s k of
        None \<Rightarrow> Next s []
      | Some b \<Rightarrow>
          if typ = ''depth-snapshot'' then
            put_book k (publish_ready ts m (ascendex_drain (bu_version u) (bf_buf s k)
                (apply_snapshot b (bu_bids u) (bu_asks u) (Some (bu_version u)))))
              (s\<lparr>bf_buf := (bf_buf s)(k := [])\<rparr>)
          else if typ = ''depth'' then
            (if \<not> is_ready b then enqueue k u s
             else case lb_seq b of
                    Some local \<Rightarrow>
                      if bu_version u \<le> local then Next s []
                      else put_book k (publish_ready ts m (apply_deltas b (bu_bids u) (bu_asks u) (Some (bu_version u)))) s
                  | None \<Rightarrow> Next s [])
          else Next s []))"

definition ascendex_round :: "feed \<Rightarrow> moment \<times> WsEvent \<Rightarrow> Buffered \<Rightarrow> Buffered outcome" where
  "ascendex_round F e s =
     (case e of (m, ev) \<Rightarrow>
        ws_round (ascendex_text F m) ignore (Some (SendJson (JObj [(''op'', JStr ''ping'')]))) m ev s)"

definition ascendex_frames :: "ExchangeConfig \<Rightarrow> action list" where
  "ascendex_frames cfg =
     concat (map (\<lambda>p. [SendJson (JObj [(''op'', JStr ''sub''), (''ch'', JStr (''depth:'' @ p))]),
        SendJson (JObj [(''op'', JStr ''req''), (''action'', JStr ''depth-snapshot''), (''args'', JObj [(''symbol'', JStr p)])])])
       (exc_pairs cfg))"

definition ascendex_session :: "feed \<Rightarrow> ExchangeConfig \<Rightarrow> dial \<Rightarrow> (moment \<times> WsEvent) list \<Rightarrow> action list \<times> string option" where
  "ascendex_session F cfg w es =
     start_session w (ascendex_frames cfg) (ascendex_round F)
       \<lparr>bf_books = open_books ''ascendex'' (\<lambda>p. p) (\<lambda>p. p) (exc_pairs cfg), bf_buf = (\<lambda>_. [])\<rparr> es"

section \<open>Only well-formed books are emitted\<close>

lemmas book_intros = publish_ok publish_ready_ok venue_book_ops

lemma linked_apply_ok:
  assumes "venue_book x D b"
  shows "yields (venue_book x D) (emission_ok x D) (bybit_apply m u b)"
    "yields (venue_book x D) (emission_ok x D) (bitget_apply m u b)"
    "yields (venue_book x D) (emission_ok x D) (okx_apply m d b)"
    "yields (venue_book x D) (emission_ok x D) (gate_apply m g b)"
    "yields (venue_book x D) (emission_ok x D) (weex_apply m u b)"
    "yields (venue_book x D) (emission_ok x D) (whitebit_apply m wb b)"
    "yields (venue_book x D) (emission_ok x D) (cryptocom_snapshot m item b)"
    "yields (venue_book x D) (emission_ok x D) (cryptocom_update m local item b)"
  using assms
  by (auto simp: bybit_apply_def bitget_apply_def okx_apply_def gate_apply_def weex_apply_def whitebit_apply_def
      cryptocom_snapshot_def cryptocom_update_def skip_def Let_def intro!: book_intros
      split: option.splits prod.splits PrevSeq.splits)

lemma cryptocom_apply_ok: "venue_book x D b \<Longrightarrow> yields (venue_book x D) (emission_ok x D) (cryptocom_apply m d b)"
  by (auto simp: cryptocom_apply_def skip_def intro!: yields_each linked_apply_ok split: option.splits prod.splits)

lemma poloniex_item_ok: "venue_ok x D t \<Longrightarrow> yields (venue_ok x D) (emission_ok x D) (poloniex_item act m d t)"
  by (auto simp: poloniex_item_def skip_def Let_def intro!: on_book_ok book_intros split: option.splits)

lemma coinbase_event_ok: "venue_ok x D t \<Longrightarrow> yields (venue_ok x D) (emission_ok x D) (coinbase_event m ts l ev t)"
  unfolding coinbase_event_def
  by (rule deliver_ok) (auto simp: skip_def Let_def intro!: book_intros split: prod.splits)

interpretation bybit: venue "bybit_round F" "\<lambda>t. t" "''bybit''" for F
  by unfold_locales (auto simp: bybit_round_def intro!: yields_round deliver_ok linked_apply_ok split: prod.splits)

interpretation bitget: venue "bitget_round F" "\<lambda>t. t" "''bitget''" for F
  by unfold_locales (auto simp: bitget_round_def intro!: yields_round deliver_ok linked_apply_ok split: prod.splits)

interpretation okx: venue "okx_round F" "\<lambda>t. t" "''okx''" for F
  by unfold_locales (auto simp: okx_round_def intro!: yields_round deliver_ok linked_apply_ok split: prod.splits)

interpretation gate: venue "gate_round F" "\<lambda>t. t" "''gate''" for F
  by unfold_locales (auto simp: gate_round_def intro!: yields_round deliver_ok linked_apply_ok split: prod.splits)

interpretation poloniex: venue "poloniex_round F" "\<lambda>t. t" "''poloniex''" for F
  by unfold_locales (auto simp: poloniex_round_def intro!: yields_round yields_each poloniex_item_ok split: prod.splits option.splits)

interpretation weex: venue "weex_round F" "\<lambda>t. t" "''weex''" for F
  by unfold_locales
    (auto simp: weex_round_def weex_text_def intro!: yields_round deliver_ok linked_apply_ok split: prod.splits option.splits)

interpretation whitebit: venue "whitebit_round F" "\<lambda>t. t" "''whitebit''" for F
  by unfold_locales
    (auto simp: whitebit_round_def whitebit_text_def intro!: yields_round deliver_ok linked_apply_ok split: prod.splits option.splits)

interpretation cryptocom: venue "cryptocom_round F" "\<lambda>t. t" "''cryptocom''" for F
  by unfold_locales
    (auto simp: cryptocom_round_def cryptocom_text_def intro!: yields_round deliver_ok cryptocom_apply_ok split: prod.splits option.splits)

lemma coinbase_text_ok:
  assumes "venue_ok x D (cb_books s)"
  shows "yields (\<lambda>s. venue_ok x D (cb_books s)) (emission_ok x D) (coinbase_text F m text s)"
proof -
  have "yields (venue_ok x D) (emission_ok x D) (each (coinbase_event m ts l) events (cb_books s))" for ts l events
    by (rule yields_each) (use assms coinbase_event_ok in auto)
  then show ?thesis
    using assms by (auto simp: coinbase_text_def Let_def split: option.splits)
qed

interpretation coinbase: venue "coinbase_round F" cb_books "''coinbase''" for F
  by unfold_locales (auto simp: coinbase_round_def intro!: yields_round coinbase_text_ok split: prod.splits)

lemma put_book_ok:
  assumes "venue_ok x D (bf_books s)" "yields (venue_book x D) (emission_ok x D) r"
  shows "yields (\<lambda>s. venue_ok x D (bf_books s)) (emission_ok x D) (put_book k r s)"
  unfolding put_book_def yields_map by (rule yields_mono[OF assms(2)]) (use assms(1) in \<open>auto simp: venue_ok_def\<close>)

lemma bitmart_drain_ok: "bitmart_drain n us b = Some b' \<Longrightarrow> venue_book x D b \<Longrightarrow> venue_book x D b'"
  by (induction n us b rule: bitmart_drain.induct) (auto intro: venue_book_ops split: if_splits)

lemma ascendex_drain_ok: "venue_book x D b \<Longrightarrow> venue_book x D (ascendex_drain n us b)"
  by (induction n us b rule: ascendex_drain.induct) (auto intro: venue_book_ops)

lemma bitmart_item_ok:
  assumes "venue_ok x D (bf_books s)"
  shows "yields (\<lambda>s. venue_ok x D (bf_books s)) (emission_ok x D) (bitmart_item F m d s)"
proof -
  have "venue_book x D b" if "bf_books s k = Some b" for k b using assms that by (simp add: venue_ok_def)
  then show ?thesis
    using assms
    by (auto simp: bitmart_item_def enqueue_def intro!: put_book_ok publish_ready_ok venue_book_ops
        dest: bitmart_drain_ok[OF _ venue_book_ops(1)] split: option.splits prod.splits)
qed

lemma ascendex_text_ok:
  assumes "venue_ok x D (bf_books s)"
  shows "yields (\<lambda>s. venue_ok x D (bf_books s)) (emission_ok x D) (ascendex_text F m text s)"
proof -
  have "venue_book x D b" if "bf_books s k = Some b" for k b using assms that by (simp add: venue_ok_def)
  then show ?thesis
    using assms
    by (auto simp: ascendex_text_def enqueue_def intro!: put_book_ok publish_ready_ok venue_book_ops ascendex_drain_ok
        split: option.splits prod.splits)
qed

interpretation bitmart: venue "bitmart_round F" bf_books "''bitmart''" for F
  by unfold_locales
    (auto simp: bitmart_round_def bitmart_text_def intro!: yields_round yields_each bitmart_item_ok split: prod.splits option.splits)

interpretation ascendex: venue "ascendex_round F" bf_books "''ascendex''" for F
  by unfold_locales (auto simp: ascendex_round_def intro!: yields_round ascendex_text_ok split: prod.splits)

section \<open>The books follow the venue\<close>

definition bybit_true :: "history \<Rightarrow> Depth \<Rightarrow> bool" where
  "bybit_true H u \<longleftrightarrow>
     (dp_kind u = ''snapshot'' \<longrightarrow> true_full H (dp_last u) (dp_bids u) (dp_asks u))
   \<and> (\<forall>n. dp_kind u = ''delta'' \<longrightarrow> dp_last u = Some n \<longrightarrow> true_change H (n - 1) (dp_last u) (dp_bids u) (dp_asks u))"

definition bitget_true :: "history \<Rightarrow> Depth \<Rightarrow> bool" where
  "bitget_true H u \<longleftrightarrow>
     (dp_kind u = ''snapshot'' \<longrightarrow> true_full H (dp_last u) (dp_bids u) (dp_asks u))
   \<and> (\<forall>n. dp_kind u = ''update'' \<longrightarrow> dp_last u = Some n \<longrightarrow> true_change H (n - 1) (dp_last u) (dp_bids u) (dp_asks u))"

definition okx_true :: "history \<Rightarrow> Depth \<times> PrevSeq \<Rightarrow> bool" where
  "okx_true H d \<longleftrightarrow>
     (case d of (u, prev) \<Rightarrow>
        (dp_kind u = ''snapshot'' \<or> prev = SnapshotAnchor \<longrightarrow> true_full H (dp_last u) (dp_bids u) (dp_asks u))
      \<and> (\<forall>p. dp_kind u = ''update'' \<longrightarrow> prev = Continuity p \<longrightarrow> true_change H p (dp_last u) (dp_bids u) (dp_asks u)))"

definition gate_true :: "history \<Rightarrow> bool \<times> Depth \<Rightarrow> bool" where
  "gate_true H d \<longleftrightarrow>
     (case d of (is_full, u) \<Rightarrow>
        if is_full then true_full H (dp_last u) (dp_bids u) (dp_asks u)
        else \<exists>n. dp_first u = Some n \<and> true_change H (n - 1) (dp_last u) (dp_bids u) (dp_asks u))"

definition weex_true :: "history \<Rightarrow> Depth \<Rightarrow> bool" where
  "weex_true H u \<longleftrightarrow>
     (dp_kind u = ''SNAPSHOT'' \<longrightarrow> true_full H (dp_last u) (dp_bids u) (dp_asks u))
   \<and> (dp_kind u = ''CHANGED'' \<longrightarrow> (\<exists>p. dp_first u = Some p \<and> true_change H p (dp_last u) (dp_bids u) (dp_asks u)))"

definition whitebit_true :: "history \<Rightarrow> bool \<times> Value \<Rightarrow> bool" where
  "whitebit_true H d \<longleftrightarrow>
     (case d of (is_full, data) \<Rightarrow>
      let bids = parse_levels (json_get data ''bids'');
          asks = parse_levels (json_get data ''asks'');
          q = json_get data ''update_id'' \<bind> parse_u64
      in if is_full then true_full H q bids asks
         else \<forall>p. json_get data ''past_update_id'' \<bind> parse_u64 = Some p \<longrightarrow> true_change H p q bids asks)"

lemma linked_apply_sync:
  assumes "synced_book H k b"
  shows "bybit_true (H k) u \<Longrightarrow> yields (synced_book H k) (shows_own H) (bybit_apply m u b)"
    "okx_true (H k) d \<Longrightarrow> yields (synced_book H k) (shows_own H) (okx_apply m d b)"
    "weex_true (H k) u \<Longrightarrow> yields (synced_book H k) (shows_own H) (weex_apply m u b)"
    "whitebit_true (H k) wb \<Longrightarrow> yields (synced_book H k) (shows_own H) (whitebit_apply m wb b)"
  using assms
  by (auto simp: bybit_apply_def okx_apply_def weex_apply_def whitebit_apply_def
      bybit_true_def okx_true_def weex_true_def whitebit_true_def
      skip_def Let_def intro!: full_publish change_publish clear_sync
      split: option.splits prod.splits PrevSeq.splits if_splits)

text \<open>A number above \<open>p\<close> and at most one more is the next one: the successor did not wrap.\<close>

lemma next_seq:
  assumes "\<not> n \<le> p" "\<not> n > p + 1"
  shows "n - 1 = (p :: u64)"
proof -
  have "p + 1 \<le> n" using assms(1) by (intro inc_le) simp
  then show ?thesis using assms(2) by auto
qed

lemma bitget_apply_sync:
  "synced_book H k b \<Longrightarrow> bitget_true (H k) u \<Longrightarrow> yields (synced_book H k) (shows_own H) (bitget_apply m u b)"
  by (auto simp: bitget_apply_def bitget_true_def skip_def intro!: full_publish change_publish
      dest: next_seq split: option.splits)

lemma gate_apply_sync:
  "synced_book H k b \<Longrightarrow> gate_true (H k) d \<Longrightarrow> yields (synced_book H k) (shows_own H) (gate_apply m d b)"
  by (auto simp: gate_apply_def gate_true_def skip_def true_change_def intro!: full_publish change_publish
      split: option.splits prod.splits if_splits)

definition poloniex_true :: "(string \<Rightarrow> history) \<Rightarrow> string \<Rightarrow> Value \<Rightarrow> bool" where
  "poloniex_true H act d \<longleftrightarrow>
     (\<forall>k. json_get d ''symbol'' \<bind> as_str = Some k \<longrightarrow>
      (let bids = parse_levels (json_get d ''bids'');
           asks = parse_levels (json_get d ''asks'');
           q = json_get d ''id'' \<bind> parse_u64
       in (act = ''snapshot'' \<longrightarrow> true_full (H k) q bids asks)
        \<and> (act = ''update'' \<longrightarrow> (\<exists>p. json_get d ''lastId'' \<bind> parse_u64 = Some p \<and> true_change (H k) p q bids asks))))"

lemma poloniex_item_sync:
  assumes "table_sync H t" "poloniex_true H act d"
  shows "yields (table_sync H) (shows_own H) (poloniex_item act m d t)"
proof (cases "json_get d ''symbol'' \<bind> as_str")
  case (Some k)
  show ?thesis
    using Some assms unfolding table_sync_alt poloniex_item_def
    by (auto simp: poloniex_true_def skip_def Let_def intro!: on_book_yields full_publish change_publish split: option.splits)
qed (use assms(1) in \<open>simp add: poloniex_item_def\<close>)

text \<open>
  The items of a Crypto.com update are a chain: each continues the one before it, and none leaves
  the number unchanged.
\<close>

fun cryptocom_chain :: "history \<Rightarrow> Value list \<Rightarrow> bool" where
  "cryptocom_chain H [] = True"
| "cryptocom_chain H (item # items) =
     (let upd = (case json_get item ''update'' of Some x \<Rightarrow> x | None \<Rightarrow> item);
          pu = json_get item ''pu'' \<bind> parse_u64;
          u = json_get item ''u'' \<bind> parse_u64
      in (\<exists>p. pu = Some p \<and> true_change H p u (parse_levels (json_get upd ''bids'')) (parse_levels (json_get upd ''asks'')))
       \<and> u \<noteq> pu
       \<and> (case items of [] \<Rightarrow> True | next_item # _ \<Rightarrow> json_get next_item ''pu'' \<bind> parse_u64 = u)
       \<and> cryptocom_chain H items)"

definition cryptocom_true :: "history \<Rightarrow> string \<times> Value list \<Rightarrow> bool" where
  "cryptocom_true H d \<longleftrightarrow>
     (case d of (channel, items) \<Rightarrow>
        (channel = ''book'' \<longrightarrow> (\<forall>item \<in> set items. true_full H (json_get item ''u'' \<bind> parse_u64)
           (parse_levels (json_get item ''bids'')) (parse_levels (json_get item ''asks''))))
      \<and> (channel = ''book.update'' \<longrightarrow> cryptocom_chain H items))"

lemma publish_Next: "\<exists>b' acts. publish ts m b = Next b' acts"
  by (auto simp: publish_def split: prod.splits option.splits)

text \<open>The second item of a chain is always taken for a gap, because \<open>local\<close> is not refreshed.\<close>

lemma cryptocom_second_gap:
  assumes "cryptocom_chain H (i # j # items)" "json_get i ''pu'' \<bind> parse_u64 = Some local"
  shows "cryptocom_update m local j b = fail ''cryptocom gap''"
  using assms by (auto simp: cryptocom_update_def Let_def true_change_def)

lemma cryptocom_linked_items_abort:
  assumes "cryptocom_chain H (i # j # items)" "json_get i ''pu'' \<bind> parse_u64 = Some local"
  shows "\<exists>acts. each (cryptocom_update m local) (i # j # items) b = Failed ''cryptocom gap'' acts"
proof -
  obtain u where "json_get i ''u'' \<bind> parse_u64 = Some u" using assms by (auto simp: Let_def true_change_def)
  then have "\<exists>b' acts. cryptocom_update m local i b = Next b' acts"
    using assms(2) by (simp add: cryptocom_update_def Let_def publish_Next)
  then obtain b' acts where "cryptocom_update m local i b = Next b' acts" by blast
  then show ?thesis using cryptocom_second_gap[OF assms] by (simp add: fail_def)
qed

lemma cryptocom_apply_sync:
  assumes "synced_book H k b" "cryptocom_true (H k) d"
  shows "yields (synced_book H k) (shows_own H) (cryptocom_apply m d b)"
proof -
  obtain channel items where d: "d = (channel, items)" by (cases d)
  have snap: "yields (synced_book H k) (shows_own H) (each (cryptocom_snapshot m) items b)" if "channel = ''book''"
    by (rule yields_each) (use that assms d in \<open>auto simp: cryptocom_true_def cryptocom_snapshot_def intro: full_publish\<close>)
  have "yields (synced_book H k) (shows_own H) (each (cryptocom_update m local) items b)"
    if c: "cryptocom_chain (H k) items" "lb_seq b = Some local" for local
  proof (cases items rule: list.exhaust[case_names Nil Cons])
    case (Cons i rest)
    have one: "yields (synced_book H k) (shows_own H) (cryptocom_update m local i b)"
      using c Cons assms(1)
      by (auto simp: cryptocom_update_def Let_def skip_def intro!: change_publish split: option.splits)
    show ?thesis
    proof (cases rest)
      case Nil
      then show ?thesis using one Cons by (auto split: outcome.splits)
    next
      case (Cons j others)
      show ?thesis
      proof (cases "cryptocom_update m local i b")
        case (Next b' acts)
        then have "json_get i ''pu'' \<bind> parse_u64 = Some local"
          using c(1) \<open>items = i # rest\<close> by (auto simp: cryptocom_update_def fail_def Let_def split: if_splits)
        then have "cryptocom_update m local j b' = fail ''cryptocom gap''"
          using c(1) \<open>items = i # rest\<close> Cons by (metis cryptocom_second_gap)
        then show ?thesis using one Next Cons \<open>items = i # rest\<close> by (simp add: fail_def)
      qed (use one \<open>items = i # rest\<close> in simp)
    qed
  qed (use assms(1) in simp)
  then show ?thesis using snap assms d by (auto simp: cryptocom_apply_def cryptocom_true_def skip_def split: option.splits)
qed

definition update_true :: "history \<Rightarrow> BufferedUpdate \<Rightarrow> bool" where
  "update_true H u \<longleftrightarrow> true_change H (bu_version u - 1) (Some (bu_version u)) (bu_bids u) (bu_asks u)"

definition bitmart_true :: "history \<Rightarrow> string \<times> int \<times> BufferedUpdate \<Rightarrow> bool" where
  "bitmart_true H d \<longleftrightarrow>
     (case d of (typ, _, u) \<Rightarrow>
        (typ = ''snapshot'' \<longrightarrow> true_full H (Some (bu_version u)) (bu_bids u) (bu_asks u))
      \<and> (typ = ''update'' \<longrightarrow> update_true H u))"

definition bitmart_following :: "(string \<Rightarrow> history) \<Rightarrow> Buffered \<Rightarrow> bool" where
  "bitmart_following H s \<longleftrightarrow> table_sync H (bf_books s) \<and> (\<forall>k. \<forall>u \<in> set (bf_buf s k). update_true (H k) u)"

lemma bitmart_drain_sync:
  assumes "bitmart_drain n us b = Some b'" "synced_book H k b" "\<forall>u \<in> set us. update_true (H k) u" "lb_seq b \<noteq> None"
  shows "synced_book H k b' \<and> lb_seq b' \<noteq> None"
  using assms
proof (induction n us b rule: bitmart_drain.induct)
  case (2 n u us b)
  show ?case
  proof (cases "bu_version u \<le> n")
    case False
    then obtain p where p: "lb_seq b = Some p" "bu_version u - 1 = p"
      using 2(3,6) by (auto split: if_splits)
    then have "synced_book H k (apply_deltas b (bu_bids u) (bu_asks u) (Some (bu_version u)))"
      using 2(4,5) by (auto simp: update_true_def true_change_def intro: deltas_sync)
    with 2 False show ?thesis by (auto split: if_splits)
  qed (use 2 in auto)
qed simp

lemma put_book_sync:
  assumes "bitmart_following H s" "yields (synced_book H k) (shows_own H) r"
  shows "yields (bitmart_following H) (shows_own H) (put_book k r s)"
  unfolding put_book_def yields_map
  by (rule yields_mono[OF assms(2)]) (use assms(1) in \<open>auto simp: bitmart_following_def table_sync_def\<close>)

lemma bitmart_item_sync:
  assumes "bitmart_following H s" "\<forall>k d'. bitmart_parse F d = Some (k, d') \<longrightarrow> bitmart_true (H k) d'"
  shows "yields (bitmart_following H) (shows_own H) (bitmart_item F m d s)"
proof (cases "bitmart_parse F d")
  case (Some r)
  obtain k kind ts u where r: "r = (k, kind, ts, u)" by (cases r) auto
  have t: "bitmart_true (H k) (kind, ts, u)" using assms(2) Some r by auto
  show ?thesis
  proof (cases "bf_books s k")
    case b: (Some b)
    have sb: "synced_book H k b" using assms(1) b by (simp add: bitmart_following_def table_sync_def)
    have drained: "yields (synced_book H k) (shows_own H) (publish_ready ts m b')"
      if "kind = ''snapshot''"
        "bitmart_drain (bu_version u) (bf_buf s k) (apply_snapshot b (bu_bids u) (bu_asks u) (Some (bu_version u))) = Some b'" for b'
    proof -
      have "synced_book H k (apply_snapshot b (bu_bids u) (bu_asks u) (Some (bu_version u)))"
        using sb t that(1) by (auto simp: bitmart_true_def true_full_def intro: snapshot_sync)
      from bitmart_drain_sync[OF that(2) this] have "synced_book H k b' \<and> lb_seq b' \<noteq> None"
        using assms(1) by (simp add: bitmart_following_def)
      then show ?thesis by (auto simp: publish_ready_def intro: publish_sync)
    qed
    have live: "yields (synced_book H k) (shows_own H)
        (publish_ready ts m (apply_deltas b (bu_bids u) (bu_asks u) (Some (bu_version u))))"
      if "kind = ''update''" "lb_seq b = Some local" "bu_version u = local + 1" for local
      using sb t that by (auto simp: bitmart_true_def update_true_def intro!: change_publish)
    have "bitmart_following H (s\<lparr>bf_buf := (bf_buf s)(k := [])\<rparr>)" using assms(1) by (simp add: bitmart_following_def)
    moreover have "bitmart_following H (s\<lparr>bf_buf := (bf_buf s)(k := bf_buf s k @ [u])\<rparr>)" if "kind = ''update''"
      using assms(1) t that by (auto simp: bitmart_following_def bitmart_true_def)
    ultimately show ?thesis
      using Some r b assms(1) drained live
      by (auto simp: bitmart_item_def enqueue_def intro!: put_book_sync split: option.splits)
  qed (use Some r assms(1) in \<open>simp add: bitmart_item_def\<close>)
qed (use assms(1) in \<open>simp add: bitmart_item_def\<close>)

section \<open>The sessions with gap detection\<close>

text \<open>The frames of the venues whose messages are lists of items.\<close>

definition poloniex_frame_true :: "feed \<Rightarrow> (string \<Rightarrow> history) \<Rightarrow> moment \<times> WsEvent \<Rightarrow> bool" where
  "poloniex_frame_true F H e \<longleftrightarrow>
     (\<forall>text act items. snd e = WsText text \<longrightarrow> poloniex_items F text = Some (act, items) \<longrightarrow>
        (\<forall>d \<in> set items. poloniex_true H act d))"

definition bitmart_frame_true :: "feed \<Rightarrow> (string \<Rightarrow> history) \<Rightarrow> moment \<times> WsEvent \<Rightarrow> bool" where
  "bitmart_frame_true F H e \<longleftrightarrow>
     (\<forall>text items. snd e = WsText text \<longrightarrow>
        from_json F text \<bind> (\<lambda>v. json_get v ''data'') \<bind> as_array = Some items \<longrightarrow>
        (\<forall>d \<in> set items. \<forall>k u. bitmart_parse F d = Some (k, u) \<longrightarrow> bitmart_true (H k) u))"

interpretation bybit_follow: sequenced "bybit_round F" table_sync "true_text (bybit_parse F) bybit_true" for F
  by unfold_locales
    (auto simp: bybit_round_def true_text_def intro!: yields_round deliver_sync linked_apply_sync split: prod.splits)

interpretation bitget_follow: sequenced "bitget_round F" table_sync "true_text (bitget_parse F) bitget_true" for F
  by unfold_locales
    (auto simp: bitget_round_def true_text_def intro!: yields_round deliver_sync bitget_apply_sync split: prod.splits)

interpretation okx_follow: sequenced "okx_round F" table_sync "true_text (okx_parse F) okx_true" for F
  by unfold_locales
    (auto simp: okx_round_def true_text_def intro!: yields_round deliver_sync linked_apply_sync split: prod.splits)

interpretation gate_follow: sequenced "gate_round F" table_sync "true_text (gate_parse F) gate_true" for F
  by unfold_locales
    (auto simp: gate_round_def true_text_def intro!: yields_round deliver_sync gate_apply_sync split: prod.splits)

interpretation weex_follow: sequenced "weex_round F" table_sync
  "true_text (\<lambda>text. from_json F text \<bind> weex_parse F) weex_true" for F
  by unfold_locales
    (auto simp: weex_round_def weex_text_def true_text_def intro!: yields_round deliver_sync linked_apply_sync
      split: prod.splits option.splits)

interpretation whitebit_follow: sequenced "whitebit_round F" table_sync
  "true_text (\<lambda>text. from_json F text \<bind> whitebit_parse F) whitebit_true" for F
  by unfold_locales
    (auto simp: whitebit_round_def whitebit_text_def true_text_def intro!: yields_round deliver_sync linked_apply_sync
      split: prod.splits option.splits)

interpretation cryptocom_follow: sequenced "cryptocom_round F" table_sync
  "true_text (\<lambda>text. from_json F text \<bind> cryptocom_parse F) cryptocom_true" for F
  by unfold_locales
    (auto simp: cryptocom_round_def cryptocom_text_def true_text_def intro!: yields_round deliver_sync cryptocom_apply_sync
      split: prod.splits option.splits)

interpretation poloniex_follow: sequenced "poloniex_round F" table_sync "poloniex_frame_true F" for F
  by unfold_locales
    (auto simp: poloniex_round_def poloniex_frame_true_def intro!: yields_round yields_each poloniex_item_sync
      split: prod.splits option.splits)

interpretation bitmart_follow: sequenced "bitmart_round F" bitmart_following "bitmart_frame_true F" for F
  by unfold_locales
    (auto simp: bitmart_round_def bitmart_text_def bitmart_frame_true_def intro!: yields_round yields_each bitmart_item_sync
      split: prod.splits option.splits)

text \<open>The sessions that detect gaps, each with what a true frame of its venue is.\<close>

definition linked_feeds ::
    "feed \<Rightarrow> int \<Rightarrow> ExchangeConfig
     \<Rightarrow> ((dial \<Rightarrow> (moment \<times> WsEvent) list \<Rightarrow> action list \<times> string option)
         \<times> ((string \<Rightarrow> history) \<Rightarrow> moment \<times> WsEvent \<Rightarrow> bool)) list" where
  "linked_feeds F now cfg =
     [(bybit_session F cfg, true_text (bybit_parse F) bybit_true),
      (bitget_session F cfg, true_text (bitget_parse F) bitget_true),
      (okx_session F cfg, true_text (okx_parse F) okx_true),
      (gate_session F (now div 1000) cfg, true_text (gate_parse F) gate_true),
      (poloniex_session F cfg, poloniex_frame_true F),
      (weex_session F cfg, true_text (\<lambda>text. from_json F text \<bind> weex_parse F) weex_true),
      (whitebit_session F cfg, true_text (\<lambda>text. from_json F text \<bind> whitebit_parse F) whitebit_true),
      (cryptocom_session F now cfg, true_text (\<lambda>text. from_json F text \<bind> cryptocom_parse F) cryptocom_true),
      (bitmart_session F cfg, bitmart_frame_true F)]"

lemmas linked_frames =
  bybit_frames_def bitget_frames_def okx_frames_def gate_frames_def poloniex_frames_def weex_frames_def
  whitebit_frames_def cryptocom_frames_def coinbase_frames_def bitmart_frames_def ascendex_frames_def

lemma linked_frames_silent:
  "\<forall>d. Emit d \<notin> set (bybit_frames F cfg)" "\<forall>d. Emit d \<notin> set (bitget_frames F cfg)" "\<forall>d. Emit d \<notin> set (okx_frames cfg)"
  "\<forall>d. Emit d \<notin> set (gate_frames F n cfg)" "\<forall>d. Emit d \<notin> set (poloniex_frames cfg)" "\<forall>d. Emit d \<notin> set (weex_frames F cfg)"
  "\<forall>d. Emit d \<notin> set (whitebit_frames F cfg)" "\<forall>d. Emit d \<notin> set (cryptocom_frames F n cfg)"
  "\<forall>d. Emit d \<notin> set (coinbase_frames cfg)" "\<forall>d. Emit d \<notin> set (bitmart_frames F cfg)" "\<forall>d. Emit d \<notin> set (ascendex_frames cfg)"
  by (auto simp: linked_frames)

lemma bitmart_start: "bitmart_following H \<lparr>bf_books = open_books x f f pairs, bf_buf = (\<lambda>_. [])\<rparr>"
  by (simp add: bitmart_following_def open_books_sync)

text \<open>
  C14. A session with gap detection publishes only what the venue's book was. Take any history of the
  venue's book for each symbol, and any sequence of frames whose depth messages are true to it:
  a snapshot shows the book at its number, a change takes the book from the number it continues to
  its own. Whatever frames are lost, repeated, delayed or out of order, each book the session emits
  is the best 25 levels a side of the venue's book of that symbol at one sequence number.
\<close>

theorem linked_sessions_follow:
  assumes "(run, honest) \<in> set (linked_feeds F now cfg)" "\<forall>e \<in> set es. honest H e" "Emit d \<in> set (fst (run w es))"
  shows "shows_history (H (ob_symbol d)) d"
proof -
  note starts = bybit_follow.sync.start_yields[OF open_books_sync _ linked_frames_silent(1)]
    bitget_follow.sync.start_yields[OF open_books_sync _ linked_frames_silent(2)]
    okx_follow.sync.start_yields[OF open_books_sync _ linked_frames_silent(3)]
    gate_follow.sync.start_yields[OF open_books_sync _ linked_frames_silent(4)]
    poloniex_follow.sync.start_yields[OF open_books_sync _ linked_frames_silent(5)]
    weex_follow.sync.start_yields[OF open_books_sync _ linked_frames_silent(6)]
    whitebit_follow.sync.start_yields[OF open_books_sync _ linked_frames_silent(7)]
    cryptocom_follow.sync.start_yields[OF open_books_sync _ linked_frames_silent(8)]
    bitmart_follow.sync.start_yields[OF bitmart_start _ linked_frames_silent(10)]
  have "shows_own H d"
    using assms unfolding linked_feeds_def
    by (auto simp: bybit_session_def bitget_session_def okx_session_def gate_session_def poloniex_session_def
        weex_session_def whitebit_session_def cryptocom_session_def bitmart_session_def dest: starts)
  then show ?thesis by (simp add: shows_own_def)
qed

definition demo_feed :: feed where
  "demo_feed = \<lparr>from_json = (\<lambda>text. if text = ''snap'' then
        Some (JObj [(''topic'', JStr ''orderbook.200.ABC''), (''type'', JStr ''snapshot''), (''ts'', JNum 1700000000000),
          (''data'', JObj [(''u'', JNum 7), (''b'', JArr [JArr [JNum 3, JNum 2]]), (''a'', JArr [JArr [JNum 4, JNum 1]])])])
      else None),
     to_uppercase = (\<lambda>s. s), to_lowercase = (\<lambda>s. s), rfc3339_ms = (\<lambda>_. None)\<rparr>"

definition demo_moment :: moment where
  "demo_moment = \<lparr>received_at = 1700000000050, send_ok = True\<rparr>"

definition demo_exchange :: ExchangeConfig where
  "demo_exchange = \<lparr>exc_name = ''bybit'', exc_enabled = True, exc_ws_url = [], exc_pairs = [''ABC''], exc_extra_params = Map.empty\<rparr>"

definition demo_socket :: dial where
  "demo_socket = \<lparr>connects = True, accepted_sends = 1\<rparr>"

lemma demo_bybit_parse:
  "bybit_parse demo_feed ''snap'' = Some (''ABC'', \<lparr>dp_kind = ''snapshot'', dp_first = None, dp_last = Some 7,
     dp_ts = 1700000000000, dp_bids = [(Fin 3, Fin 2)], dp_asks = [(Fin 4, Fin 1)]\<rparr>)"
  by code_simp

lemma demo_bybit_emits:
  "list_ex (\<lambda>a. case a of Emit d \<Rightarrow> ob_symbol d = ''ABC'' | _ \<Rightarrow> False)
     (fst (bybit_session demo_feed demo_exchange demo_socket [(demo_moment, WsText ''snap'')]))"
  by code_simp

lemma demo_emission:
  obtains d where "Emit d \<in> set (fst (bybit_session demo_feed demo_exchange demo_socket [(demo_moment, WsText ''snap'')]))"
proof -
  from demo_bybit_emits obtain a where a: "a \<in> set (fst (bybit_session demo_feed demo_exchange demo_socket [(demo_moment, WsText ''snap'')]))"
    "case a of Emit d \<Rightarrow> ob_symbol d = ''ABC'' | _ \<Rightarrow> False" unfolding list_ex_iff by blast
  then show ?thesis using that by - (cases a; auto)
qed

theorem linked_sessions_follow_witness:
  "\<exists>d. Emit d \<in> set (fst (bybit_session demo_feed demo_exchange demo_socket [(demo_moment, WsText ''snap'')]))
     \<and> shows_history (\<lambda>_. after_snapshot [(Fin 3, Fin 2)] [(Fin 4, Fin 1)]) d"
proof -
  let ?H = "\<lambda>_. \<lambda>_. after_snapshot [(Fin 3, Fin 2)] [(Fin 4, Fin 1)]"
  obtain d where d: "Emit d \<in> set (fst (bybit_session demo_feed demo_exchange demo_socket [(demo_moment, WsText ''snap'')]))"
    by (rule demo_emission)
  have "true_text (bybit_parse demo_feed) bybit_true ?H (demo_moment, WsText ''snap'')"
    by (simp add: true_text_def demo_bybit_parse bybit_true_def true_full_def)
  moreover have "(bybit_session demo_feed demo_exchange, true_text (bybit_parse demo_feed) bybit_true)
      \<in> set (linked_feeds demo_feed 0 demo_exchange)"
    by (simp add: linked_feeds_def)
  ultimately have "shows_history (?H (ob_symbol d)) d"
    using linked_sessions_follow[of _ _ demo_feed 0 demo_exchange "[(demo_moment, WsText ''snap'')]" ?H d demo_socket] d by auto
  then show ?thesis using d by blast
qed

text \<open>
  C40. A Crypto.com update with two or more items ends the session even when nothing was missed. The
  items of the message form a true chain that starts at the book's own sequence number, each
  continuing the one before; the number compared with is read once before the loop, so the second
  item is reported as a gap.
\<close>

theorem cryptocom_chain_ends_session:
  assumes "cryptocom_chain H (i # j # items)" "lb_seq b = Some local" "json_get i ''pu'' \<bind> parse_u64 = Some local"
  shows "\<exists>acts. cryptocom_apply m (''book.update'', i # j # items) b = Failed ''cryptocom gap'' acts"
  using cryptocom_linked_items_abort[OF assms(1,3)] assms(2) by (simp add: cryptocom_apply_def del: each.simps)

definition demo_item :: "int \<Rightarrow> Value" where
  "demo_item n = JObj [(''pu'', JNum n), (''u'', JNum (n + 1))]"

theorem cryptocom_chain_ends_session_witness:
  "\<exists>acts. cryptocom_apply demo_moment (''book.update'', [demo_item 7, demo_item 8])
     (apply_snapshot (LocalBook_new ''cryptocom'' ''ABC'') [(Fin 3, Fin 2)] [(Fin 4, Fin 1)] (Some 7))
   = Failed ''cryptocom gap'' acts"
proof -
  have "cryptocom_chain (\<lambda>_. (Map.empty, Map.empty)) [demo_item 7, demo_item 8]"
    by (simp add: demo_item_def parse_u64_def true_change_def after_deltas_def parse_levels_def rows_of_def)
  from cryptocom_chain_ends_session[OF this, of _ 7] show ?thesis by (simp add: demo_item_def parse_u64_def)
qed

text \<open>All sessions of this theory, with the identifier of the venue and the symbols of their books.\<close>

definition linked_sessions ::
    "feed \<Rightarrow> int \<Rightarrow> ExchangeConfig
     \<Rightarrow> (string \<times> string list \<times> (dial \<Rightarrow> (moment \<times> WsEvent) list \<Rightarrow> action list \<times> string option)) list" where
  "linked_sessions F now cfg =
     (let pairs = exc_pairs cfg; upper = map (to_uppercase F) pairs
      in [(''bybit'', upper, bybit_session F cfg), (''bitget'', upper, bitget_session F cfg), (''okx'', pairs, okx_session F cfg),
          (''gate'', upper, gate_session F (now div 1000) cfg), (''poloniex'', pairs, poloniex_session F cfg),
          (''weex'', upper, weex_session F cfg), (''whitebit'', upper, whitebit_session F cfg),
          (''cryptocom'', upper, cryptocom_session F now cfg), (''coinbase'', pairs, coinbase_session F cfg),
          (''bitmart'', upper, bitmart_session F cfg), (''ascendex'', pairs, ascendex_session F cfg)])"

text \<open>
  C20. Whatever a venue sends, in any order and however malformed, every book that a session hands to
  the sink has a positive exchange time stamp, at most 25 levels a side, bids strictly falling and
  asks strictly rising, finite positive prices and quantities and a best bid below the best ask,
  and carries the venue's own identifier and one of the configured symbols.
\<close>

theorem linked_sessions_well_formed:
  assumes "(x, symbols, run) \<in> set (linked_sessions F now cfg)" "Emit d \<in> set (fst (run w es))"
  shows "emission_ok x (set symbols) d"
proof -
  have opened: "venue_ok x (set (exc_pairs cfg)) (open_books x (\<lambda>p. p) (\<lambda>p. p) (exc_pairs cfg))"
    "venue_ok x (to_uppercase F ` set (exc_pairs cfg)) (open_books x (to_uppercase F) (to_uppercase F) (exc_pairs cfg))" for x
    using open_books_ok[of x "\<lambda>p. p" "exc_pairs cfg"] open_books_ok[of x "to_uppercase F" "exc_pairs cfg"] by simp_all
  have opened_coinbase: "venue_ok x (set (exc_pairs cfg))
      (cb_books \<lparr>cb_books = open_books x (\<lambda>p. p) (\<lambda>p. p) (exc_pairs cfg), cb_last_seq = None\<rparr>)" for x
    using opened by simp
  have opened_buffered: "venue_ok x (set (exc_pairs cfg))
      (bf_books \<lparr>bf_books = open_books x (\<lambda>p. p) (\<lambda>p. p) (exc_pairs cfg), bf_buf = (\<lambda>_. [])\<rparr>)"
    "venue_ok x (to_uppercase F ` set (exc_pairs cfg))
      (bf_books \<lparr>bf_books = open_books x (to_uppercase F) (to_uppercase F) (exc_pairs cfg), bf_buf = (\<lambda>_. [])\<rparr>)" for x
    using opened by simp_all
  note starts = bybit.start_ok[OF opened(2) linked_frames_silent(1)] bitget.start_ok[OF opened(2) linked_frames_silent(2)]
    okx.start_ok[OF opened(1) linked_frames_silent(3)] gate.start_ok[OF opened(2) linked_frames_silent(4)]
    poloniex.start_ok[OF opened(1) linked_frames_silent(5)] weex.start_ok[OF opened(2) linked_frames_silent(6)]
    whitebit.start_ok[OF opened(2) linked_frames_silent(7)] cryptocom.start_ok[OF opened(2) linked_frames_silent(8)]
    coinbase.start_ok[OF opened_coinbase linked_frames_silent(9)] bitmart.start_ok[OF opened_buffered(2) linked_frames_silent(10)]
    ascendex.start_ok[OF opened_buffered(1) linked_frames_silent(11)]
  show ?thesis
    using assms unfolding linked_sessions_def Let_def
    by (auto simp: bybit_session_def bitget_session_def okx_session_def gate_session_def poloniex_session_def
        weex_session_def whitebit_session_def cryptocom_session_def coinbase_session_def bitmart_session_def
        ascendex_session_def dest: starts)
qed

lemma demo_pairs: "exc_pairs demo_exchange = [''ABC'']" "to_uppercase demo_feed s = s"
  by (simp_all add: demo_exchange_def demo_feed_def)

theorem linked_sessions_well_formed_witness:
  "\<exists>d. Emit d \<in> set (fst (bybit_session demo_feed demo_exchange demo_socket [(demo_moment, WsText ''snap'')]))
     \<and> emission_ok ''bybit'' {''ABC''} d"
proof -
  obtain d where d: "Emit d \<in> set (fst (bybit_session demo_feed demo_exchange demo_socket [(demo_moment, WsText ''snap'')]))"
    by (rule demo_emission)
  moreover have "(''bybit'', [''ABC''], bybit_session demo_feed demo_exchange) \<in> set (linked_sessions demo_feed 0 demo_exchange)"
    using demo_pairs by (simp add: linked_sessions_def Let_def)
  ultimately show ?thesis using linked_sessions_well_formed[of "''bybit''" "[''ABC'']"] by fastforce
qed

end
