(* ===== verification/Spec2Isabelle.thy ===== *)
theory Spec2Isabelle
  imports Bridge_Runner Venues_Linked
begin

text \<open>
  A verification development for Kaskad Nuntius, a price oracle that runs in AWS Nitro enclaves.

  \<^bold>\<open>The program.\<close> The oracle image reads prices of each configured asset from many venues, by REST
  samples and by live order books, aggregates them, and keeps the result in a price store. A
  server on a socket signs a stored price on demand with a key that exists only inside the
  enclave. That key comes from sealed storage, from the security module, or, in the key-exchange
  image, from another enclave over attested TLS, under the rules of an on-chain registry and an
  owner quorum. The bridge image holds a key derived from the oracle's and signs claims for totals that were
  burned on another chain.

  \<^bold>\<open>How it is modelled.\<close> Definitions are functions of HOL, one per operation of the code,
  with its branches and its errors. Rust's \<open>u8\<close>, \<open>u64\<close> and \<open>U256\<close> are words and wrap as the code wraps; \<open>i64\<close> is an integer with
  the wrap written out; \<open>f64\<close> is IEEE binary64 with its rounding, infinities, NaN and signed zero (\<open>F64\<close>).
  An error is the left of a sum, a panic the value \<open>Panic\<close>, and a loop without a bound a partial function whose value is \<open>None\<close>
  when it does not return. Code outside the repository is a parameter: the curve (\<open>ecdsa\<close>), EIP-712 and Keccak hashes,
  CBOR, X.509 and P-384 (\<open>nitro_crypto\<close>), HKDF, the TLS library, JSON and hexadecimal codecs, the security module (\<open>nsm\<close>),
  sockets and clocks. Such a parameter acts on an arbitrary world \<open>'s\<close>, so it may answer differently every time; what a theorem needs of it is a named hypothesis.

  \<^bold>\<open>The theories\<close>, with the files they translate.

  \<^item> \<open>Prelude\<close>, \<open>F64\<close>, \<open>Ordered_Map\<close>, \<open>Std_Text\<close>: integers, errors and lists; binary64; \<open>BTreeMap\<close> as a refinement of maps;
    text functions and socket-address syntax of the standard library. \<open>Runs\<close>: runs of a step relation, with the
    contract of an invariant and of a state that only collects items.
  \<^item> \<open>Assets\<close> (\<open>src/types.rs\<close>), \<open>Aggregator\<close> (\<open>src/aggregator/mod.rs\<close>): the asset table; cleaning, outlier rejection and the weighted median. Shown: the median
    is total on cleaned input and lies in the range of the honest majority of weight; the fixed-point encoding is exact.
  \<^item> \<open>Books\<close> (\<open>src/cob_common\<close>, \<open>src/collectors/book.rs\<close>, \<open>src/cob_state\<close>), \<open>Cob\<close> (\<open>src/cob.rs\<close>): a venue's book, the shared table, and the consolidated book. Shown: books
    refine two maps and are emitted sorted and uncrossed, clearing is correct and ends under stated bounds, with an input on which it does not.
  \<^item> \<open>Feed\<close> (\<open>src/collectors/util.rs\<close>, \<open>src/collectors/sink.rs\<close>), \<open>Venues_Linked\<close> (eleven files of \<open>src/collectors/impls\<close>): one round of a venue's session, and the sessions of Bybit,
    Bitget, OKX, Gate, Poloniex, WEEX, WhiteBIT, Crypto.com, Coinbase, BitMart and AscendEX. Shown: whatever arrives, only well-formed books are emitted; from true messages, however lost or
    reordered, a session with gap detection publishes only the venue's own book; and a linked Crypto.com update of two items ends its session.
  \<^item> \<open>Oracle\<close> (\<open>src/main.rs\<close>, \<open>src/sources/mod.rs\<close>), \<open>Price_Server\<close> (\<open>src/signer.rs\<close>, \<open>src/price_server.rs\<close>): one cycle over all assets, and the server. Shown: stored
    prices have their quorum, cycles return, served updates are signed over exactly the stored price, and only with a fresh attestation.
  \<^item> \<open>Signatures\<close>, \<open>Approval\<close>, \<open>Policy\<close>, \<open>Chain\<close>, \<open>Boot\<close>, \<open>Attestation\<close>, \<open>Handover\<close> (\<open>crates/keyex\<close>, \<open>crates/nitro-common\<close>): recoverable signatures, owner approvals, the
    handover decision, chain reads, the boot loop, attestation documents and the handover exchange with both of its sides. Shown: what each accepts, exactly;
    that the two sides agree; and that a peer that is not authorised sees nothing that depends on the key.
  \<^item> \<open>Transport\<close>, \<open>Bridge\<close>, \<open>Bridge_Runner\<close> (\<open>crates/pontifex-bridge\<close>): JSON-RPC with failover; the bridge's state, handlers and claims; its start-up and its connections. Shown: every signed claim is for a total that
    was read at a finalized depth, and the totals signed for a recipient never decrease.
  \<^item> \<open>Nsm\<close>, \<open>Vsock\<close> (\<open>crates/nitro-common\<close>, \<open>src/nsm_rng.rs\<close>): the security module, its buffered generators, framed sockets.
  \<^item> \<open>Keyex_State\<close>, \<open>Keyex_Oracle\<close> (\<open>src/keyex_oracle\<close>): the key-exchange image: configuration, state, control channel, handover server, start-up. Shown,
    over every history of requests: the key leaves only to its own image or to one a live owner quorum approved.

  \<^bold>\<open>Interfaces.\<close> Locales state what a component relies on, and each is interpreted on the model: \<open>state_machine\<close> and \<open>collector\<close> (\<open>Runs\<close>) on the machines of the bridge, the books, the
  price server, the handover slots and the approvals; \<open>weak_order\<close> and \<open>ordered_key\<close> on the sorts and maps over floats; \<open>slot_refill\<close> on the two random generators;
  \<open>venue\<close> and \<open>sequenced\<close>, which share \<open>emitter\<close>, on the sessions of the venues.

  \<^bold>\<open>Bounds.\<close> Loops of the code that may not end are partial functions, and the theorems about returning give the bounds under which they do: quantities up to \<open>2 ^ 70\<close> and
  prices up to \<open>2 ^ 60\<close> ticks, where sums of a table of \<open>2 ^ 40\<close> entries stay exact enough for clearing to make progress. The bound of 64 draws for a key is the code's own.

  \<^bold>\<open>Not modelled.\<close> Creating, binding and polling sockets; TLS configuration objects; logging; command line and environment; the parsers of REST answers, whose samples are inputs of the
  model; the sessions of the remaining venues, which reconcile queued frames with a REST download or send books without a link between messages, so that \<open>Books\<close> covers what they do to a book
  and not how they read it; the collector manager, which spawns and aborts tasks; sealing with AWS KMS and S3 (a parameter of the signer); the relayer, the host's HTTP server and
  infrastructure code, which hold no key and whose behaviour the enclave does not rely on.
\<close>

end
